(* ===== verification/GC_Prelude.thy ===== *)
theory GC_Prelude
  imports Main "HOL-Library.Word" "HOL-Library.Multiset"
begin

text \<open>
  Shared vocabulary of the development: bytes and memory cells, the faults an operation of the
  program can end with, the sequencing of fallible operations, and the generic lemmas on lists
  that the component theories use.  A fallible C++ operation returns \<open>fault + 'a\<close>; undefined
  behaviour, \<open>exit()\<close> and every exception of the source are values on the left.
\<close>

unbundle bit_operations_syntax

section \<open>Bytes, cells and faults\<close>

type_synonym byte = "8 word"

text \<open>A cell of memory is a byte or, when \<open>None\<close>, indeterminate (never written since it was allocated).\<close>

type_synonym cell = "byte option"

datatype fault =
    OutOfBounds            \<comment> \<open>access outside the object a pointer points into\<close>
  | Indeterminate          \<comment> \<open>the value of an indeterminate object decides what happens\<close>
  | End_Deref              \<comment> \<open>dereference of a past-the-end iterator\<close>
  | Null_Deref             \<comment> \<open>dereference of a null pointer\<close>
  | Signed_Overflow        \<comment> \<open>overflow of a signed integer\<close>
  | Exit int               \<comment> \<open>the process calls \<open>exit(n)\<close>\<close>
  | Runtime_Error string   \<comment> \<open>\<open>std::runtime_error\<close> is thrown\<close>
  | NBDBadMagic "32 word"  \<comment> \<open>exception of nbd_driver_proxy.hpp\<close>
  | Badkey                 \<comment> \<open>exception of factory.hpp, a \<open>std::logic_error\<close>\<close>
  | Logic_Error string     \<comment> \<open>\<open>std::invalid_argument\<close> or \<open>std::out_of_range\<close>, of \<open>std::stoull\<close>\<close>
  | EpollError int         \<comment> \<open>exception of epoll.hpp, with \<open>errno\<close>\<close>
  | SemError int           \<comment> \<open>exception of semaphore.hpp, with \<open>errno\<close>\<close>
  | SemTimeOut int         \<comment> \<open>exception of semaphore.hpp, with \<open>errno\<close>\<close>
  | Dangling               \<comment> \<open>access to an object that was destroyed\<close>
  | Would_Block            \<comment> \<open>the call is still waiting for input at the end of the given input\<close>

type_synonym 'a res = "fault + 'a"

definition bindE :: "'a res \<Rightarrow> ('a \<Rightarrow> 'b res) \<Rightarrow> 'b res" where
  "bindE m f = (case m of Inl e \<Rightarrow> Inl e | Inr v \<Rightarrow> f v)"

lemma bindE_simps [simp]:
  "bindE (Inl e) f = Inl e"
  "bindE (Inr v) f = f v"
  by (simp_all add: bindE_def)

lemma bindE_Inr_iff: "bindE m f = Inr y \<longleftrightarrow> (\<exists>v. m = Inr v \<and> f v = Inr y)"
  by (cases m) simp_all

lemma bindE_assoc: "bindE (bindE m f) g = bindE m (\<lambda>v. bindE (f v) g)"
  by (cases m) simp_all

lemma bindE_cong [fundef_cong]:
  "m = m' \<Longrightarrow> (\<And>v. m' = Inr v \<Longrightarrow> f v = f' v) \<Longrightarrow> bindE m f = bindE m' f'"
  by (cases m') simp_all

named_theorems mem_simps
named_theorems wire_simps

section \<open>Lists\<close>

lemma take_map_Some [simp]: "take n (map Some xs) = map Some (take n xs)"
  by (simp add: take_map)

lemma drop_length_append [simp]: "n = length xs \<Longrightarrow> drop n (xs @ ys) = ys"
  by simp

lemma take_length_append [simp]: "n = length xs \<Longrightarrow> take n (xs @ ys) = xs"
  by simp

text \<open>Overwriting a stretch of a list from a position on.\<close>

definition overwrite :: "'a list \<Rightarrow> nat \<Rightarrow> 'a list \<Rightarrow> 'a list" where
  "overwrite xs i ys = take i xs @ ys @ drop (i + length ys) xs"

lemma length_overwrite [simp]: "i + length ys \<le> length xs \<Longrightarrow> length (overwrite xs i ys) = length xs"
  by (simp add: overwrite_def)

lemma nth_overwrite:
  assumes "i + length ys \<le> length xs" and "j < length xs"
  shows "overwrite xs i ys ! j = (if i \<le> j \<and> j < i + length ys then ys ! (j - i) else xs ! j)"
  using assms by (auto simp: overwrite_def nth_append min_def)

lemma overwrite_Nil [simp]: "overwrite xs i [] = xs"
  by (simp add: overwrite_def)

lemma overwrite_append:
  "i \<le> length xs \<Longrightarrow> j = i + length ys \<Longrightarrow>
   overwrite (overwrite xs i ys) j zs = overwrite xs i (ys @ zs)"
  by (simp add: overwrite_def min_def ac_simps)

lemma overwrite_same_read:
  "i + length ys \<le> length xs \<Longrightarrow> take (length ys) (drop i (overwrite xs i ys)) = ys"
  by (simp add: overwrite_def min_def)

lemma overwrite_disjoint_read:
  assumes "i + length ys \<le> length xs" and "j + n \<le> i \<or> i + length ys \<le> j"
    and "j + n \<le> length xs"
  shows "take n (drop j (overwrite xs i ys)) = take n (drop j xs)"
  using assms by (intro nth_equalityI) (auto simp: nth_overwrite)

lemma overwrite_at_append:
  "n = length xs \<Longrightarrow> length ys \<le> length zs \<Longrightarrow>
   overwrite (xs @ zs) n ys = xs @ ys @ drop (length ys) zs"
  by (simp add: overwrite_def)

end
