(* ===== verification/C_Memory.thy ===== *)
theory C_Memory
  imports GC_Prelude
begin

text \<open>
  The part of C and C++ memory the program uses.  An object is the list of its cells; a pointer
  that only moves forward through an object is the suffix that starts at it, so that dereferencing
  the empty suffix is the out-of-bounds access.  The functions of the C library the program calls
  on such pointers follow: reading a string, \<open>memcpy\<close>, \<open>strcpy\<close>, \<open>strcmp\<close>, decimal text,
  \<open>strtoul\<close> and \<open>strtol\<close>.
\<close>

section \<open>Pointers and copies\<close>

fun deref :: "cell list \<Rightarrow> byte res" where
  "deref [] = Inl OutOfBounds"
| "deref (None # p) = Inl Indeterminate"
| "deref (Some b # p) = Inr b"

definition byte_at :: "cell list \<Rightarrow> nat \<Rightarrow> byte res" where
  "byte_at p i = deref (drop i p)"

text \<open>Storing cells at an offset of an object.\<close>

definition store_at :: "cell list \<Rightarrow> nat \<Rightarrow> cell list \<Rightarrow> cell list res" where
  "store_at mem i cs =
     (if i + length cs \<le> length mem then Inr (overwrite mem i cs) else Inl OutOfBounds)"

text \<open>\<open>memcpy(mem + i, src, n)\<close>: indeterminate cells are copied as they are.\<close>

definition mem_cpy :: "cell list \<Rightarrow> nat \<Rightarrow> cell list \<Rightarrow> nat \<Rightarrow> cell list res" where
  "mem_cpy mem i src n =
     (if n \<le> length src then store_at mem i (take n src) else Inl OutOfBounds)"

lemma store_at_Inr_iff:
  "store_at mem i cs = Inr mem' \<longleftrightarrow> i + length cs \<le> length mem \<and> mem' = overwrite mem i cs"
  by (auto simp: store_at_def)

lemma store_at_ok [simp]:
  "i + length cs \<le> length mem \<Longrightarrow> store_at mem i cs = Inr (overwrite mem i cs)"
  by (simp add: store_at_def)

lemma mem_cpy_ok [simp]:
  "n \<le> length src \<Longrightarrow> i + n \<le> length mem \<Longrightarrow> mem_cpy mem i src n = Inr (overwrite mem i (take n src))"
  by (simp add: mem_cpy_def)

lemma mem_cpy_Inr_iff:
  "mem_cpy mem i src n = Inr mem' \<longleftrightarrow>
     n \<le> length src \<and> i + n \<le> length mem \<and> mem' = overwrite mem i (take n src)"
  by (auto simp: mem_cpy_def store_at_def)

section \<open>Strings\<close>

text \<open>ASCII text of the source as bytes.\<close>

definition bytes_of :: "string \<Rightarrow> byte list" where
  "bytes_of s = map of_char s"

text \<open>\<open>while (*p) ++p;\<close> moves to the terminating zero.\<close>

fun skip_to_nul :: "cell list \<Rightarrow> cell list res" where
  "skip_to_nul [] = Inl OutOfBounds"
| "skip_to_nul (None # p) = Inl Indeterminate"
| "skip_to_nul (Some b # p) = (if b = 0 then Inr (Some b # p) else skip_to_nul p)"

text \<open>The bytes of the string a pointer points to, its terminating zero excluded.\<close>

fun c_str :: "cell list \<Rightarrow> byte list res" where
  "c_str [] = Inl OutOfBounds"
| "c_str (None # p) = Inl Indeterminate"
| "c_str (Some b # p) = (if b = 0 then Inr [] else bindE (c_str p) (\<lambda>s. Inr (b # s)))"

definition str_cpy :: "cell list \<Rightarrow> nat \<Rightarrow> cell list \<Rightarrow> cell list res" where
  "str_cpy mem i src = bindE (c_str src) (\<lambda>s. store_at mem i (map Some (s @ [0])))"

text \<open>\<open>strcmp(p, t) == 0\<close> for a string \<open>t\<close> without zero bytes.\<close>

fun str_eq :: "cell list \<Rightarrow> byte list \<Rightarrow> bool res" where
  "str_eq p [] = bindE (deref p) (\<lambda>b. Inr (b = 0))"
| "str_eq p (c # t) = bindE (deref p) (\<lambda>b. if b = c then str_eq (tl p) t else Inr False)"

lemma c_str_text [mem_simps]:
  "0 \<notin> set s \<Longrightarrow> c_str (map Some s @ Some 0 # p) = Inr s"
  by (induction s) auto

lemma skip_to_nul_text [mem_simps]:
  "0 \<notin> set s \<Longrightarrow> skip_to_nul (map Some s @ Some 0 # p) = Inr (Some 0 # p)"
  by (induction s) auto

lemma str_eq_text [mem_simps]:
  "0 \<notin> set t \<Longrightarrow> str_eq (map Some t @ Some 0 # p) t = Inr True"
  by (induction t) auto

lemma c_str_Inr_iff:
  "c_str p = Inr s \<longleftrightarrow> 0 \<notin> set s \<and> (\<exists>q. p = map Some s @ Some 0 # q)"
proof (induction p arbitrary: s rule: c_str.induct)
  case (2 p)
  then show ?case by (cases s) auto
next
  case (3 b p)
  then show ?case by (cases s) (auto simp: bindE_Inr_iff)
qed simp

lemma c_str_takeWhile:
  "0 \<in> set s \<Longrightarrow> c_str (map Some s @ p) = Inr (takeWhile (\<lambda>b. b \<noteq> 0) s)"
  by (induction s) auto

lemma c_str_overread:
  "0 \<notin> set s \<Longrightarrow> c_str (map Some s) = Inl OutOfBounds"
  by (induction s) auto

section \<open>Decimal text\<close>

definition is_digit :: "byte \<Rightarrow> bool" where
  "is_digit b \<longleftrightarrow> 48 \<le> b \<and> b \<le> 57"

definition digit :: "nat \<Rightarrow> byte" where
  "digit d = 48 + word_of_nat d"

fun dec :: "nat \<Rightarrow> byte list" where
  "dec n = (if n < 10 then [digit n] else dec (n div 10) @ [digit (n mod 10)])"

declare dec.simps [simp del]

text \<open>The decimal text of an integer, as \<open>%d\<close> and \<open>std::to_string\<close> write it.\<close>

definition dec_int :: "int \<Rightarrow> byte list" where
  "dec_int i = (if i < 0 then 45 # dec (nat (- i)) else dec (nat i))"

lemma digit_lt: "d < 10 \<Longrightarrow> unat (digit d) = 48 + d"
  by (simp add: digit_def unat_word_ariths unat_of_nat)

lemma is_digit_nat: "is_digit b \<longleftrightarrow> 48 \<le> unat b \<and> unat b \<le> 57"
  by (simp add: is_digit_def word_le_nat_alt)

lemma is_digit_digit [simp]: "d < 10 \<Longrightarrow> is_digit (digit d)"
  by (simp add: is_digit_nat digit_lt)

lemma dec_digits: "b \<in> set (dec n) \<Longrightarrow> is_digit b"
proof (induction n rule: dec.induct)
  case (1 n)
  then show ?case by (subst (asm) (2) dec.simps) (auto split: if_splits)
qed

lemma dec_no_nul [simp]: "0 \<notin> set (dec n)"
  by (auto dest: dec_digits simp: is_digit_def)

lemma dec_nonempty [simp]: "dec n \<noteq> []"
  by (subst dec.simps) simp

lemma dec_int_no_nul [simp]: "0 \<notin> set (dec_int i)"
  by (simp add: dec_int_def)

lemma dec_no_sep [simp]: "59 \<notin> set (dec n)"
  by (auto dest: dec_digits simp: is_digit_def)

lemma dec_int_no_sep [simp]: "59 \<notin> set (dec_int i)"
  by (simp add: dec_int_def)

lemma length_dec_le: "n < 10 ^ k \<Longrightarrow> 0 < k \<Longrightarrow> length (dec n) \<le> k"
proof (induction n arbitrary: k rule: dec.induct)
  case (1 n)
  show ?case
  proof (cases "n < 10")
    case True
    with 1 show ?thesis by (subst dec.simps) simp
  next
    case False
    with "1.prems" obtain j where k: "k = Suc j" and j: "0 < j"
      by (cases k; cases "k - 1") auto
    from "1.prems" k have "n div 10 < 10 ^ j" by (simp add: less_mult_imp_div_less)
    with "1.IH" False j have "length (dec (n div 10)) \<le> j" by simp
    with False k show ?thesis by (subst dec.simps) simp
  qed
qed

section \<open>Reading numbers\<close>

definition is_space :: "byte \<Rightarrow> bool" where
  "is_space b \<longleftrightarrow> b = 32 \<or> (9 \<le> b \<and> b \<le> 13)"

fun skip_space :: "cell list \<Rightarrow> cell list res" where
  "skip_space [] = Inl OutOfBounds"
| "skip_space (None # p) = Inl Indeterminate"
| "skip_space (Some b # p) = (if is_space b then skip_space p else Inr (Some b # p))"

fun span_digits :: "nat \<Rightarrow> cell list \<Rightarrow> (nat \<times> cell list) res" where
  "span_digits acc [] = Inl OutOfBounds"
| "span_digits acc (None # p) = Inl Indeterminate"
| "span_digits acc (Some b # p) =
     (if is_digit b then span_digits (10 * acc + (unat b - 48)) p else Inr (acc, Some b # p))"

text \<open>
  The common part of \<open>strtoul(p, &end, 10)\<close> and \<open>strtol\<close>: white space, an optional sign, digits.
  The result is the sign, the magnitude and the end pointer; without a digit it is 0 and \<open>p\<close>.
\<close>

definition scan_number :: "cell list \<Rightarrow> (bool \<times> nat \<times> cell list) res" where
  "scan_number p =
     bindE (skip_space p) (\<lambda>q.
     bindE (deref q) (\<lambda>c.
       let neg = (c = 45); q' = (if c = 45 \<or> c = 43 then tl q else q)
       in bindE (deref q') (\<lambda>d.
            if is_digit d
            then bindE (span_digits 0 q') (\<lambda>(v, r). Inr (neg, v, r))
            else Inr (False, 0, p))))"

definition strtoul :: "cell list \<Rightarrow> (64 word \<times> cell list) res" where
  "strtoul p = bindE (scan_number p) (\<lambda>(neg, v, r).
     Inr (if 2 ^ 64 \<le> v then - 1 else if neg then - word_of_nat v else word_of_nat v, r))"

definition strtol :: "cell list \<Rightarrow> (64 word \<times> cell list) res" where
  "strtol p = bindE (scan_number p) (\<lambda>(neg, v, r).
     let i = (if neg then - int v else int v)
     in Inr (word_of_int (max (- (2 ^ 63)) (min (2 ^ 63 - 1) i)), r))"

lemma span_digits_append:
  "(\<forall>b \<in> set ds. is_digit b) \<Longrightarrow>
   span_digits acc (map Some ds @ p) = span_digits (foldl (\<lambda>a b. 10 * a + (unat b - 48)) acc ds) p"
  by (induction ds arbitrary: acc) auto

lemma foldl_dec: "foldl (\<lambda>a b. 10 * a + (unat b - 48)) 0 (dec n) = n"
proof (induction n rule: dec.induct)
  case (1 n)
  show ?case
  proof (cases "n < 10")
    case True
    then show ?thesis by (subst dec.simps) (simp add: digit_lt)
  next
    case False
    with 1 show ?thesis by (subst dec.simps) (simp add: digit_lt)
  qed
qed

lemma span_digits_dec [wire_simps]:
  "\<not> is_digit b \<Longrightarrow> span_digits 0 (map Some (dec n) @ Some b # p) = Inr (n, Some b # p)"
  by (subst span_digits_append) (auto simp: foldl_dec dest: dec_digits)

lemma dec_ConsE:
  obtains d ds where "dec n = d # ds" and "is_digit d"
  by (metis dec_digits dec_nonempty list.set_intros(1) neq_Nil_conv)

lemma is_digit_facts: "is_digit d \<Longrightarrow> \<not> is_space d \<and> d \<noteq> 45 \<and> d \<noteq> 43 \<and> d \<noteq> 0 \<and> d \<noteq> 59"
  by (auto simp: is_digit_def is_space_def word_le_nat_alt)

lemma scan_number_dec [wire_simps]:
  assumes "\<not> is_digit b"
  shows "scan_number (map Some (dec n) @ Some b # p) = Inr (False, n, Some b # p)"
proof -
  obtain d ds where d: "dec n = d # ds" "is_digit d" by (rule dec_ConsE)
  with is_digit_facts [of d] span_digits_dec [OF assms, of n p] show ?thesis
    by (simp add: scan_number_def)
qed

lemma scan_number_minus_dec [wire_simps]:
  assumes "\<not> is_digit b"
  shows "scan_number (Some 45 # map Some (dec n) @ Some b # p) = Inr (True, n, Some b # p)"
proof -
  obtain d ds where d: "dec n = d # ds" "is_digit d" by (rule dec_ConsE)
  with span_digits_dec [OF assms, of n p] show ?thesis
    by (simp add: scan_number_def is_space_def)
qed

lemma not_digit_sep [simp]: "\<not> is_digit 59" "\<not> is_digit 0"
  by (simp_all add: is_digit_def)

lemma strtoul_dec [wire_simps]:
  "n < 2 ^ 64 \<Longrightarrow> strtoul (map Some (dec n) @ Some 59 # p) = Inr (word_of_nat n, Some 59 # p)"
  by (simp add: strtoul_def scan_number_dec)

end
