(* ===== verification/Driver_Data.thy ===== *)
theory Driver_Data
  imports C_Memory
begin

text \<open>
  The data that travels between the components: \<open>FactoryKey\<close> of globals.hpp, the byte buffers
  (\<open>std::vector<char>\<close>) and \<open>DriverData\<close> of driver_data.hpp.  A scalar member is an option:
  \<open>None\<close> is the indeterminate value that \<open>new DriverData\<close> leaves in a member nothing has set.
\<close>

section \<open>FactoryKey\<close>

text \<open>
  \<open>enum class FactoryKey\<close> has the underlying type \<open>int\<close>, so \<open>static_cast\<close> gives a value for
  every \<open>int\<close>; a value that no enumerator has is \<open>Unnamed\<close>.
\<close>

datatype FactoryKey =
    READ | WRITE | DISCONNECT | FLUSH | TRIM | BAD_REQUEST | IGNORE | Q_EXIT | REPLAY
  | KEY1 | KEY2 | KEY3 | KEY4 | KEY5 | KEY6 | KEY7 | KEY8 | KEY9 | KEY10
  | Unnamed int

definition FactoryKey_enumerators :: "FactoryKey list" where
  "FactoryKey_enumerators =
     [READ, WRITE, DISCONNECT, FLUSH, TRIM, BAD_REQUEST, IGNORE, Q_EXIT, REPLAY,
      KEY1, KEY2, KEY3, KEY4, KEY5, KEY6, KEY7, KEY8, KEY9, KEY10]"

definition FactoryKey_of_int :: "int \<Rightarrow> FactoryKey" where
  "FactoryKey_of_int i =
     (if 0 \<le> i \<and> i < int (length FactoryKey_enumerators)
      then FactoryKey_enumerators ! nat i else Unnamed i)"

fun int_of_FactoryKey :: "FactoryKey \<Rightarrow> int" where
  "int_of_FactoryKey READ = 0"
| "int_of_FactoryKey WRITE = 1"
| "int_of_FactoryKey DISCONNECT = 2"
| "int_of_FactoryKey FLUSH = 3"
| "int_of_FactoryKey TRIM = 4"
| "int_of_FactoryKey BAD_REQUEST = 5"
| "int_of_FactoryKey IGNORE = 6"
| "int_of_FactoryKey Q_EXIT = 7"
| "int_of_FactoryKey REPLAY = 8"
| "int_of_FactoryKey KEY1 = 9"
| "int_of_FactoryKey KEY2 = 10"
| "int_of_FactoryKey KEY3 = 11"
| "int_of_FactoryKey KEY4 = 12"
| "int_of_FactoryKey KEY5 = 13"
| "int_of_FactoryKey KEY6 = 14"
| "int_of_FactoryKey KEY7 = 15"
| "int_of_FactoryKey KEY8 = 16"
| "int_of_FactoryKey KEY9 = 17"
| "int_of_FactoryKey KEY10 = 18"
| "int_of_FactoryKey (Unnamed i) = i"

lemma FactoryKey_of_int_numerals [simp]:
  "FactoryKey_of_int 0 = READ" "FactoryKey_of_int 1 = WRITE" "FactoryKey_of_int 2 = DISCONNECT"
  by (simp_all add: FactoryKey_of_int_def FactoryKey_enumerators_def)

lemma int_of_FactoryKey_of_int [simp]: "int_of_FactoryKey (FactoryKey_of_int i) = i"
proof (cases "0 \<le> i \<and> i < 19")
  case True
  then have i: "nat i < 19" "int (nat i) = i" by (simp_all add: nat_less_iff)
  have "list_all (\<lambda>n. int_of_FactoryKey (FactoryKey_enumerators ! n) = int n) [0..<19]"
    by code_simp
  with i have "int_of_FactoryKey (FactoryKey_enumerators ! nat i) = i"
    by (auto simp: list_all_iff)
  with True show ?thesis by (simp add: FactoryKey_of_int_def FactoryKey_enumerators_def)
next
  case False
  then have "FactoryKey_of_int i = Unnamed i"
    by (auto simp: FactoryKey_of_int_def FactoryKey_enumerators_def)
  then show ?thesis by simp
qed

text \<open>\<open>static_cast<FactoryKey>(c - '0')\<close> for a (signed) \<open>char\<close>.\<close>

definition FactoryKey_of_char :: "byte \<Rightarrow> FactoryKey" where
  "FactoryKey_of_char c = FactoryKey_of_int (sint c - 48)"

lemma FactoryKey_of_char_numerals [simp]:
  "FactoryKey_of_char 48 = READ" "FactoryKey_of_char 49 = WRITE" "FactoryKey_of_char 50 = DISCONNECT"
  by (simp_all add: FactoryKey_of_char_def)

section \<open>std::vector<char>\<close>

text \<open>
  \<open>vmem\<close> is the allocated storage (its length is the capacity), \<open>vsize\<close> the size.  The program
  fills its buffers through \<open>data()\<close> after \<open>reserve()\<close>, which leaves the size at 0; a
  reallocation copies the first \<open>vsize\<close> cells only, and the rest of the new storage is
  indeterminate.  \<open>reserve(n)\<close> allocates exactly \<open>n\<close> cells, as libstdc++ does.
\<close>

record vec =
  vsize :: nat
  vmem :: "cell list"

definition empty_vec :: vec where
  "empty_vec = \<lparr>vsize = 0, vmem = []\<rparr>"

definition vec_reserve :: "nat \<Rightarrow> vec \<Rightarrow> vec" where
  "vec_reserve n v =
     (if length (vmem v) < n
      then v\<lparr>vmem := take (vsize v) (vmem v) @ replicate (n - min (vsize v) (length (vmem v))) None\<rparr>
      else v)"

lemma vec_reserve_empty [simp]: "vec_reserve n empty_vec = \<lparr>vsize = 0, vmem = replicate n None\<rparr>"
  by (simp add: vec_reserve_def empty_vec_def)

lemma vsize_vec_reserve [simp]: "vsize (vec_reserve n v) = vsize v"
  by (simp add: vec_reserve_def)

lemma length_vec_reserve: "n \<le> length (vmem (vec_reserve n v))"
  by (simp add: vec_reserve_def min_def)

section \<open>DriverData\<close>

definition HANDLE_SIZE :: nat where "HANDLE_SIZE = 8"

record DriverData =
  m_offset :: "64 word option"
  m_req_id :: "32 word option"
  m_handler :: "cell list"
  m_len :: "32 word option"
  m_key :: "FactoryKey option"
  m_status :: "32 word option"
  m_buff :: vec

text \<open>\<open>new DriverData\<close>: only the vector has a constructor.\<close>

definition new_DriverData :: DriverData where
  "new_DriverData =
     \<lparr>m_offset = None, m_req_id = None, m_handler = replicate HANDLE_SIZE None, m_len = None,
      m_key = None, m_status = None, m_buff = empty_vec\<rparr>"

lemma new_DriverData_simps [simp]:
  "m_offset new_DriverData = None" "m_req_id new_DriverData = None"
  "m_handler new_DriverData = replicate 8 None" "m_len new_DriverData = None"
  "m_key new_DriverData = None" "m_status new_DriverData = None"
  "m_buff new_DriverData = empty_vec"
  by (simp_all add: new_DriverData_def HANDLE_SIZE_def)

text \<open>The buffer a request carries, cut to \<open>m_len\<close>.\<close>

definition payload :: "DriverData \<Rightarrow> cell list" where
  "payload d = take (unat (the (m_len d))) (vmem (m_buff d))"

text \<open>Using the value of a member.\<close>

definition val :: "'a option \<Rightarrow> 'a res" where
  "val x = (case x of None \<Rightarrow> Inl Indeterminate | Some v \<Rightarrow> Inr v)"

lemma val_simps [simp]: "val None = Inl Indeterminate" "val (Some v) = Inr v"
  by (simp_all add: val_def)

lemma val_Inr_iff: "val x = Inr v \<longleftrightarrow> x = Some v"
  by (cases x) simp_all

section \<open>Datagrams\<close>

text \<open>
  What \<open>sendto\<close> hands to the network is the content of a buffer, indeterminate cells included;
  \<open>recvfrom(buf, n)\<close> stores the first \<open>n\<close> cells of the datagram and drops the rest.
\<close>

definition BUFF_SIZE :: nat where "BUFF_SIZE = 4136"

record sockaddr_in =
  sin_port :: "16 word"
  sin_addr :: "32 word"

datatype recv_result = Recv_Error | Recv sockaddr_in "cell list"

definition recv_into :: "nat \<Rightarrow> cell list \<Rightarrow> cell list \<Rightarrow> cell list" where
  "recv_into n buf dgram = overwrite buf 0 (take n dgram)"

lemma length_recv_into [simp]: "n \<le> length buf \<Longrightarrow> length (recv_into n buf d) = length buf"
  by (simp add: recv_into_def)

lemma recv_into_exact: "length dgram \<le> n \<Longrightarrow> length dgram \<le> length buf \<Longrightarrow>
   recv_into n buf dgram = dgram @ drop (length dgram) buf"
  by (simp add: recv_into_def overwrite_def)

end
