(* ===== verification/Storage.thy ===== *)
theory Storage
  imports Driver_Data
begin

text \<open>
  The interface \<open>Storage\<close> (storage.hpp) as a locale.  Its contract: an in-bounds \<open>Write\<close> replaces
  exactly the \<open>m_len\<close> cells from \<open>m_offset\<close> on by the first \<open>m_len\<close> cells of the buffer, and an
  in-bounds \<open>Read\<close> changes nothing and delivers the stored cells.  What a client may rely on is
  proved once from that contract: reading back, independence of disjoint ranges, and that after
  any sequence of writes every address holds what the last write covering it put there.
\<close>

section \<open>The abstract disk\<close>

text \<open>A write as the abstract disk sees it: an address and the cells stored from there on.\<close>

type_synonym disk_write = "nat \<times> cell list"

definition spec_write :: "disk_write \<Rightarrow> cell list \<Rightarrow> cell list" where
  "spec_write w disk = overwrite disk (fst w) (snd w)"

definition in_bounds :: "nat \<Rightarrow> disk_write \<Rightarrow> bool" where
  "in_bounds n w \<longleftrightarrow> fst w + length (snd w) \<le> n"

definition covers :: "disk_write \<Rightarrow> nat \<Rightarrow> bool" where
  "covers w a \<longleftrightarrow> fst w \<le> a \<and> a < fst w + length (snd w)"

text \<open>The cell at an address after a list of writes, by looking for the last one that covers it.\<close>

fun last_written :: "disk_write list \<Rightarrow> nat \<Rightarrow> cell \<Rightarrow> cell" where
  "last_written [] a c = c"
| "last_written (w # ws) a c =
     last_written ws a (if covers w a then snd w ! (a - fst w) else c)"

lemma length_spec_writes:
  "\<forall>w \<in> set ws. in_bounds (length disk) w \<Longrightarrow> length (fold spec_write ws disk) = length disk"
  by (induction ws arbitrary: disk) (auto simp: spec_write_def in_bounds_def)

lemma nth_spec_writes:
  "\<forall>w \<in> set ws. in_bounds (length disk) w \<Longrightarrow> a < length disk \<Longrightarrow>
   fold spec_write ws disk ! a = last_written ws a (disk ! a)"
proof (induction ws arbitrary: disk)
  case (Cons w ws)
  then have "length (spec_write w disk) = length disk"
    and "spec_write w disk ! a = (if covers w a then snd w ! (a - fst w) else disk ! a)"
    by (auto simp: spec_write_def in_bounds_def covers_def nth_overwrite)
  with Cons show ?case by simp
qed simp

section \<open>Requests\<close>

text \<open>The write a request describes, when its members are set and its buffer is long enough.\<close>

definition write_of :: "DriverData \<Rightarrow> disk_write" where
  "write_of d =
     (unat (the (m_offset d)), take (unat (the (m_len d))) (vmem (m_buff d)))"

definition write_request :: "nat \<Rightarrow> DriverData \<Rightarrow> bool" where
  "write_request cap d \<longleftrightarrow>
     m_offset d \<noteq> None \<and> m_len d \<noteq> None \<and>
     unat (the (m_len d)) \<le> length (vmem (m_buff d)) \<and>
     unat (the (m_offset d)) + unat (the (m_len d)) \<le> cap"

definition read_request :: "nat \<Rightarrow> DriverData \<Rightarrow> bool" where
  "read_request cap d \<longleftrightarrow>
     m_offset d \<noteq> None \<and> m_len d \<noteq> None \<and>
     unat (the (m_offset d)) + unat (the (m_len d)) \<le> cap"

definition stored_at :: "cell list \<Rightarrow> nat \<Rightarrow> nat \<Rightarrow> cell list" where
  "stored_at disk a n = take n (drop a disk)"

lemma in_bounds_write_of: "write_request cap d \<Longrightarrow> in_bounds cap (write_of d)"
  by (simp add: write_request_def in_bounds_def write_of_def)

lemma length_payload: "write_request cap d \<Longrightarrow> length (payload d) = unat (the (m_len d))"
  by (simp add: write_request_def payload_def)

lemma write_of_payload: "write_of d = (unat (the (m_offset d)), payload d)"
  by (simp add: write_of_def payload_def)

text \<open>Running a list of write requests, stopping at the first fault.\<close>

fun run_writes :: "('s \<Rightarrow> DriverData \<Rightarrow> ('s \<times> DriverData) res) \<Rightarrow> 's \<Rightarrow> DriverData list \<Rightarrow> 's res"
where
  "run_writes wr s [] = Inr s"
| "run_writes wr s (d # ds) = bindE (wr s d) (\<lambda>(s', _). run_writes wr s' ds)"

section \<open>The contract\<close>

locale storage =
  fixes wr :: "'s \<Rightarrow> DriverData \<Rightarrow> ('s \<times> DriverData) res"
    and rd :: "'s \<Rightarrow> DriverData \<Rightarrow> ('s \<times> DriverData) res"
    and content :: "'s \<Rightarrow> cell list"
    and ready :: "'s \<Rightarrow> bool"
  assumes write_law: "ready s \<Longrightarrow> write_request (length (content s)) d \<Longrightarrow>
      \<exists>s'. wr s d = Inr (s', d) \<and> ready s' \<and> content s' = spec_write (write_of d) (content s)"
    and read_law: "ready s \<Longrightarrow> read_request (length (content s)) d \<Longrightarrow>
      \<exists>s' d'. rd s d = Inr (s', d') \<and> ready s' \<and> content s' = content s \<and>
        d'\<lparr>m_buff := m_buff d\<rparr> = d \<and>
        payload d' = stored_at (content s) (unat (the (m_offset d))) (unat (the (m_len d)))"

context storage
begin

lemma length_after_write:
  "ready s \<Longrightarrow> write_request (length (content s)) d \<Longrightarrow> wr s d = Inr (s', d') \<Longrightarrow>
   ready s' \<and> length (content s') = length (content s)"
  using write_law [of s d] in_bounds_write_of [of "length (content s)" d]
  by (auto simp: spec_write_def in_bounds_def)

lemma read_back:
  assumes "ready s" and w: "write_request (length (content s)) d"
    and "wr s d = Inr (s', d')"
    and r: "m_offset e = m_offset d" "m_len e = m_len d"
  shows "\<exists>s'' e'. rd s' e = Inr (s'', e') \<and> payload e' = payload d"
proof -
  from assms write_law [of s d]
  have s': "ready s'" "content s' = spec_write (write_of d) (content s)" by auto
  from w have len: "length (content s') = length (content s)"
    by (auto simp: s' spec_write_def in_bounds_write_of [unfolded in_bounds_def])
  with w r have "read_request (length (content s')) e"
    by (auto simp: write_request_def read_request_def)
  from read_law [OF s'(1) this] r obtain s'' e' where "rd s' e = Inr (s'', e')"
    and "payload e' = stored_at (content s') (unat (the (m_offset d))) (unat (the (m_len d)))"
    by auto
  moreover have lp: "length (payload d) = unat (the (m_len d))" using w by (rule length_payload)
  have "stored_at (content s') (unat (the (m_offset d))) (unat (the (m_len d))) = payload d"
    using w lp overwrite_same_read [of "unat (the (m_offset d))" "payload d" "content s"]
    by (auto simp: s' spec_write_def stored_at_def write_of_payload write_request_def)
  ultimately show ?thesis by auto
qed

lemma run_writes_content:
  "ready s \<Longrightarrow> \<forall>d \<in> set ds. write_request (length (content s)) d \<Longrightarrow>
   \<exists>s'. run_writes wr s ds = Inr s' \<and> ready s' \<and>
        content s' = fold spec_write (map write_of ds) (content s)"
proof (induction ds arbitrary: s)
  case (Cons d ds)
  then obtain s' where s': "wr s d = Inr (s', d)" "ready s'"
      "content s' = spec_write (write_of d) (content s)"
    using write_law [of s d] by auto
  have "length (content s') = length (content s)"
    using length_after_write [OF Cons.prems(1) _ s'(1)] Cons.prems(2) by simp
  with Cons.prems(2) have "\<forall>d \<in> set ds. write_request (length (content s')) d" by simp
  from Cons.IH [OF s'(2) this] s' show ?case by (simp add: bindE_def)
qed simp

lemma last_write_wins:
  assumes "ready s" and ds: "\<forall>d \<in> set ds. write_request (length (content s)) d"
    and e: "read_request (length (content s)) e"
  shows "\<exists>s' s'' e'. run_writes wr s ds = Inr s' \<and> rd s' e = Inr (s'', e') \<and>
    (\<forall>i < unat (the (m_len e)).
       payload e' ! i =
         (let a = unat (the (m_offset e)) + i
          in last_written (map write_of ds) a (content s ! a)))"
proof -
  from run_writes_content [OF assms(1) ds] obtain s' where
    s': "run_writes wr s ds = Inr s'" "ready s'"
      "content s' = fold spec_write (map write_of ds) (content s)" by auto
  have bounds: "\<forall>w \<in> set (map write_of ds). in_bounds (length (content s)) w"
    using ds in_bounds_write_of by auto
  then have len: "length (content s') = length (content s)"
    by (simp add: s' length_spec_writes)
  with read_law [OF s'(2), of e] e obtain s'' e' where r: "rd s' e = Inr (s'', e')"
    "payload e' = stored_at (content s') (unat (the (m_offset e))) (unat (the (m_len e)))"
    by auto
  have "payload e' ! i =
      last_written (map write_of ds) (unat (the (m_offset e)) + i)
        (content s ! (unat (the (m_offset e)) + i))"
    if "i < unat (the (m_len e))" for i
    using that e nth_spec_writes [OF bounds, of "unat (the (m_offset e)) + i"]
    by (simp add: r(2) stored_at_def s'(3) [symmetric] read_request_def len)
  with s'(1) r(1) show ?thesis by (auto simp: Let_def)
qed

end

end
