(* ===== verification/Mmap_Storage.thy ===== *)
theory Mmap_Storage
  imports Storage
begin

text \<open>
  \<open>MmapStorage\<close> (mmap_storage.hpp, mmap_storage.cpp), the storage of the slave: a file mapped into
  memory.  The model keeps the mapped cells; \<open>None\<close> in place of them is \<open>MAP_FAILED\<close>, which
  \<open>InitMmap\<close> returns unchecked.  The mapping provides the \<open>storage\<close> contract.
\<close>

record MmapStorage =
  m_size :: "64 word"
  m_mmap :: "cell list option"

text \<open>
  \<open>InitMmap\<close>: \<open>file\<close> is the content of the file before (empty when it did not exist); writing one
  zero byte at offset \<open>size + 1\<close> extends it, and the first \<open>size\<close> bytes are mapped.  \<open>ok\<close> says
  whether \<open>open\<close> and \<open>mmap\<close> succeed.  The result is the file and the mapping.
\<close>

definition extend_file :: "byte list \<Rightarrow> nat \<Rightarrow> byte list" where
  "extend_file file n = file @ replicate (n - length file) 0"

definition InitMmap :: "bool \<Rightarrow> byte list \<Rightarrow> nat \<Rightarrow> byte list \<times> cell list option" where
  "InitMmap ok file sz =
     (if ok
      then let file' = overwrite (extend_file file (sz + 2)) (sz + 1) [0]
           in (file', Some (map Some (take sz file')))
      else (file, None))"

definition MmapStorage_ctor :: "bool \<Rightarrow> byte list \<Rightarrow> 64 word \<Rightarrow> MmapStorage" where
  "MmapStorage_ctor ok file sz =
     \<lparr>m_size = sz, m_mmap = snd (InitMmap ok file (unat sz))\<rparr>"

definition MmapStorage_Write :: "MmapStorage \<Rightarrow> DriverData \<Rightarrow> (MmapStorage \<times> DriverData) res" where
  "MmapStorage_Write st data =
     bindE (val (m_offset data)) (\<lambda>off.
     bindE (val (m_len data)) (\<lambda>len.
     case m_mmap st of
       None \<Rightarrow> Inl OutOfBounds
     | Some mem \<Rightarrow>
         bindE (mem_cpy mem (unat off) (vmem (m_buff data)) (unat len)) (\<lambda>mem'.
         Inr (st\<lparr>m_mmap := Some mem'\<rparr>, data))))"

definition MmapStorage_Read :: "MmapStorage \<Rightarrow> DriverData \<Rightarrow> (MmapStorage \<times> DriverData) res" where
  "MmapStorage_Read st data =
     bindE (val (m_len data)) (\<lambda>len.
     let buff = vec_reserve (unat len) (m_buff data) in
     bindE (val (m_offset data)) (\<lambda>off.
     case m_mmap st of
       None \<Rightarrow> Inl OutOfBounds
     | Some mem \<Rightarrow>
         bindE (if unat off \<le> length mem then Inr (drop (unat off) mem) else Inl OutOfBounds)
           (\<lambda>src.
         bindE (mem_cpy (vmem buff) 0 src (unat len)) (\<lambda>b.
         Inr (st, data\<lparr>m_buff := buff\<lparr>vmem := b\<rparr>\<rparr>)))))"

definition MmapStorage_GetSize :: "MmapStorage \<Rightarrow> 64 word" where
  "MmapStorage_GetSize st = m_size st"

definition MmapStorage_Disconnect :: "MmapStorage \<Rightarrow> MmapStorage" where
  "MmapStorage_Disconnect st = st"

definition mmap_content :: "MmapStorage \<Rightarrow> cell list" where
  "mmap_content st = (case m_mmap st of None \<Rightarrow> [] | Some mem \<Rightarrow> mem)"

definition mapped :: "MmapStorage \<Rightarrow> bool" where
  "mapped st \<longleftrightarrow> m_mmap st \<noteq> None \<and> length (mmap_content st) = unat (m_size st)"

section \<open>The mapping provides the storage contract\<close>

lemma MmapStorage_Write_ok:
  assumes "mapped st" and "write_request (length (mmap_content st)) d"
  shows "MmapStorage_Write st d =
    Inr (st\<lparr>m_mmap := Some (spec_write (write_of d) (mmap_content st))\<rparr>, d)"
  using assms
  by (auto simp: MmapStorage_Write_def mapped_def write_request_def mmap_content_def spec_write_def
      write_of_def)

lemma MmapStorage_Read_ok:
  assumes "mapped st" and "read_request (length (mmap_content st)) d"
  shows "MmapStorage_Read st d =
    (let b = vec_reserve (unat (the (m_len d))) (m_buff d);
         off = unat (the (m_offset d)); n = unat (the (m_len d))
     in Inr (st, d\<lparr>m_buff := b\<lparr>vmem := overwrite (vmem b) 0 (stored_at (mmap_content st) off n)\<rparr>\<rparr>))"
  using assms length_vec_reserve [of "unat (the (m_len d))" "m_buff d"]
  by (auto simp: MmapStorage_Read_def mapped_def read_request_def mmap_content_def stored_at_def
      Let_def)

interpretation mmap: storage MmapStorage_Write MmapStorage_Read mmap_content mapped
proof (unfold_locales, goal_cases)
  case (1 s d)
  have "length (spec_write (write_of d) (mmap_content s)) = length (mmap_content s)"
    using in_bounds_write_of [OF 1(2)] by (simp add: spec_write_def in_bounds_def)
  with 1 show ?case
    by (auto simp: MmapStorage_Write_ok mapped_def mmap_content_def)
next
  case (2 s d)
  let ?n = "unat (the (m_len d))"
  have "?n \<le> length (vmem (vec_reserve ?n (m_buff d)))" by (rule length_vec_reserve)
  with 2 show ?case
    by (auto simp: MmapStorage_Read_ok Let_def payload_def stored_at_def overwrite_def
        read_request_def vec_reserve_def)
qed

lemma mapped_MmapStorage_ctor:
  "mapped (MmapStorage_ctor True file sz)"
  by (simp add: MmapStorage_ctor_def InitMmap_def mapped_def mmap_content_def extend_file_def Let_def)

section \<open>Properties\<close>

lemma length_MmapStorage_ctor [simp]:
  "length (mmap_content (MmapStorage_ctor True file sz)) = unat sz"
  using mapped_MmapStorage_ctor [of "file" sz] by (simp add: mapped_def MmapStorage_ctor_def)

text \<open>A request to store \<open>bs\<close> at \<open>off\<close>, as the drivers make it.\<close>

definition write_data :: "64 word \<Rightarrow> byte list \<Rightarrow> DriverData" where
  "write_data off bs = new_DriverData\<lparr>m_offset := Some off, m_len := Some (word_of_nat (length bs)),
     m_key := Some WRITE, m_buff := \<lparr>vsize = 0, vmem = map Some bs\<rparr>\<rparr>"

text \<open>
  C7: after any sequence of in-bounds writes through \<open>MmapStorage::Write\<close>, an in-bounds
  \<open>MmapStorage::Read\<close> succeeds and delivers, for every address it covers, what the last write that
  covers the address put there, and what the mapping held before when none does.
\<close>

theorem mmap_last_write_wins:
  assumes "mapped st"
    and "\<forall>d \<in> set ds. write_request (length (mmap_content st)) d"
    and "read_request (length (mmap_content st)) e"
  shows "\<exists>st' st'' e'. run_writes MmapStorage_Write st ds = Inr st' \<and>
    MmapStorage_Read st' e = Inr (st'', e') \<and>
    (\<forall>i < unat (the (m_len e)). payload e' ! i =
       (let a = unat (the (m_offset e)) + i
        in last_written (map write_of ds) a (mmap_content st ! a)))"
  using assms by (rule mmap.last_write_wins)

theorem mmap_last_write_wins_witness:
  "\<exists>st' st'' e'. run_writes MmapStorage_Write (MmapStorage_ctor True [9, 9] 5)
       [write_data 0 [1, 2, 3], write_data 2 [4, 5]] = Inr st' \<and>
    MmapStorage_Read st' (write_data 1 [0, 0, 0]) = Inr (st'', e') \<and>
    (\<forall>i < unat (the (m_len (write_data 1 [0, 0, 0]))). payload e' ! i =
       (let a = unat (the (m_offset (write_data 1 [0, 0, 0]))) + i
        in last_written (map write_of [write_data 0 [1, 2, 3], write_data 2 [4, 5]]) a
             (mmap_content (MmapStorage_ctor True [9, 9] 5) ! a)))"
  by (rule mmap_last_write_wins)
     (simp_all add: mapped_MmapStorage_ctor write_request_def read_request_def write_data_def)

text \<open>
  \<open>MmapStorage::Write\<close> on every branch, for a request whose members are set and whose buffer
  holds \<open>m_len\<close> bytes: it stores the payload exactly when the mapping exists and the range ends
  inside it, and is an access out of bounds otherwise, since nothing checks either.
\<close>

theorem mmap_write_branches:
  assumes "m_offset d = Some off" and "m_len d = Some len" and "unat len \<le> length (vmem (m_buff d))"
  shows "MmapStorage_Write st d =
    (case m_mmap st of
       None \<Rightarrow> Inl OutOfBounds
     | Some mem \<Rightarrow>
         if unat off + unat len \<le> length mem
         then Inr (st\<lparr>m_mmap := Some (overwrite mem (unat off) (payload d))\<rparr>, d)
         else Inl OutOfBounds)"
  using assms by (simp add: MmapStorage_Write_def payload_def mem_cpy_def store_at_def split: option.split)

theorem mmap_write_branches_witness:
  "MmapStorage_Write (MmapStorage_ctor False [] 5) (write_data 4 [1, 2]) = Inl OutOfBounds \<and>
   MmapStorage_Write (MmapStorage_ctor True [] 5) (write_data 4 [1, 2]) = Inl OutOfBounds"
  using mmap_write_branches [of "write_data 4 [1, 2]" 4 2 "MmapStorage_ctor False [] 5"]
    mmap_write_branches [of "write_data 4 [1, 2]" 4 2 "MmapStorage_ctor True [] 5"]
  by (simp add: write_data_def MmapStorage_ctor_def InitMmap_def extend_file_def Let_def)

text \<open>
  A mapping that the constructor of \<open>MmapStorage\<close> made shows what the file held before, and
  zeros behind its end, up to the requested size; the byte written to extend the file is not in it.
\<close>

theorem mmap_ctor_content:
  assumes "i < unat sz"
  shows "mmap_content (MmapStorage_ctor True file sz) ! i =
    Some (if i < length file then file ! i else 0)"
  using assms
  by (auto simp: MmapStorage_ctor_def InitMmap_def mmap_content_def extend_file_def Let_def
      nth_overwrite nth_append)

theorem mmap_ctor_content_witness:
  "mmap_content (MmapStorage_ctor True [7] 3) ! 0 = Some 7 \<and>
   mmap_content (MmapStorage_ctor True [7] 3) ! 2 = Some 0"
  using mmap_ctor_content [of 0 3 "[7]"] mmap_ctor_content [of 2 3 "[7]"] by simp

end
