(* ===== verification/Wire_Format.thy ===== *)
theory Wire_Format
  imports Driver_Data
begin

text \<open>
  The messages between the master and its slaves, as the specification of the two parsers and the
  two writers: fields in decimal, each followed by \<open>;\<close>, then a zero byte and the payload, in a
  zeroed buffer of fixed length.  A request (master to slave) has the fields offset, length,
  request id and operation; a reply (slave to master) has no offset.
\<close>

definition request_text :: "64 word \<Rightarrow> 32 word \<Rightarrow> 32 word \<Rightarrow> byte \<Rightarrow> byte list" where
  "request_text off len req_id t =
     dec (unat off) @ 59 # dec (unat len) @ 59 # dec_int (sint req_id) @ [59, t, 59]"

definition reply_text :: "32 word \<Rightarrow> 32 word \<Rightarrow> byte \<Rightarrow> byte list" where
  "reply_text len req_id t = dec (unat len) @ 59 # dec_int (sint req_id) @ [59, t, 59]"

definition message :: "nat \<Rightarrow> byte list \<Rightarrow> cell list \<Rightarrow> cell list" where
  "message n head body =
     (let m = map Some head @ Some 0 # body in m @ replicate (n - length m) (Some 0))"

text \<open>The longest headers: 20 digits for a \<open>size_t\<close>, 10 for an \<open>unsigned\<close>, 11 characters for an \<open>int\<close>.\<close>

lemma length_dec_u32: "length (dec (unat (len :: 32 word))) \<le> 10"
  by (rule length_dec_le) (use unsigned_less [of len, where ?'a = nat] in simp_all)

lemma length_dec_u64: "length (dec (unat (off :: 64 word))) \<le> 20"
  by (rule length_dec_le) (use unsigned_less [of off, where ?'a = nat] in simp_all)

lemma length_dec_int: "length (dec_int (sint (i :: 32 word))) \<le> 11"
proof -
  have "length (dec (nat (- sint i))) \<le> 10"
    by (rule length_dec_le) (use sint_greater_eq [of i] in auto)
  moreover have "length (dec (nat (sint i))) \<le> 10"
    by (rule length_dec_le) (use sint_lt [of i] in auto)
  ultimately show ?thesis by (simp add: dec_int_def)
qed

lemma length_request_text: "length (request_text off len req_id t) \<le> 46"
  using length_dec_u64 [of off] length_dec_u32 [of len] length_dec_int [of req_id]
  by (simp add: request_text_def)

lemma length_reply_text: "length (reply_text len req_id t) \<le> 26"
  using length_dec_u32 [of len] length_dec_int [of req_id]
  by (simp add: reply_text_def)

lemma request_text_no_nul: "t \<noteq> 0 \<Longrightarrow> 0 \<notin> set (request_text off len req_id t)"
  by (simp add: request_text_def)

lemma reply_text_no_nul: "t \<noteq> 0 \<Longrightarrow> 0 \<notin> set (reply_text len req_id t)"
  by (simp add: reply_text_def)

lemma length_message [simp]:
  "length head + 1 + length body \<le> n \<Longrightarrow> length (message n head body) = n"
  by (simp add: message_def Let_def)

lemma message_cells:
  "message n head body = map Some head @ Some 0 # body @ replicate (n - (length head + 1 + length body)) (Some 0)"
  by (simp add: message_def Let_def)

text \<open>Writing a header, a zero byte and a payload one after the other into a zeroed buffer.\<close>

lemma message_overwrite:
  assumes "length head + 1 + length body \<le> n"
  shows "overwrite (replicate n (Some 0)) 0 (map Some head @ Some 0 # body) = message n head body"
  using assms by (simp add: message_def overwrite_def Let_def)

text \<open>A receiver with a zeroed buffer of \<open>n + 1\<close> cells that accepts up to \<open>n\<close> of them.\<close>

lemma recv_message:
  assumes "length head + 1 + length body \<le> n"
  shows "recv_into n (replicate (n + 1) (Some 0)) (message n head body) = message (n + 1) head body"
proof -
  from assms obtain k where n: "n = length head + 1 + length body + k"
    using le_Suc_ex by blast
  show ?thesis
    by (simp add: n recv_into_def overwrite_def message_cells del: replicate_Suc flip: replicate_add)
qed

text \<open>A receiver that accepts one cell less than was sent.\<close>

lemma recv_longer_message:
  assumes "length head + 1 + length body \<le> n"
  shows "recv_into n (replicate n (Some 0)) (message (n + 1) head body) = message n head body"
proof -
  from assms obtain k where n: "n = length head + 1 + length body + k"
    using le_Suc_ex by blast
  show ?thesis
    by (simp add: n recv_into_def overwrite_def message_cells del: replicate_Suc)
qed

section \<open>Reading the numbers of a message\<close>

lemma ucast_word_of_int_64_32: "ucast (word_of_int i :: 64 word) = (word_of_int i :: 32 word)"
  by transfer simp

lemma ucast_scast_64 [simp]: "ucast (scast (w :: 32 word) :: 64 word) = w"
  using ucast_word_of_int_64_32 [of "sint w"] by simp

lemma ucast_ucast_64 [simp]: "ucast (ucast (w :: 32 word) :: 64 word) = w"
  using ucast_word_of_int_64_32 [of "uint w"] by simp

lemma strtoul_u64 [wire_simps]:
  "strtoul (map Some (dec (unat (w :: 64 word))) @ Some 59 # p) = Inr (w, Some 59 # p)"
  using unsigned_less [of w, where ?'a = nat] by (simp add: strtoul_dec)

lemma strtoul_u32 [wire_simps]:
  "strtoul (map Some (dec (unat (w :: 32 word))) @ Some 59 # p) =
     Inr (word_of_nat (unat w), Some 59 # p)"
  using unsigned_less [of w, where ?'a = nat] by (simp add: strtoul_dec)

text \<open>\<open>strtoul\<close> on the text of an \<open>int\<close>, cut to 32 bits, gives the \<open>int\<close> back, a negative one too.\<close>

lemma strtoul_int:
  "\<exists>l. strtoul (map Some (dec_int (sint (w :: 32 word))) @ Some 59 # p) = Inr (l, Some 59 # p) \<and>
       ucast l = w"
proof (cases "sint w < 0")
  case True
  moreover have "nat (- sint w) < 2 ^ 64" using sint_greater_eq [of w] by simp
  ultimately show ?thesis
    by (simp add: dec_int_def strtoul_def scan_number_minus_dec)
next
  case False
  moreover have "nat (sint w) < 2 ^ 64" using sint_lt [of w] by simp
  ultimately show ?thesis
    by (simp add: dec_int_def strtoul_dec)
qed

lemma strtol_int [wire_simps]:
  "strtol (map Some (dec_int (sint (w :: 32 word))) @ Some 59 # p) =
     Inr (word_of_int (sint w), Some 59 # p)"
  using sint_greater_eq [of w] sint_lt [of w]
  by (auto simp: dec_int_def strtol_def scan_number_minus_dec scan_number_dec Let_def min_def max_def)

end
