(* ===== verification/Slave_Driver_Proxy.thy ===== *)
theory Slave_Driver_Proxy
  imports Wire_Format
begin

text \<open>
  \<open>SlaveDriverProxy\<close> (slave_driver_proxy.hpp, slave_driver_proxy.cpp), the driver of a slave: it
  receives the requests of the master as datagrams of decimal text and sends replies in the same
  style.  The parser and the text writers are modelled pointer by pointer; their effect on
  well-formed messages is stated as the messages \<open>request_message\<close> and \<open>reply_message\<close>.
\<close>

record SlaveDriverProxy =
  sdp_m_socket :: int
  sdp_m_servaddr :: sockaddr_in

text \<open>
  The results of \<open>socket()\<close> and of \<open>inet_aton()\<close> (\<open>None\<close>: not an address, the member keeps
  \<open>INADDR_ANY\<close>) come from the system.  \<open>InitSocket\<close> only prints when \<open>socket()\<close> fails.
\<close>

definition InitSocket :: "int \<Rightarrow> int" where
  "InitSocket sockfd = sockfd"

definition htons :: "16 word \<Rightarrow> 16 word" where
  "htons p = push_bit 8 p OR drop_bit 8 p"

definition SlaveDriverProxy_ctor :: "int \<Rightarrow> 32 word option \<Rightarrow> 16 word \<Rightarrow> SlaveDriverProxy" where
  "SlaveDriverProxy_ctor sockfd ip port =
     \<lparr>sdp_m_socket = InitSocket sockfd,
      sdp_m_servaddr = \<lparr>sin_port = htons port,
                        sin_addr = (case ip of None \<Rightarrow> 0 | Some a \<Rightarrow> a)\<rparr>\<rparr>"

section \<open>ReceiveRequest\<close>

fun GetNextParse :: "cell list \<Rightarrow> cell list res" where
  "GetNextParse [] = Inl OutOfBounds"
| "GetNextParse (None # str) = Inl Indeterminate"
| "GetNextParse (Some b # str) = (if b \<noteq> 59 then GetNextParse str else Inr str)"

definition GetSizeT :: "cell list \<Rightarrow> (64 word \<times> cell list) res" where
  "GetSizeT src =
     bindE (strtoul src) (\<lambda>(l, _). bindE (GetNextParse src) (\<lambda>r. Inr (l, r)))"

definition GetUint :: "cell list \<Rightarrow> (32 word \<times> cell list) res" where
  "GetUint src =
     bindE (strtoul src) (\<lambda>(l, _). bindE (GetNextParse src) (\<lambda>r. Inr (ucast l, r)))"

definition GetInt :: "cell list \<Rightarrow> (32 word \<times> cell list) res" where
  "GetInt src =
     bindE (strtoul src) (\<lambda>(l, _). bindE (GetNextParse src) (\<lambda>r. Inr (ucast l, r)))"

text \<open>\<open>src + 3\<close> skips the digit, the separator and the zero; it may not leave the buffer.\<close>

definition GetReqKey :: "cell list \<Rightarrow> (FactoryKey \<times> cell list) res" where
  "GetReqKey src =
     bindE (deref src) (\<lambda>c.
       if length src < 3 then Inl OutOfBounds else Inr (FactoryKey_of_char c, drop 3 src))"

text \<open>
  When \<open>recvfrom\<close> fails the error is printed and the zeroed buffer is parsed all the same.
  Only the address of the sender is kept of a received datagram besides its bytes.
\<close>

definition SlaveDriverProxy_ReceiveRequest ::
  "SlaveDriverProxy \<Rightarrow> recv_result \<Rightarrow> (SlaveDriverProxy \<times> DriverData) res" where
  "SlaveDriverProxy_ReceiveRequest drv received =
     (let zeroed = replicate (BUFF_SIZE + 1) (Some 0);
          (drv', buf) = (case received of
              Recv_Error \<Rightarrow> (drv, zeroed)
            | Recv from dgram \<Rightarrow>
                (drv\<lparr>sdp_m_servaddr := from\<rparr>, recv_into BUFF_SIZE zeroed dgram))
      in bindE (GetSizeT buf) (\<lambda>(off, runner).
         bindE (GetUint runner) (\<lambda>(len, runner).
         bindE (GetInt runner) (\<lambda>(req_id, runner).
         bindE (GetReqKey runner) (\<lambda>(key, runner).
         let ret = new_DriverData\<lparr>m_offset := Some off, m_len := Some len,
                                   m_req_id := Some req_id, m_key := Some key\<rparr>
         in if key = WRITE
            then let b = vec_reserve (BUFF_SIZE + 1) (m_buff ret)
                 in bindE (str_cpy (vmem b) 0 runner) (\<lambda>mem.
                    Inr (drv', ret\<lparr>m_buff := b\<lparr>vmem := mem\<rparr>\<rparr>))
            else Inr (drv', ret))))))"

section \<open>SendReply\<close>

text \<open>\<open>while (*src) { *dest = *src; ++dest; ++src; }\<close> for a destination inside an object.\<close>

fun copy_text :: "cell list \<Rightarrow> nat \<Rightarrow> cell list \<Rightarrow> (cell list \<times> nat) res" where
  "copy_text buf i [] = Inl OutOfBounds"
| "copy_text buf i (None # src) = Inl Indeterminate"
| "copy_text buf i (Some b # src) =
     (if b = 0 then Inr (buf, i)
      else if i < length buf then copy_text (buf[i := Some b]) (Suc i) src
      else Inl OutOfBounds)"

definition put :: "byte \<Rightarrow> cell list \<times> nat \<Rightarrow> (cell list \<times> nat) res" where
  "put b d = (if snd d < length (fst d) then Inr ((fst d)[snd d := Some b], Suc (snd d))
              else Inl OutOfBounds)"

definition AddInt :: "cell list \<times> nat \<Rightarrow> cell list \<Rightarrow> (cell list \<times> nat) res" where
  "AddInt dest src = bindE (copy_text (fst dest) (snd dest) src) (put 59)"

definition AddRequestType :: "cell list \<times> nat \<Rightarrow> FactoryKey \<Rightarrow> (cell list \<times> nat) res" where
  "AddRequestType dest key =
     (let id = (if key = READ then 48 else 49) in bindE (put id dest) (put 59))"

definition AddMessage :: "cell list \<times> nat \<Rightarrow> cell list \<Rightarrow> (cell list \<times> nat) res" where
  "AddMessage dest src = copy_text (fst dest) (snd dest) src"

text \<open>\<open>str.c_str()\<close>\<close>

definition text_of :: "byte list \<Rightarrow> cell list" where
  "text_of s = map Some s @ [Some 0]"

text \<open>
  The result is the datagram handed to \<open>sendto\<close> with its destination; a failing \<open>sendto\<close> is only
  printed, so it does not show in the result.
\<close>

definition SlaveDriverProxy_SendReply ::
  "SlaveDriverProxy \<Rightarrow> DriverData \<Rightarrow> (sockaddr_in \<times> cell list) res" where
  "SlaveDriverProxy_SendReply drv data =
     (let buf = replicate (BUFF_SIZE + 1) (Some 0) in
      bindE (val (m_len data)) (\<lambda>len.
      bindE (AddInt (buf, 0) (text_of (dec (unat len)))) (\<lambda>runner.
      bindE (val (m_req_id data)) (\<lambda>req_id.
      bindE (AddInt runner (text_of (dec_int (sint req_id)))) (\<lambda>runner.
      bindE (val (m_key data)) (\<lambda>key.
      bindE (AddRequestType runner key) (\<lambda>runner.
      bindE (put 0 runner) (\<lambda>runner.
      bindE (if key = READ then AddMessage runner (vmem (m_buff data)) else Inr runner)
        (\<lambda>runner. Inr (sdp_m_servaddr drv, fst runner))))))))))"

definition SlaveDriverProxy_Disconnect :: "SlaveDriverProxy \<Rightarrow> SlaveDriverProxy" where
  "SlaveDriverProxy_Disconnect drv = drv\<lparr>sdp_m_socket := -1\<rparr>"

definition SlaveDriverProxy_GetReqFd :: "SlaveDriverProxy \<Rightarrow> int" where
  "SlaveDriverProxy_GetReqFd drv = sdp_m_socket drv"

text \<open>The destructor; the result says whether it calls \<open>Disconnect()\<close>.\<close>

definition SlaveDriverProxy_dtor :: "SlaveDriverProxy \<Rightarrow> bool \<times> SlaveDriverProxy" where
  "SlaveDriverProxy_dtor drv =
     (if sdp_m_socket drv \<noteq> -1 then (True, SlaveDriverProxy_Disconnect drv) else (False, drv))"

section \<open>The writers store the text\<close>

lemma overwrite_Cons:
  "i < length buf \<Longrightarrow> overwrite (buf[i := b]) (Suc i) bs = overwrite buf i (b # bs)"
  by (simp add: overwrite_def take_Suc_conv_app_nth)

lemma copy_text_ok [wire_simps]:
  "0 \<notin> set s \<Longrightarrow> i + length s \<le> length buf \<Longrightarrow>
   copy_text buf i (map Some s @ Some 0 # p) = Inr (overwrite buf i (map Some s), i + length s)"
  by (induction s arbitrary: buf i) (auto simp: overwrite_Cons)

lemma put_ok [wire_simps]:
  "i < length buf \<Longrightarrow> put b (buf, i) = Inr (overwrite buf i [Some b], Suc i)"
  by (simp add: put_def overwrite_def upd_conv_take_nth_drop)

lemma AddInt_ok [wire_simps]:
  "0 \<notin> set s \<Longrightarrow> i + length s < length buf \<Longrightarrow>
   AddInt (buf, i) (text_of s) = Inr (overwrite buf i (map Some (s @ [59])), i + length s + 1)"
  by (simp add: AddInt_def text_of_def wire_simps overwrite_append)

lemma AddRequestType_ok [wire_simps]:
  "i + 1 < length buf \<Longrightarrow>
   AddRequestType (buf, i) key =
     Inr (overwrite buf i (map Some [if key = READ then 48 else 49, 59]), i + 2)"
  by (simp add: AddRequestType_def Let_def wire_simps) (auto simp: wire_simps overwrite_append)

lemma put_zero_ok:
  "i < length buf \<Longrightarrow> put 0 (buf, i) = Inr (overwrite buf i [Some 0], Suc i)"
  by (rule put_ok)

text \<open>The datagram of a reply whose text fits the buffer.\<close>

lemma SendReply_message:
  assumes "m_len data = Some len" and "m_req_id data = Some req_id" and "m_key data = Some key"
    and body: "if key = READ then c_str (vmem (m_buff data)) = Inr body else body = []"
    and fits: "length (reply_text len req_id 0) + 1 + length body \<le> BUFF_SIZE + 1"
  shows "SlaveDriverProxy_SendReply drv data =
    Inr (sdp_m_servaddr drv,
         message (BUFF_SIZE + 1) (reply_text len req_id (if key = READ then 48 else 49)) (map Some body))"
proof -
  let ?t = "if key = READ then 48 else (49 :: byte)"
  let ?h = "reply_text len req_id ?t"
  have len_h: "length ?h = length (reply_text len req_id 0)" by (simp add: reply_text_def)
  have body': "0 \<notin> set body" and src: "key = READ \<Longrightarrow> \<exists>q. vmem (m_buff data) = map Some body @ Some 0 # q"
    using body by (auto simp: c_str_Inr_iff split: if_splits)
  have "SlaveDriverProxy_SendReply drv data =
    Inr (sdp_m_servaddr drv,
         overwrite (replicate (BUFF_SIZE + 1) (Some 0)) 0 (map Some ?h @ Some 0 # map Some body))"
    using assms(1-3) body src body' fits
    by (cases "key = READ")
       (auto simp: SlaveDriverProxy_SendReply_def Let_def AddInt_ok AddRequestType_ok put_ok
         AddMessage_def copy_text_ok overwrite_append reply_text_def BUFF_SIZE_def)
  with fits len_h show ?thesis by (simp add: message_overwrite del: replicate_Suc)
qed

section \<open>The parsers read the text\<close>

lemma GetNextParse_text [wire_simps]:
  "59 \<notin> set s \<Longrightarrow> GetNextParse (map Some s @ Some 59 # p) = Inr p"
  by (induction s) auto

lemma GetSizeT_dec [wire_simps]:
  "GetSizeT (map Some (dec (unat off)) @ Some 59 # p) = Inr (off, p)"
  by (simp add: GetSizeT_def wire_simps)

lemma GetUint_dec [wire_simps]:
  "GetUint (map Some (dec (unat len)) @ Some 59 # p) = Inr (len, p)"
  by (simp add: GetUint_def wire_simps)

lemma GetInt_dec [wire_simps]:
  "GetInt (map Some (dec_int (sint req_id)) @ Some 59 # p) = Inr (req_id, p)"
  using strtoul_int [of req_id p] by (auto simp: GetInt_def wire_simps)

text \<open>The request a well-formed message is parsed to, before its payload is copied.\<close>

definition parsed_request :: "64 word \<Rightarrow> 32 word \<Rightarrow> 32 word \<Rightarrow> byte \<Rightarrow> DriverData" where
  "parsed_request off len req_id t =
     new_DriverData\<lparr>m_offset := Some off, m_len := Some len, m_req_id := Some req_id,
                     m_key := Some (FactoryKey_of_char t)\<rparr>"

lemma ReceiveRequest_message:
  assumes "length (request_text off len req_id t) + 1 + length body \<le> BUFF_SIZE"
  shows "SlaveDriverProxy_ReceiveRequest drv
      (Recv from (message BUFF_SIZE (request_text off len req_id t) body)) =
    (let ret = parsed_request off len req_id t;
         drv' = drv\<lparr>sdp_m_servaddr := from\<rparr>;
         p = body @ replicate (BUFF_SIZE + 1 - (length (request_text off len req_id t) + 1 + length body)) (Some 0)
     in if FactoryKey_of_char t = WRITE
        then bindE (str_cpy (replicate (BUFF_SIZE + 1) None) 0 p) (\<lambda>mem.
             Inr (drv', ret\<lparr>m_buff := \<lparr>vsize = 0, vmem = mem\<rparr>\<rparr>))
        else Inr (drv', ret))"
proof -
  have "recv_into BUFF_SIZE (replicate (BUFF_SIZE + 1) (Some 0))
      (message BUFF_SIZE (request_text off len req_id t) body) =
    message (BUFF_SIZE + 1) (request_text off len req_id t) body"
    by (rule recv_message [OF assms])
  then show ?thesis
    by (simp add: SlaveDriverProxy_ReceiveRequest_def message_cells request_text_def wire_simps
        GetReqKey_def parsed_request_def Let_def del: replicate.simps)
qed

section \<open>Messages without separators\<close>

text \<open>On bytes the only fault of the parsers is to run out of the buffer.\<close>

definition seps :: "byte list \<Rightarrow> nat" where
  "seps bs = length (filter (\<lambda>b. b = 59) bs)"

lemma GetNextParse_bytes:
  "GetNextParse (map Some bs) = (if 59 \<in> set bs then Inr (map Some (tl (dropWhile (\<lambda>b. b \<noteq> 59) bs)))
     else Inl OutOfBounds)"
  by (induction bs) auto

lemma seps_next: "59 \<in> set bs \<Longrightarrow> seps bs = Suc (seps (tl (dropWhile (\<lambda>b. b \<noteq> 59) bs)))"
  by (induction bs) (auto simp: seps_def)

lemma seps_0: "seps bs = 0 \<longleftrightarrow> 59 \<notin> set bs"
  by (auto simp: seps_def filter_empty_conv)

definition oob_only :: "'a res \<Rightarrow> bool" where
  "oob_only r \<longleftrightarrow> (\<forall>e. r = Inl e \<longrightarrow> e = OutOfBounds)"

lemma oob_only_simps [simp]: "oob_only (Inr v)" "oob_only (Inl e) \<longleftrightarrow> e = OutOfBounds"
  by (simp_all add: oob_only_def)

lemma oob_only_bindE: "oob_only m \<Longrightarrow> (\<And>v. m = Inr v \<Longrightarrow> oob_only (f v)) \<Longrightarrow> oob_only (bindE m f)"
  by (cases m) auto

lemma oob_only_bytes:
  "oob_only (deref (map Some bs))" "oob_only (skip_space (map Some bs))"
  "oob_only (span_digits acc (map Some bs))"
proof -
  show "oob_only (deref (map Some bs))" by (cases bs) auto
  show "oob_only (skip_space (map Some bs))" by (induction bs) auto
  show "oob_only (span_digits acc (map Some bs))" by (induction bs arbitrary: acc) auto
qed

lemma skip_space_bytes: "skip_space (map Some bs) = Inr q \<Longrightarrow> \<exists>bs'. q = map Some bs'"
  by (induction bs) (auto split: if_splits intro: exI [where x = "_ # _"])

lemma oob_only_scan_number: "oob_only (scan_number (map Some bs))"
proof -
  have "oob_only (scan_number (map Some bs))" if "\<And>q. skip_space (map Some bs) = Inr q \<Longrightarrow> \<exists>bs'. q = map Some bs'"
    unfolding scan_number_def Let_def
  proof (intro oob_only_bindE oob_only_bytes)
    fix q and c :: byte assume "skip_space (map Some bs) = Inr q"
    with that obtain b where q: "q = map Some b" by blast
    let ?q = "if c = 45 \<or> c = 43 then tl q else q"
    have q': "?q = map Some (if c = 45 \<or> c = 43 then tl b else b)" by (simp add: q map_tl)
    show "oob_only (deref q)" by (simp add: q oob_only_bytes)
    show "oob_only (deref ?q)" unfolding q' by (rule oob_only_bytes)
    show "oob_only (if is_digit d then bindE (span_digits 0 ?q) (\<lambda>(v, r). Inr (c = 45, v, r))
        else Inr (False, 0, map Some bs))" for d
      unfolding q' by (auto intro!: oob_only_bindE oob_only_bytes)
  qed
  then show ?thesis using skip_space_bytes by blast
qed

lemma strtoul_bytes:
  "strtoul (map Some bs) = Inl OutOfBounds \<or> (\<exists>l r. strtoul (map Some bs) = Inr (l, r))"
proof -
  have "oob_only (strtoul (map Some bs))"
    unfolding strtoul_def by (auto intro!: oob_only_bindE oob_only_scan_number)
  then show ?thesis by (cases "strtoul (map Some bs)") auto
qed

lemma field_bytes:
  "GetSizeT (map Some bs) = Inl OutOfBounds \<or> (\<exists>l bs'. GetSizeT (map Some bs) = Inr (l, map Some bs') \<and> seps bs = Suc (seps bs'))"
  "GetUint (map Some bs) = Inl OutOfBounds \<or> (\<exists>l bs'. GetUint (map Some bs) = Inr (l, map Some bs') \<and> seps bs = Suc (seps bs'))"
  "GetInt (map Some bs) = Inl OutOfBounds \<or> (\<exists>l bs'. GetInt (map Some bs) = Inr (l, map Some bs') \<and> seps bs = Suc (seps bs'))"
  using strtoul_bytes [of bs] seps_next [of bs]
  by (auto simp: GetSizeT_def GetUint_def GetInt_def GetNextParse_bytes)

lemma recv_into_bytes:
  "\<exists>bs. recv_into n (replicate m (Some 0)) (map Some dgram) = map Some bs \<and> seps bs \<le> seps dgram"
proof (intro exI conjI)
  show "recv_into n (replicate m (Some 0)) (map Some dgram) =
      map Some (take n dgram @ replicate (m - (length (take n dgram))) 0)"
    by (simp add: recv_into_def overwrite_def)
  have "seps dgram = seps (take n dgram) + seps (drop n dgram)"
    unfolding seps_def by (metis append_take_drop_id filter_append length_append)
  then show "seps (take n dgram @ replicate (m - length (take n dgram)) 0) \<le> seps dgram"
    by (simp add: seps_def)
qed

lemma three_fields:
  assumes "seps bs < 3"
  shows "bindE (GetSizeT (map Some bs)) (\<lambda>(off, runner). bindE (GetUint runner) (\<lambda>(len, runner).
    bindE (GetInt runner) (\<lambda>(req_id, runner). f off len req_id runner))) = Inl OutOfBounds"
proof (cases "GetSizeT (map Some bs)")
  case (Inr x)
  then obtain l b1 where 1: "x = (l, map Some b1)" "seps bs = Suc (seps b1)"
    using field_bytes(1) [of bs] by auto
  show ?thesis
  proof (cases "GetUint (map Some b1)")
    case u: (Inr y)
    then obtain l2 b2 where 2: "y = (l2, map Some b2)" "seps b1 = Suc (seps b2)"
      using field_bytes(2) [of b1] by auto
    with 1 assms field_bytes(3) [of b2] Inr u show ?thesis by auto
  qed (use Inr 1 field_bytes(2) [of b1] in auto)
qed (use field_bytes(1) [of bs] in auto)

section \<open>Properties\<close>

text \<open>
  C19: a datagram with fewer than three separators, and the zeroed buffer that is parsed when
  \<open>recvfrom\<close> fails, make the parser of the slave run past the end of its buffer; no error is
  reported and no request comes back.
\<close>

theorem ReceiveRequest_needs_separators:
  assumes "received = Recv_Error \<or> (\<exists>a dgram. received = Recv a (map Some dgram) \<and> seps dgram < 3)"
  shows "SlaveDriverProxy_ReceiveRequest drv received = Inl OutOfBounds"
proof -
  have z: "replicate (BUFF_SIZE + 1) (Some 0) = map Some (replicate (BUFF_SIZE + 1) (0 :: byte))"
    by simp
  from assms show ?thesis
  proof (elim disjE exE conjE)
    assume "received = Recv_Error"
    moreover have "seps (replicate (BUFF_SIZE + 1) 0) < 3" by (simp add: seps_def)
    ultimately show ?thesis
      unfolding SlaveDriverProxy_ReceiveRequest_def Let_def z
      by (simp only: three_fields recv_result.case prod.case)
  next
    fix a dgram assume r: "received = Recv a (map Some dgram)" and s: "seps dgram < 3"
    obtain bs where bs: "recv_into BUFF_SIZE (replicate (BUFF_SIZE + 1) (Some 0)) (map Some dgram) =
        map Some bs" "seps bs \<le> seps dgram"
      using recv_into_bytes by blast
    then have "seps bs < 3" using s by simp
    with bs(1) show ?thesis
      unfolding SlaveDriverProxy_ReceiveRequest_def Let_def r
      by (simp only: three_fields recv_result.case prod.case)
  qed
qed

theorem ReceiveRequest_needs_separators_witness:
  "SlaveDriverProxy_ReceiveRequest (SlaveDriverProxy_ctor 4 None 6666)
     (Recv \<lparr>sin_port = 3, sin_addr = 4\<rparr> (map Some (bytes_of ''12;34;5''))) = Inl OutOfBounds"
  by (rule ReceiveRequest_needs_separators)
     (intro disjI2 exI conjI, rule refl, simp add: seps_def bytes_of_def)

end
