(* ===== verification/Handle_Table.thy ===== *)
theory Handle_Table
  imports GC_Prelude
begin

text \<open>
  The interface between the requests sent to the slaves and the replies that come back: a table
  that gives a handle a fresh id and hands it back once.  The client's lemma is that replies may
  come in any order: each one is matched with the handle of its own request.
\<close>

fun put_all :: "('s \<Rightarrow> 'h \<Rightarrow> ('s \<times> 'i) res) \<Rightarrow> 's \<Rightarrow> 'h list \<Rightarrow> ('s \<times> 'i list) res" where
  "put_all put s [] = Inr (s, [])"
| "put_all put s (h # hs) =
     bindE (put s h) (\<lambda>(s', i). bindE (put_all put s' hs) (\<lambda>(s'', is). Inr (s'', i # is)))"

fun take_all :: "('s \<Rightarrow> 'i \<Rightarrow> ('h \<times> 's) res) \<Rightarrow> 's \<Rightarrow> 'i list \<Rightarrow> ('h list \<times> 's) res" where
  "take_all take_out s [] = Inr ([], s)"
| "take_all take_out s (i # is) =
     bindE (take_out s i) (\<lambda>(h, s'). bindE (take_all take_out s' is) (\<lambda>(hs, s''). Inr (h # hs, s'')))"

locale handle_table =
  fixes put :: "'s \<Rightarrow> 'h \<Rightarrow> ('s \<times> 'i) res"
    and take_out :: "'s \<Rightarrow> 'i \<Rightarrow> ('h \<times> 's) res"
    and table :: "'s \<Rightarrow> 'i \<rightharpoonup> 'h"
    and room :: "'s \<Rightarrow> nat"
    and inv :: "'s \<Rightarrow> bool"
    and okh :: "'h \<Rightarrow> bool"
  assumes put_law: "inv s \<Longrightarrow> okh h \<Longrightarrow> 0 < room s \<Longrightarrow>
      \<exists>s' i. put s h = Inr (s', i) \<and> inv s' \<and> table s i = None \<and>
             table s' = (table s)(i \<mapsto> h) \<and> Suc (room s') = room s"
    and take_law: "inv s \<Longrightarrow> table s i = Some h \<Longrightarrow>
      \<exists>s'. take_out s i = Inr (h, s') \<and> inv s' \<and> table s' = (table s)(i := None) \<and> room s' = room s"

context handle_table
begin

lemma put_all_table:
  "inv s \<Longrightarrow> list_all okh hs \<Longrightarrow> length hs \<le> room s \<Longrightarrow>
   \<exists>s' is. put_all put s hs = Inr (s', is) \<and> inv s' \<and> length is = length hs \<and> distinct is \<and>
     set is \<inter> dom (table s) = {} \<and> table s' = table s ++ map_of (zip is hs)"
proof (induction hs arbitrary: s)
  case (Cons h hs)
  then obtain s1 i where p: "put s h = Inr (s1, i)" "inv s1" "table s i = None"
      "table s1 = (table s)(i \<mapsto> h)" "Suc (room s1) = room s"
    using put_law [of s h] by fastforce
  from Cons.prems p(5) have "list_all okh hs" "length hs \<le> room s1" by auto
  from Cons.IH [OF p(2) this] obtain s' "is" where q: "put_all put s1 hs = Inr (s', is)"
      "inv s'" "length is = length hs" "distinct is" "set is \<inter> dom (table s1) = {}"
      "table s' = table s1 ++ map_of (zip is hs)"
    by blast
  from q p have i: "i \<notin> set is" "set is \<inter> dom (table s) = {}" by auto
  then have "map_of (zip is hs) i = None"
    by (auto simp: map_of_eq_None_iff dest: set_zip_leftD)
  then have "table s1 ++ map_of (zip is hs) = table s ++ map_of (zip (i # is) (h # hs))"
    by (auto simp: p(4) map_add_def fun_eq_iff split: option.splits)
  with p q i show ?case by auto
qed simp

lemma take_all_table:
  "inv s \<Longrightarrow> distinct is \<Longrightarrow> map (table s) is = map Some hs \<Longrightarrow>
   \<exists>s'. take_all take_out s is = Inr (hs, s') \<and> inv s' \<and> table s' = (table s) |` (- set is)"
proof (induction "is" arbitrary: s hs)
  case (Cons i "is")
  then obtain h hs' where hs: "hs = h # hs'" "table s i = Some h" "map (table s) is = map Some hs'"
    by (cases hs) auto
  with Cons.prems take_law [of s i h] obtain s1 where t: "take_out s i = Inr (h, s1)" "inv s1"
      "table s1 = (table s)(i := None)" by auto
  from Cons.prems(2) have "map (table s1) is = map (table s) is"
    by (intro map_cong) (auto simp: t(3))
  with hs(3) have "map (table s1) is = map Some hs'" by simp
  with Cons.IH [OF t(2) _ this] Cons.prems obtain s' where
      "take_all take_out s1 is = Inr (hs', s')" "inv s'" "table s' = (table s1) |` (- set is)"
    by auto
  with t hs show ?case by (auto simp: restrict_map_def fun_eq_iff)
qed auto

lemma replies_in_any_order:
  assumes "inv s" and "list_all okh hs" and "length hs \<le> room s"
    and ks: "distinct ks" "\<forall>k \<in> set ks. k < length hs"
  shows "\<exists>s1 is s2. put_all put s hs = Inr (s1, is) \<and> length is = length hs \<and> distinct is \<and>
     take_all take_out s1 (map ((!) is) ks) = Inr (map ((!) hs) ks, s2)"
proof -
  from put_all_table [OF assms(1-3)] obtain s1 "is" where
    p: "put_all put s hs = Inr (s1, is)" "inv s1" "length is = length hs" "distinct is"
       "table s1 = table s ++ map_of (zip is hs)" by blast
  have "table s1 (is ! k) = Some (hs ! k)" if "k < length hs" for k
    using that p by (simp add: map_add_Some_iff map_of_zip_nth)
  then have "map (table s1) (map ((!) is) ks) = map Some (map ((!) hs) ks)"
    using ks by simp
  moreover have "distinct (map ((!) is) ks)"
    using ks p by (auto simp: distinct_map inj_on_def nth_eq_iff_index_eq)
  ultimately obtain s2 where "take_all take_out s1 (map ((!) is) ks) = Inr (map ((!) hs) ks, s2)"
    using take_all_table [OF p(2)] by blast
  with p show ?thesis by blast
qed

end

end
