(* ===== verification/Cloud_Storage.thy ===== *)
theory Cloud_Storage
  imports Wire_Format Handle_Table
begin

text \<open>
  \<open>CloudStorage\<close> and \<open>SlaveData\<close> (cloud_storage.hpp, cloud_storage.cpp), the storage of the master:
  it forwards reads and writes to the slaves as datagrams and keeps, per request in flight, the
  kernel handle under a fresh request id.  The map of slaves uses the key type \<open>Offset\<close>, whose
  equality holds for all keys, so that it has at most one entry.
\<close>

section \<open>SlaveData\<close>

record SlaveData =
  sd_m_socket :: int
  m_cliaddr :: sockaddr_in

text \<open>\<open>SlaveData()\<close> as \<open>operator[]\<close> of the map creates it: all members zero.\<close>

definition SlaveData_default :: SlaveData where
  "SlaveData_default = \<lparr>sd_m_socket = 0, m_cliaddr = \<lparr>sin_port = 0, sin_addr = 0\<rparr>\<rparr>"

definition MAGIC_STR :: "byte list" where
  "MAGIC_STR = bytes_of ''Yoav's Master - I surrender to you...''"

text \<open>What the system answers to the calls of one constructor.\<close>

record slave_env =
  socket_result :: int
  bind_result :: "sockaddr_in \<Rightarrow> int"
  datagrams :: "recv_result list"

text \<open>
  The loop that waits for the greeting of the slave.  Neither \<open>runner\<close> (its offset is \<open>r\<close>) nor
  \<open>buff\<close> is reset between two rounds.
\<close>

fun handshake :: "cell list \<Rightarrow> nat \<Rightarrow> recv_result list \<Rightarrow> sockaddr_in res" where
  "handshake buff r [] = Inl Would_Block"
| "handshake buff r (Recv_Error # rs) = Inl (Exit 1)"
| "handshake buff r (Recv from dgram # rs) =
     (let buff' = recv_into BUFF_SIZE buff dgram
      in bindE (skip_to_nul (drop r buff')) (\<lambda>p.
         bindE (str_eq (tl p) MAGIC_STR) (\<lambda>same.
         if same then Inr from
         else handshake buff' (length buff' - length p + 1) rs)))"

definition htons_size :: "64 word \<Rightarrow> 16 word" where
  "htons_size port = (let p = ucast port in push_bit 8 p OR drop_bit 8 p)"

definition SlaveData_ctor :: "slave_env \<Rightarrow> 64 word \<Rightarrow> SlaveData res" where
  "SlaveData_ctor env port =
     (if socket_result env = -1 then Inl (Exit 1)
      else if bind_result env \<lparr>sin_port = htons_size port, sin_addr = 0\<rparr> < 0 then Inl (Exit 1)
      else bindE (handshake (replicate BUFF_SIZE (Some 0)) 0 (datagrams env)) (\<lambda>from.
           Inr \<lparr>sd_m_socket = socket_result env, m_cliaddr = from\<rparr>))"

section \<open>CloudStorage\<close>

datatype Offset = Offset "64 word"

definition Offset_eq :: "Offset \<Rightarrow> Offset \<Rightarrow> bool" where
  "Offset_eq a b = True"

definition Offset_hash :: "Offset \<Rightarrow> 64 word" where
  "Offset_hash a = 0"

record CloudStorage =
  m_slaves :: "(Offset \<times> SlaveData) list"
  m_list :: "(32 word \<times> cell list) list"
  m_num_of_slaves :: "64 word"
  m_storage_size :: "64 word"
  cs_m_req_id :: "32 word"

text \<open>\<open>m_slaves[k]\<close>: the entry whose key is equal, which is created when there is none.\<close>

fun slaves_find :: "Offset \<Rightarrow> (Offset \<times> SlaveData) list \<Rightarrow> SlaveData option" where
  "slaves_find k [] = None"
| "slaves_find k ((k', v) # m) =
     (if Offset_hash k = Offset_hash k' \<and> Offset_eq k' k then Some v else slaves_find k m)"

definition slaves_index ::
  "Offset \<Rightarrow> (Offset \<times> SlaveData) list \<Rightarrow> SlaveData \<times> (Offset \<times> SlaveData) list" where
  "slaves_index k m =
     (case slaves_find k m of Some v \<Rightarrow> (v, m) | None \<Rightarrow> (SlaveData_default, (k, SlaveData_default) # m))"

fun slaves_assign :: "Offset \<Rightarrow> SlaveData \<Rightarrow> (Offset \<times> SlaveData) list \<Rightarrow> (Offset \<times> SlaveData) list"
where
  "slaves_assign k v [] = [(k, v)]"
| "slaves_assign k v ((k', v') # m) =
     (if Offset_hash k = Offset_hash k' \<and> Offset_eq k' k then (k', v) # m
      else (k', v') # slaves_assign k v m)"

definition AddSlave :: "slave_env \<Rightarrow> CloudStorage \<Rightarrow> Offset \<Rightarrow> 64 word \<Rightarrow> CloudStorage res" where
  "AddSlave env st slave_offset port =
     bindE (SlaveData_ctor env port) (\<lambda>s.
     Inr (st\<lparr>m_slaves := slaves_assign slave_offset s (m_slaves st)\<rparr>))"

text \<open>The loop of the constructor: \<open>n\<close> slaves still to add, the next one with factor \<open>i\<close>.\<close>

fun add_slaves :: "(nat \<Rightarrow> slave_env) \<Rightarrow> nat \<Rightarrow> nat \<Rightarrow> CloudStorage \<Rightarrow> CloudStorage res" where
  "add_slaves env i 0 st = Inr st"
| "add_slaves env i (Suc n) st =
     bindE (AddSlave (env i) st (Offset 0) (6666 * word_of_nat i)) (\<lambda>st'.
     add_slaves env (Suc i) n st')"

definition CloudStorage_ctor :: "(nat \<Rightarrow> slave_env) \<Rightarrow> 64 word \<Rightarrow> 64 word \<Rightarrow> CloudStorage res" where
  "CloudStorage_ctor env num_of_slaves storage_size =
     add_slaves env 1 (unat num_of_slaves)
       \<lparr>m_slaves = [], m_list = [], m_num_of_slaves = num_of_slaves,
        m_storage_size = storage_size, cs_m_req_id = 0\<rparr>"

definition GetSlaveData :: "CloudStorage \<Rightarrow> 64 word \<Rightarrow> SlaveData \<times> CloudStorage" where
  "GetSlaveData st off =
     (let (s, m) = slaves_index (Offset off) (m_slaves st) in (s, st\<lparr>m_slaves := m\<rparr>))"

text \<open>One socket per configured slave, read through an iterator that is never compared to \<open>end()\<close>.\<close>

fun fds_from :: "nat \<Rightarrow> (Offset \<times> SlaveData) list \<Rightarrow> int list res" where
  "fds_from 0 iter = Inr []"
| "fds_from (Suc n) [] = Inl End_Deref"
| "fds_from (Suc n) ((k, s) # iter) = bindE (fds_from n iter) (\<lambda>fds. Inr (sd_m_socket s # fds))"

definition GetAllFds :: "CloudStorage \<Rightarrow> int list res" where
  "GetAllFds st = fds_from (unat (m_num_of_slaves st)) (m_slaves st)"

definition CloudStorage_GetSize :: "CloudStorage \<Rightarrow> 64 word" where
  "CloudStorage_GetSize st = m_storage_size st"

section \<open>Request ids\<close>

definition HandlerToId :: "CloudStorage \<Rightarrow> cell list \<Rightarrow> (CloudStorage \<times> 32 word) res" where
  "HandlerToId st handler =
     (if sint (cs_m_req_id st) = 2 ^ 31 - 1 then Inl Signed_Overflow
      else let ret = cs_m_req_id st + 1
           in bindE (mem_cpy (replicate HANDLE_SIZE None) 0 handler HANDLE_SIZE) (\<lambda>h.
              Inr (st\<lparr>cs_m_req_id := ret, m_list := (ret, h) # m_list st\<rparr>, ret)))"

text \<open>
  \<open>while (req_id != iter->first && iter != end) ++iter;\<close> with the position of \<open>iter\<close> as the
  result: the element is read before the iterator is compared to \<open>end\<close>.
\<close>

fun id_search :: "32 word \<Rightarrow> (32 word \<times> cell list) list \<Rightarrow> nat res" where
  "id_search req_id [] = Inl End_Deref"
| "id_search req_id ((i, h) # iter) =
     (if req_id \<noteq> i then bindE (id_search req_id iter) (\<lambda>n. Inr (Suc n)) else Inr 0)"

text \<open>
  \<open>m_list.remove(*iter)\<close> compares the handles as pointers, so that it removes just that node.
  The result holds the returned flag and the handle copied to \<open>ret\<close>.
\<close>

definition IdToHandler :: "CloudStorage \<Rightarrow> 32 word \<Rightarrow> cell list \<Rightarrow> (bool \<times> cell list \<times> CloudStorage) res"
where
  "IdToHandler st req_id ret =
     bindE (id_search req_id (m_list st)) (\<lambda>n.
     if n = length (m_list st) then Inr (False, ret, st)
     else bindE (mem_cpy ret 0 (snd (m_list st ! n)) HANDLE_SIZE) (\<lambda>ret'.
          Inr (True, ret', st\<lparr>m_list := take n (m_list st) @ drop (Suc n) (m_list st)\<rparr>)))"

section \<open>Requests to the slaves\<close>

record packet =
  pk_socket :: int
  pk_to :: sockaddr_in
  pk_data :: "cell list"

text \<open>\<open>sprintf(buf, "%lu;%u;%d;%c;", ...)\<close> into a zeroed buffer.\<close>

definition sprintf_request ::
  "cell list \<Rightarrow> 64 word \<Rightarrow> 32 word \<Rightarrow> 32 word \<Rightarrow> byte \<Rightarrow> cell list res" where
  "sprintf_request buf off len req_id t =
     store_at buf 0 (map Some
       (dec (unat off) @ [59] @ dec (unat len) @ [59] @ dec_int (sint req_id) @ [59] @ [t] @ [59] @ [0]))"

text \<open>\<open>sendto ok p\<close> is what \<open>sendto\<close> reports for the packet; a failure ends the process.\<close>

definition send_packet :: "(packet \<Rightarrow> bool) \<Rightarrow> packet \<Rightarrow> packet res" where
  "send_packet sendto p = (if sendto p then Inr p else Inl (Exit 1))"

definition CloudStorage_Write ::
  "(packet \<Rightarrow> bool) \<Rightarrow> CloudStorage \<Rightarrow> DriverData \<Rightarrow> (CloudStorage \<times> packet) res" where
  "CloudStorage_Write sendto st data =
     bindE (val (m_offset data)) (\<lambda>off.
     let (slave, st1) = GetSlaveData st off; buf = replicate BUFF_SIZE (Some 0) in
     bindE (val (m_len data)) (\<lambda>len.
     bindE (HandlerToId st1 (m_handler data)) (\<lambda>(st2, req_id).
     bindE (sprintf_request buf off len req_id 49) (\<lambda>buf.
     bindE (skip_to_nul buf) (\<lambda>runner.
     bindE (mem_cpy buf (length buf - length runner + 1) (vmem (m_buff data)) (unat len)) (\<lambda>buf.
     bindE (send_packet sendto \<lparr>pk_socket = sd_m_socket slave, pk_to = m_cliaddr slave, pk_data = buf\<rparr>)
       (\<lambda>p. Inr (st2, p))))))))"

definition CloudStorage_Read ::
  "(packet \<Rightarrow> bool) \<Rightarrow> CloudStorage \<Rightarrow> DriverData \<Rightarrow> (CloudStorage \<times> packet) res" where
  "CloudStorage_Read sendto st data =
     bindE (val (m_offset data)) (\<lambda>off.
     let (slave, st1) = GetSlaveData st off; buf = replicate BUFF_SIZE (Some 0) in
     bindE (val (m_len data)) (\<lambda>len.
     bindE (HandlerToId st1 (m_handler data)) (\<lambda>(st2, req_id).
     bindE (sprintf_request buf off len req_id 48) (\<lambda>buf.
     bindE (send_packet sendto \<lparr>pk_socket = sd_m_socket slave, pk_to = m_cliaddr slave, pk_data = buf\<rparr>)
       (\<lambda>p. Inr (st2, p))))))"

fun send_all :: "(packet \<Rightarrow> bool) \<Rightarrow> cell list \<Rightarrow> (Offset \<times> SlaveData) list \<Rightarrow> packet list res" where
  "send_all sendto buf [] = Inr []"
| "send_all sendto buf ((k, s) # iter) =
     bindE (send_packet sendto \<lparr>pk_socket = sd_m_socket s, pk_to = m_cliaddr s, pk_data = buf\<rparr>)
       (\<lambda>p. bindE (send_all sendto buf iter) (\<lambda>ps. Inr (p # ps)))"

definition CloudStorage_Disconnect :: "(packet \<Rightarrow> bool) \<Rightarrow> CloudStorage \<Rightarrow> packet list res" where
  "CloudStorage_Disconnect sendto st =
     bindE (store_at (replicate BUFF_SIZE (Some 0)) 0 (map Some (bytes_of ''0;0;0;2;'' @ [0])))
       (\<lambda>buf. send_all sendto buf (m_slaves st))"

section \<open>The request ids are a handle table\<close>

text \<open>Looking a handle up the way \<open>SlaveGateway\<close> does: into a new object, \<open>exit(1)\<close> when it is missing.\<close>

definition claim_handler :: "CloudStorage \<Rightarrow> 32 word \<Rightarrow> (cell list \<times> CloudStorage) res" where
  "claim_handler st req_id =
     bindE (IdToHandler st req_id (replicate HANDLE_SIZE None)) (\<lambda>(stt, h, st').
     if stt then Inr (h, st') else Inl (Exit 1))"

definition in_flight :: "CloudStorage \<Rightarrow> 32 word \<rightharpoonup> cell list" where
  "in_flight st = map_of (m_list st)"

definition ids_left :: "CloudStorage \<Rightarrow> nat" where
  "ids_left st = 2 ^ 31 - 1 - unat (cs_m_req_id st)"

definition is_handle :: "cell list \<Rightarrow> bool" where
  "is_handle h \<longleftrightarrow> length h = HANDLE_SIZE"

definition ids_inv :: "CloudStorage \<Rightarrow> bool" where
  "ids_inv st \<longleftrightarrow>
     distinct (map fst (m_list st)) \<and> unat (cs_m_req_id st) < 2 ^ 31 \<and>
     (\<forall>(i, h) \<in> set (m_list st). 0 < unat i \<and> unat i \<le> unat (cs_m_req_id st) \<and> is_handle h)"

lemma sint_nonneg_32:
  assumes "unat (w :: 32 word) < 2 ^ 31" shows "sint w = int (unat w)"
proof -
  from assms have "int (unat w) < int (2 ^ 31)" by (simp only: of_nat_less_iff)
  then have "uint w < 2 ^ 31" by simp
  moreover have "- (2 ^ 31) \<le> uint w" by (rule order_trans [OF _ uint_ge_0]) simp
  ultimately show ?thesis by (simp add: sint_uint signed_take_bit_int_eq_self)
qed

lemma sint_below_max_32:
  assumes "unat (w :: 32 word) < 2 ^ 31 - 1" shows "sint w < 2 ^ 31 - 1"
proof -
  from assms have "int (unat w) < int (2 ^ 31 - 1)" by (simp only: of_nat_less_iff)
  with sint_nonneg_32 [of w] assms show ?thesis by simp
qed

lemma unat_Suc_32: "unat (w :: 32 word) < 2 ^ 31 \<Longrightarrow> unat (w + 1) = Suc (unat w)"
  by (simp add: unat_word_ariths)

lemma HandlerToId_ok:
  assumes "ids_inv st" and "is_handle h" and "0 < ids_left st"
  shows "HandlerToId st h = Inr (st\<lparr>cs_m_req_id := cs_m_req_id st + 1,
    m_list := (cs_m_req_id st + 1, h) # m_list st\<rparr>, cs_m_req_id st + 1)"
proof -
  from assms(3) have "unat (cs_m_req_id st) < 2 ^ 31 - 1" by (simp add: ids_left_def)
  then have "sint (cs_m_req_id st) \<noteq> 2 ^ 31 - 1"
    by (intro less_imp_neq sint_below_max_32)
  with assms(2) show ?thesis
    by (simp add: HandlerToId_def is_handle_def Let_def overwrite_def)
qed

lemma HandlerToId_law:
  assumes "ids_inv st" and "is_handle h" and "0 < ids_left st"
  shows "\<exists>st' i. HandlerToId st h = Inr (st', i) \<and> ids_inv st' \<and> in_flight st i = None \<and>
    in_flight st' = (in_flight st)(i \<mapsto> h) \<and> Suc (ids_left st') = ids_left st"
proof -
  from assms have u: "unat (cs_m_req_id st + 1) = Suc (unat (cs_m_req_id st))"
    by (intro unat_Suc_32) (simp add: ids_inv_def)
  with assms(1) have "cs_m_req_id st + 1 \<notin> fst ` set (m_list st)"
    by (fastforce simp: ids_inv_def)
  with assms u show ?thesis
    by (auto simp: HandlerToId_ok ids_inv_def ids_left_def in_flight_def map_of_eq_None_iff)
qed

lemma id_search_ok:
  "distinct (map fst l) \<Longrightarrow> map_of l i = Some h \<Longrightarrow>
   \<exists>n. id_search i l = Inr n \<and> n < length l \<and> l ! n = (i, h) \<and>
       map_of (take n l @ drop (Suc n) l) = (map_of l)(i := None)"
proof (induction l)
  case (Cons x l)
  show ?case
  proof (cases "fst x = i")
    case True
    with Cons.prems have "map_of l i = None" by (auto simp: map_of_eq_None_iff)
    then have "map_of l = (map_of l)(i := None)" by (simp add: fun_upd_idem)
    with True Cons.prems show ?thesis by (cases x) (auto simp: fun_eq_iff map_of_eq_None_iff)
  next
    case False
    with Cons obtain n where n: "id_search i l = Inr n" "n < length l" "l ! n = (i, h)"
      "map_of (take n l @ drop (Suc n) l) = (map_of l)(i := None)" by fastforce
    with False show ?thesis
      by (intro exI [where x = "Suc n"]) (cases x; auto simp: fun_eq_iff)
  qed
qed simp

lemma distinct_drop_nth: "distinct (map f l) \<Longrightarrow> distinct (map f (take n l @ drop (Suc n) l))"
proof -
  assume "distinct (map f l)"
  then have "distinct (take n (map f l) @ drop n (map f l))" by simp
  moreover have "set (drop (Suc n) (map f l)) \<subseteq> set (drop n (map f l))"
    by (simp add: set_drop_subset_set_drop)
  ultimately show ?thesis
    using \<open>distinct (map f l)\<close> distinct_drop [of "map f l" "Suc n"]
    unfolding map_append take_map drop_map distinct_append by blast
qed

lemma claim_handler_law:
  assumes "ids_inv st" and "in_flight st i = Some h"
  shows "\<exists>st'. claim_handler st i = Inr (h, st') \<and> ids_inv st' \<and>
    in_flight st' = (in_flight st)(i := None) \<and> ids_left st' = ids_left st"
proof -
  from assms obtain n where n: "id_search i (m_list st) = Inr n" "n < length (m_list st)"
    "m_list st ! n = (i, h)"
    "map_of (take n (m_list st) @ drop (Suc n) (m_list st)) = (map_of (m_list st))(i := None)"
    using id_search_ok unfolding ids_inv_def in_flight_def by blast
  from assms n(2,3) have "is_handle h"
    by (metis (no_types, lifting) case_prodD ids_inv_def nth_mem)
  moreover have "ids_inv (st\<lparr>m_list := take n (m_list st) @ drop (Suc n) (m_list st)\<rparr>)"
    using assms(1) distinct_drop_nth [of fst "m_list st" n]
    by (auto simp: ids_inv_def dest: in_set_takeD in_set_dropD)
  ultimately show ?thesis
    using n by (simp add: claim_handler_def IdToHandler_def is_handle_def in_flight_def ids_left_def
        overwrite_def)
qed

interpretation ids: handle_table HandlerToId claim_handler in_flight ids_left ids_inv is_handle
  by unfold_locales (simp_all add: HandlerToId_law claim_handler_law)

section \<open>The datagrams of Write and Read\<close>

lemma sprintf_request_ok [wire_simps]:
  assumes "t \<noteq> 0"
  shows "sprintf_request (replicate BUFF_SIZE (Some 0)) off len req_id t =
    Inr (message BUFF_SIZE (request_text off len req_id t) [])"
proof -
  let ?h = "request_text off len req_id t"
  have "length ?h + 1 + length [] \<le> BUFF_SIZE"
    using length_request_text [of off len req_id t] by (simp add: BUFF_SIZE_def)
  from message_overwrite [OF this] this show ?thesis
    by (simp add: sprintf_request_def request_text_def)
qed

lemma skip_to_nul_message [wire_simps]:
  "0 \<notin> set head \<Longrightarrow> skip_to_nul (message n head body) =
     Inr (Some 0 # body @ replicate (n - (length head + 1 + length body)) (Some 0))"
  by (simp add: message_cells skip_to_nul_text)

text \<open>Copying a payload behind the header of a message that has none yet.\<close>

lemma message_payload [wire_simps]:
  assumes "n \<le> length src" and "length head + 1 \<le> m"
  shows "mem_cpy (message m head []) (Suc (length head)) src n =
    (if length head + 1 + n \<le> m then Inr (message m head (take n src)) else Inl OutOfBounds)"
  using assms by (auto simp: mem_cpy_def store_at_def message_cells overwrite_def)

lemma slaves_index_nonempty:
  "m_slaves st = (k, s) # m \<Longrightarrow> GetSlaveData st off = (s, st)"
  by (simp add: GetSlaveData_def slaves_index_def Offset_hash_def Offset_eq_def)

text \<open>The packet of a write request, whether it fits the buffer or not.\<close>

definition write_packet :: "SlaveData \<Rightarrow> 64 word \<Rightarrow> 32 word \<Rightarrow> 32 word \<Rightarrow> cell list \<Rightarrow> packet" where
  "write_packet s off len req_id body =
     \<lparr>pk_socket = sd_m_socket s, pk_to = m_cliaddr s,
      pk_data = message BUFF_SIZE (request_text off len req_id 49) body\<rparr>"

definition read_packet :: "SlaveData \<Rightarrow> 64 word \<Rightarrow> 32 word \<Rightarrow> 32 word \<Rightarrow> packet" where
  "read_packet s off len req_id =
     \<lparr>pk_socket = sd_m_socket s, pk_to = m_cliaddr s,
      pk_data = message BUFF_SIZE (request_text off len req_id 48) []\<rparr>"

lemma CloudStorage_Write_eq:
  assumes "ids_inv st" and "0 < ids_left st" and "is_handle (m_handler data)"
    and "m_slaves st = (k, s) # m" and "m_offset data = Some off" and "m_len data = Some len"
    and "unat len \<le> length (vmem (m_buff data))"
  shows "CloudStorage_Write sendto st data =
    (let req_id = cs_m_req_id st + 1; p = write_packet s off len req_id (payload data) in
     if BUFF_SIZE < length (request_text off len req_id 49) + 1 + unat len then Inl OutOfBounds
     else if sendto p
     then Inr (st\<lparr>cs_m_req_id := req_id, m_list := (req_id, m_handler data) # m_list st\<rparr>, p)
     else Inl (Exit 1))"
proof -
  let ?h = "request_text off len (cs_m_req_id st + 1) 49"
  have l: "length ?h + 1 \<le> BUFF_SIZE"
    using length_request_text [of off len "cs_m_req_id st + 1" 49] by (simp add: BUFF_SIZE_def)
  then have "length (message BUFF_SIZE ?h []) -
      length (Some 0 # [] @ replicate (BUFF_SIZE - (length ?h + 1 + length [])) (Some 0)) + 1 =
    Suc (length ?h)" by simp
  with assms l show ?thesis
    by (simp add: CloudStorage_Write_def slaves_index_nonempty HandlerToId_ok wire_simps
        request_text_no_nul Let_def send_packet_def write_packet_def payload_def)
qed

lemma CloudStorage_Read_eq:
  assumes "ids_inv st" and "0 < ids_left st" and "is_handle (m_handler data)"
    and "m_slaves st = (k, s) # m" and "m_offset data = Some off" and "m_len data = Some len"
  shows "CloudStorage_Read sendto st data =
    (let req_id = cs_m_req_id st + 1; p = read_packet s off len req_id in
     if sendto p
     then Inr (st\<lparr>cs_m_req_id := req_id, m_list := (req_id, m_handler data) # m_list st\<rparr>, p)
     else Inl (Exit 1))"
  using assms
  by (simp add: CloudStorage_Read_def slaves_index_nonempty HandlerToId_ok wire_simps Let_def
      send_packet_def read_packet_def)

section \<open>The slaves of a constructed storage\<close>

lemma slaves_assign_le_1:
  "length m \<le> 1 \<Longrightarrow> \<exists>k'. slaves_assign k s m = [(k', s)]"
  by (cases m) (auto simp: Offset_hash_def Offset_eq_def)

lemma add_slaves_last:
  "add_slaves env i (Suc n) st = Inr st' \<Longrightarrow> length (m_slaves st) \<le> 1 \<Longrightarrow>
   \<exists>k s. SlaveData_ctor (env (i + n)) (6666 * word_of_nat (i + n)) = Inr s \<and>
     m_slaves st' = [(k, s)] \<and> m_num_of_slaves st' = m_num_of_slaves st"
proof (induction n arbitrary: i st)
  case 0
  with slaves_assign_le_1 [of "m_slaves st"] show ?case
    by (auto simp: AddSlave_def bindE_Inr_iff)
next
  case (Suc n)
  from Suc.prems(1) obtain st1 where st1: "AddSlave (env i) st (Offset 0) (6666 * word_of_nat i) = Inr st1"
    and rest: "add_slaves env (Suc i) (Suc n) st1 = Inr st'"
    by (subst (asm) add_slaves.simps) (auto simp: bindE_Inr_iff simp del: add_slaves.simps)
  from st1 obtain s where "st1 = st\<lparr>m_slaves := slaves_assign (Offset 0) s (m_slaves st)\<rparr>"
    by (auto simp: AddSlave_def bindE_Inr_iff)
  with Suc.prems(2) slaves_assign_le_1 [of "m_slaves st" "Offset 0" s]
  have "length (m_slaves st1) \<le> 1" and n: "m_num_of_slaves st1 = m_num_of_slaves st" by auto
  from Suc.IH [OF rest this(1)] n show ?case by simp
qed

section \<open>Properties\<close>

text \<open>A storage with one slave and no request in flight.\<close>

definition one_slave :: "sockaddr_in \<Rightarrow> CloudStorage" where
  "one_slave addr =
     \<lparr>m_slaves = [(Offset 0, \<lparr>sd_m_socket = 3, m_cliaddr = addr\<rparr>)], m_list = [],
      m_num_of_slaves = 1, m_storage_size = 0, cs_m_req_id = 0\<rparr>"

lemma one_slave_facts [simp]:
  "ids_inv (one_slave a)" "ids_left (one_slave a) = 2 ^ 31 - 1"
  "m_slaves (one_slave a) = [(Offset 0, \<lparr>sd_m_socket = 3, m_cliaddr = a\<rparr>)]"
  "cs_m_req_id (one_slave a) = 0" "in_flight (one_slave a) = Map.empty"
  "m_num_of_slaves (one_slave a) = 1" "m_list (one_slave a) = []"
  by (simp_all add: one_slave_def ids_inv_def ids_left_def in_flight_def)

text \<open>
  C6: the replies of the slaves may come in any order: after the handles \<open>hs\<close> were given ids with
  \<open>HandlerToId\<close>, looking the ids up in any order without repetition with \<open>IdToHandler\<close> gives each
  time the handle that belongs to the id.
\<close>

theorem replies_match_requests:
  assumes "ids_inv st" and "list_all is_handle hs" and "length hs \<le> ids_left st"
    and "distinct ks" and "\<forall>k \<in> set ks. k < length hs"
  shows "\<exists>st1 is st2. put_all HandlerToId st hs = Inr (st1, is) \<and> length is = length hs \<and> distinct is \<and>
     take_all claim_handler st1 (map ((!) is) ks) = Inr (map ((!) hs) ks, st2)"
  using assms by (rule ids.replies_in_any_order)

theorem replies_match_requests_witness:
  "\<exists>st1 is st2. put_all HandlerToId (one_slave \<lparr>sin_port = 1, sin_addr = 2\<rparr>)
       [replicate 8 (Some 1), replicate 8 (Some 2), replicate 8 (Some 3)] = Inr (st1, is) \<and>
     length is = length [replicate 8 (Some 1), replicate 8 (Some 2), replicate 8 (Some 3 :: cell)] \<and>
     distinct is \<and>
     take_all claim_handler st1 (map ((!) is) [2, 0]) =
       Inr (map ((!) [replicate 8 (Some 1), replicate 8 (Some 2), replicate 8 (Some 3)]) [2, 0], st2)"
  by (rule replies_match_requests) (auto simp: is_handle_def HANDLE_SIZE_def)

lemma id_search_None: "map_of l i = None \<Longrightarrow> id_search i l = Inl End_Deref"
  by (induction l) (auto split: if_splits)

lemma id_search_filter:
  "distinct (map fst l) \<Longrightarrow> map_of l i = Some h \<Longrightarrow>
   \<exists>n. id_search i l = Inr n \<and> n < length l \<and> l ! n = (i, h) \<and>
       take n l @ drop (Suc n) l = filter (\<lambda>x. fst x \<noteq> i) l"
proof (induction l)
  case (Cons x l)
  show ?case
  proof (cases "fst x = i")
    case True
    with Cons.prems have "i \<notin> fst ` set l" by auto
    then have "filter (\<lambda>x. fst x \<noteq> i) l = l" by (auto simp: filter_id_conv)
    with True Cons.prems show ?thesis by (cases x) auto
  next
    case False
    with Cons obtain n where "id_search i l = Inr n" "n < length l" "l ! n = (i, h)"
      "take n l @ drop (Suc n) l = filter (\<lambda>x. fst x \<noteq> i) l" by fastforce
    with False show ?thesis by (intro exI [where x = "Suc n"]) (cases x; auto)
  qed
qed simp

text \<open>
  \<open>IdToHandler\<close> on every branch, for a storage whose table is well formed: a request id in
  flight gives its handle and its entry, no other one, is removed; for any other id the loop reads
  the end of the list instead of returning false.
\<close>

theorem IdToHandler_branches:
  assumes "ids_inv st" and "length ret = HANDLE_SIZE"
  shows "IdToHandler st req_id ret =
    (case in_flight st req_id of
       None \<Rightarrow> Inl End_Deref
     | Some h \<Rightarrow> Inr (True, h, st\<lparr>m_list := filter (\<lambda>x. fst x \<noteq> req_id) (m_list st)\<rparr>))"
proof (cases "in_flight st req_id")
  case None
  then show ?thesis by (simp add: IdToHandler_def in_flight_def id_search_None)
next
  case (Some h)
  then obtain n where n: "id_search req_id (m_list st) = Inr n" "n < length (m_list st)"
    "m_list st ! n = (req_id, h)"
    "take n (m_list st) @ drop (Suc n) (m_list st) = filter (\<lambda>x. fst x \<noteq> req_id) (m_list st)"
    using id_search_filter assms(1) unfolding ids_inv_def in_flight_def by blast
  then have "is_handle h" using assms(1) nth_mem [OF n(2)] by (auto simp: ids_inv_def)
  with Some n assms(2) show ?thesis
    by (simp add: IdToHandler_def is_handle_def overwrite_def)
qed

theorem IdToHandler_branches_witness:
  "IdToHandler (one_slave \<lparr>sin_port = 1, sin_addr = 2\<rparr>) 1 (replicate 8 None) = Inl End_Deref"
  using IdToHandler_branches [of "one_slave \<lparr>sin_port = 1, sin_addr = 2\<rparr>" "replicate 8 None" 1]
  by (simp add: HANDLE_SIZE_def)

text \<open>
  \<open>HandlerToId\<close> on every branch: the id is one more than the last one and is not in flight,
  the handle is stored under it and everything else stays; when the counter is at its largest value
  the increment overflows.
\<close>

theorem HandlerToId_branches:
  assumes "ids_inv st" and "is_handle h"
  shows "in_flight st (cs_m_req_id st + 1) = None \<and>
    HandlerToId st h =
      (if ids_left st = 0 then Inl Signed_Overflow
       else Inr (st\<lparr>cs_m_req_id := cs_m_req_id st + 1,
                    m_list := (cs_m_req_id st + 1, h) # m_list st\<rparr>, cs_m_req_id st + 1))"
proof
  have b: "unat (cs_m_req_id st) < 2 ^ 31" using assms(1) by (simp add: ids_inv_def)
  from unat_Suc_32 [OF b] assms(1) show "in_flight st (cs_m_req_id st + 1) = None"
    by (fastforce simp: ids_inv_def in_flight_def map_of_eq_None_iff)
  show "HandlerToId st h = (if ids_left st = 0 then Inl Signed_Overflow
     else Inr (st\<lparr>cs_m_req_id := cs_m_req_id st + 1,
                  m_list := (cs_m_req_id st + 1, h) # m_list st\<rparr>, cs_m_req_id st + 1))"
  proof (cases "ids_left st = 0")
    case True
    with b have "unat (cs_m_req_id st) = 2 ^ 31 - 1" by (simp add: ids_left_def)
    then have "sint (cs_m_req_id st) = 2 ^ 31 - 1" using sint_nonneg_32 [OF b] by simp
    with True show ?thesis by (simp add: HandlerToId_def)
  next
    case False
    with HandlerToId_ok [OF assms] show ?thesis by simp
  qed
qed

theorem HandlerToId_branches_witness:
  "HandlerToId ((one_slave \<lparr>sin_port = 1, sin_addr = 2\<rparr>)\<lparr>cs_m_req_id := 0x7FFFFFFF\<rparr>) (replicate 8 None) =
     Inl Signed_Overflow"
  using HandlerToId_branches [of "(one_slave \<lparr>sin_port = 1, sin_addr = 2\<rparr>)\<lparr>cs_m_req_id := 0x7FFFFFFF\<rparr>"
      "replicate 8 None"]
  by (simp add: ids_inv_def is_handle_def HANDLE_SIZE_def ids_left_def)

text \<open>
  C17: \<open>CloudStorage::Write\<close> on every branch, for a storage with a slave and a request whose members
  are set: a payload that does not fit behind the header in the 4136 bytes of the buffer is written
  out of bounds, a failing \<open>sendto\<close> ends the process, and otherwise the slave is sent the header in
  decimal, a zero byte and the payload, and the handle is kept under the new request id.
\<close>

theorem CloudStorage_Write_branches:
  assumes "ids_inv st" and "0 < ids_left st" and "is_handle (m_handler data)"
    and "m_slaves st = (k, s) # m" and "m_offset data = Some off" and "m_len data = Some len"
    and "unat len \<le> length (vmem (m_buff data))"
  shows "CloudStorage_Write sendto st data =
    (let req_id = cs_m_req_id st + 1; p = write_packet s off len req_id (payload data) in
     if BUFF_SIZE < length (request_text off len req_id 49) + 1 + unat len then Inl OutOfBounds
     else if sendto p
     then Inr (st\<lparr>cs_m_req_id := req_id, m_list := (req_id, m_handler data) # m_list st\<rparr>, p)
     else Inl (Exit 1))"
  using assms by (rule CloudStorage_Write_eq)

text \<open>A write of \<open>n\<close> bytes at offset 0.\<close>

definition long_write :: "nat \<Rightarrow> DriverData" where
  "long_write n = new_DriverData\<lparr>m_offset := Some 0, m_len := Some (word_of_nat n),
     m_key := Some WRITE, m_handler := replicate 8 (Some 5),
     m_buff := \<lparr>vsize = 0, vmem = replicate n (Some 7)\<rparr>\<rparr>"

theorem CloudStorage_Write_branches_witness:
  "CloudStorage_Write (\<lambda>p. True) (one_slave \<lparr>sin_port = 1, sin_addr = 2\<rparr>) (long_write 4130) =
     Inl OutOfBounds"
  by (subst CloudStorage_Write_branches [where len = 4130 and off = 0])
     (simp_all add: long_write_def is_handle_def HANDLE_SIZE_def Let_def BUFF_SIZE_def
       request_text_def dec_int_def dec.simps del: replicate.simps)

end
