(* ===== verification/Slave_Gateway.thy ===== *)
theory Slave_Gateway
  imports Cloud_Storage
begin

text \<open>
  \<open>SlaveGateway\<close> (slave_gateway.hpp, slave_gateway.cpp): the gateway of the master that receives the
  replies of a slave and turns each into the data of a reply to the kernel, with the handle that
  \<open>CloudStorage\<close> kept for its request id.
\<close>

text \<open>
  \<open>CreateDataFromBuff(src)\<close>.  The \<open>printf\<close> of the read branch reads the string \<open>runner\<close> points to.
  The member \<open>m_status\<close> is not set.
\<close>

definition CreateDataFromBuff :: "CloudStorage \<Rightarrow> cell list \<Rightarrow> (DriverData \<times> CloudStorage) res" where
  "CreateDataFromBuff storage src =
     (let data = new_DriverData\<lparr>m_offset := Some 0\<rparr> in
      bindE (strtoul src) (\<lambda>(len, runner).
      let data = data\<lparr>m_len := Some (ucast len)\<rparr> in
      bindE (if runner = [] then Inl OutOfBounds else strtol (tl runner)) (\<lambda>(req_id, runner).
      bindE (IdToHandler storage (ucast req_id) (m_handler data)) (\<lambda>(stt, handler, storage').
      if \<not> stt then Inl (Exit 1)
      else
        let data = data\<lparr>m_handler := handler\<rparr> in
        bindE (byte_at runner 1) (\<lambda>c.
        let key = FactoryKey_of_char c; data = data\<lparr>m_key := Some key\<rparr> in
        if key = READ
        then bindE (c_str runner) (\<lambda>_.
             let b = vec_reserve (BUFF_SIZE + 1) (m_buff data) in
             bindE (if length runner < 4 then Inl OutOfBounds else str_cpy (vmem b) 0 (drop 4 runner))
               (\<lambda>mem. Inr (data\<lparr>m_buff := b\<lparr>vmem := mem\<rparr>\<rparr>, storage')))
        else Inr (data, storage'))))))"

text \<open>
  A pointer to a \<open>TaskInfo\<close> (task_args.hpp), which may be null.  The driver and the storage are
  shared by all of them, so that the model keeps the data only, which may be a null pointer too.
\<close>

datatype TaskInfo = Null_TaskInfo | TaskInfo "DriverData option"

definition SlaveGateway_Read ::
  "CloudStorage \<Rightarrow> recv_result \<Rightarrow> (FactoryKey \<times> TaskInfo \<times> CloudStorage) res" where
  "SlaveGateway_Read storage received =
     (case received of
        Recv_Error \<Rightarrow> Inl (Exit 1)
      | Recv _ dgram \<Rightarrow>
          bindE (CreateDataFromBuff storage (recv_into BUFF_SIZE (replicate BUFF_SIZE (Some 0)) dgram))
            (\<lambda>(data, storage'). Inr (REPLAY, TaskInfo (Some data), storage')))"

section \<open>Reading well-formed replies\<close>

text \<open>
  The reply of a slave is one cell longer than the buffer of the gateway.  With its text inside
  the buffer, the handle of its request id comes back, and the payload of a read up to its zero.
\<close>

lemma IdToHandler_claim:
  assumes "ids_inv st" and "in_flight st i = Some h"
  obtains st' where "IdToHandler st i (replicate HANDLE_SIZE None) = Inr (True, h, st')"
    and "claim_handler st i = Inr (h, st')"
    and "ids_inv st'" and "in_flight st' = (in_flight st)(i := None)"
proof -
  from claim_handler_law [OF assms] obtain st' where c: "claim_handler st i = Inr (h, st')"
    "ids_inv st'" "in_flight st' = (in_flight st)(i := None)" by blast
  then show ?thesis using that
    by (auto simp: claim_handler_def bindE_Inr_iff split: prod.splits if_splits)
qed

lemma reply_in_buffer:
  assumes "length (reply_text len req_id t) + 1 + length body < BUFF_SIZE"
  obtains k where "recv_into BUFF_SIZE (replicate BUFF_SIZE (Some 0))
      (message (BUFF_SIZE + 1) (reply_text len req_id t) (map Some body)) =
    map Some (dec (unat len)) @ Some 59 # map Some (dec_int (sint req_id)) @ Some 59 # Some t # Some 59 #
      Some 0 # map Some body @ Some 0 # replicate k (Some 0)"
proof -
  let ?m = "BUFF_SIZE - (length (reply_text len req_id t) + 1 + length body)"
  obtain k where k: "?m = Suc k" using assms by (cases ?m) auto
  then show ?thesis
    using assms recv_longer_message [of "reply_text len req_id t" "map Some body" BUFF_SIZE] that [of k]
    by (simp add: message_cells reply_text_def)
qed

lemma SlaveGateway_Read_reply:
  assumes inv: "ids_inv st" and h: "in_flight st req_id = Some h"
    and claim: "claim_handler st req_id = Inr (h, st')"
    and fits: "length (reply_text len req_id t) + 1 + length body < BUFF_SIZE"
    and t: "t = 48 \<or> t = 49" and body: "0 \<notin> set body"
  shows "SlaveGateway_Read st (Recv from (message (BUFF_SIZE + 1) (reply_text len req_id t) (map Some body))) =
    Inr (REPLAY, TaskInfo (Some (new_DriverData\<lparr>m_offset := Some 0, m_len := Some len, m_handler := h,
      m_key := Some (FactoryKey_of_char t),
      m_buff := (if t = 48
        then \<lparr>vsize = 0, vmem = overwrite (replicate (BUFF_SIZE + 1) None) 0 (map Some (body @ [0]))\<rparr>
        else empty_vec)\<rparr>)), st')"
proof -
  from IdToHandler_claim [OF inv h] claim
  have id: "IdToHandler st req_id (replicate HANDLE_SIZE None) = Inr (True, h, st')" by auto
  obtain k where buf: "recv_into BUFF_SIZE (replicate BUFF_SIZE (Some 0))
      (message (BUFF_SIZE + 1) (reply_text len req_id t) (map Some body)) =
    map Some (dec (unat len)) @ Some 59 # map Some (dec_int (sint req_id)) @ Some 59 # Some t # Some 59 #
      Some 0 # map Some body @ Some 0 # replicate k (Some 0)"
    by (rule reply_in_buffer [OF fits])
  have strcpy: "str_cpy (replicate (BUFF_SIZE + 1) None) 0 (map Some body @ Some 0 # replicate k (Some 0)) =
    Inr (overwrite (replicate (BUFF_SIZE + 1) None) 0 (map Some (body @ [0])))"
    using body fits by (simp add: str_cpy_def c_str_text del: replicate_Suc)
  have str: "c_str (Some 59 # Some t # Some 59 # Some 0 # p) = Inr [59, t, 59]" for p
    using t by auto
  show ?thesis
    unfolding SlaveGateway_Read_def recv_result.case buf
    using t strcpy id
    by (auto simp: CreateDataFromBuff_def Let_def strtoul_u32 strtol_int byte_at_def str HANDLE_SIZE_def)
qed

text \<open>A reply whose id is not in the table: \<open>IdToHandler\<close> reads the end of the list.\<close>

lemma SlaveGateway_Read_unknown:
  assumes "ids_inv st" and "in_flight st req_id = None"
    and fits: "length (reply_text len req_id t) + 1 + length body < BUFF_SIZE"
  shows "SlaveGateway_Read st (Recv from (message (BUFF_SIZE + 1) (reply_text len req_id t) (map Some body))) =
    Inl End_Deref"
proof -
  have id: "IdToHandler st req_id (replicate HANDLE_SIZE None) = Inl End_Deref"
    using assms(1,2) by (simp add: IdToHandler_branches)
  obtain k where buf: "recv_into BUFF_SIZE (replicate BUFF_SIZE (Some 0))
      (message (BUFF_SIZE + 1) (reply_text len req_id t) (map Some body)) =
    map Some (dec (unat len)) @ Some 59 # map Some (dec_int (sint req_id)) @ Some 59 # Some t # Some 59 #
      Some 0 # map Some body @ Some 0 # replicate k (Some 0)"
    by (rule reply_in_buffer [OF fits])
  show ?thesis
    unfolding SlaveGateway_Read_def recv_result.case buf
    using id by (simp add: CreateDataFromBuff_def Let_def strtoul_u32 strtol_int HANDLE_SIZE_def)
qed

end
