(* ===== verification/Nbd_Driver_Proxy.thy ===== *)
theory Nbd_Driver_Proxy
  imports Driver_Data
begin

text \<open>
  \<open>NBDDriverProxy\<close> (nbd_driver_proxy.hpp, nbd_driver_proxy.cpp, ioctl_wrapper.cpp), the driver of
  the master: it takes the requests of the kernel's network block device from one end of a socket
  pair and writes the replies to it.  The structures and constants of linux/nbd.h are the
  parameter \<open>nbd_abi\<close>.  The host is little-endian (the source's branch without
  \<open>WORDS_BIGENDIAN\<close>).
\<close>

section \<open>Byte order\<close>

definition ntohl :: "32 word \<Rightarrow> 32 word" where
  "ntohl w = push_bit 24 (w AND 0xFF) OR push_bit 8 (w AND 0xFF00)
             OR drop_bit 8 (w AND 0xFF0000) OR drop_bit 24 (w AND 0xFF000000)"

abbreviation htonl :: "32 word \<Rightarrow> 32 word" where
  "htonl \<equiv> ntohl"

definition Ntohll :: "64 word \<Rightarrow> 64 word" where
  "Ntohll a =
     (let lo = ucast (a AND 0xffffffff) :: 32 word;
          hi = ucast (drop_bit 32 a) :: 32 word;
          lo = ntohl lo;
          hi = ntohl hi
      in push_bit 32 (ucast lo) OR ucast hi)"

section \<open>The kernel's structures\<close>

record nbd_request =
  rq_magic :: "32 word"
  rq_type :: "32 word"
  rq_handle :: "byte list"
  rq_from :: "64 word"
  rq_len :: "32 word"

record nbd_reply =
  rp_magic :: "32 word"
  rp_error :: "32 word option"
  rp_handle :: "cell list"

text \<open>
  \<open>parse_request\<close> reads the members out of the \<open>sizeof_request\<close> bytes of a structure in memory,
  \<open>reply_cells\<close> lays a reply out.  The constants are in host order.
\<close>

record nbd_abi =
  sizeof_request :: nat
  parse_request :: "byte list \<Rightarrow> nbd_request"
  reply_cells :: "nbd_reply \<Rightarrow> cell list"
  NBD_REQUEST_MAGIC :: "32 word"
  NBD_REPLY_MAGIC :: "32 word"
  NBD_CMD_READ :: "32 word"
  NBD_CMD_WRITE :: "32 word"
  NBD_CMD_DISC :: "32 word"
  NBD_CMD_FLUSH :: "32 word"
  NBD_CMD_TRIM :: "32 word"

section \<open>ReadAll and WriteAll\<close>

text \<open>
  What one \<open>read\<close> or \<open>write\<close> does: it fails, or it transfers at most \<open>Suc k\<close> bytes.  A \<open>read\<close>
  without any byte left is at the end of the stream and returns 0.
\<close>

datatype io = IO_Fail | IO_Upto nat

primrec ReadAll :: "io list \<Rightarrow> byte list \<Rightarrow> cell list \<Rightarrow> nat \<Rightarrow> nat \<Rightarrow>
    (io list \<times> byte list \<times> cell list) res" where
  "ReadAll [] inp buff i cnt = (if cnt > 0 then Inl Would_Block else Inr ([], inp, buff))"
| "ReadAll (x # ios) inp buff i cnt =
     (if cnt > 0
      then case x of
          IO_Fail \<Rightarrow> Inl (Runtime_Error ''ReadAll() fail to read() from fd'')
        | IO_Upto k \<Rightarrow>
            let chunk = take (min (Suc k) cnt) inp; bytes_read = length chunk
            in bindE (store_at buff i (map Some chunk)) (\<lambda>buff.
               ReadAll ios (drop bytes_read inp) buff (i + bytes_read) (cnt - bytes_read))
      else Inr (x # ios, inp, buff))"

primrec WriteAll :: "io list \<Rightarrow> cell list \<Rightarrow> nat \<Rightarrow> cell list \<Rightarrow> (io list \<times> cell list) res" where
  "WriteAll [] buff cnt out = (if cnt > 0 then Inl Would_Block else Inr ([], out))"
| "WriteAll (x # ios) buff cnt out =
     (if cnt > 0
      then case x of
          IO_Fail \<Rightarrow> Inl (Runtime_Error ''WriteAll() fail to write() to fd'')
        | IO_Upto k \<Rightarrow>
            let bytes_written = min (Suc k) cnt
            in if length buff < bytes_written then Inl OutOfBounds
               else WriteAll ios (drop bytes_written buff) (cnt - bytes_written)
                      (out @ take bytes_written buff)
      else Inr (x # ios, out))"

section \<open>ReceiveRequest and SendReply\<close>

text \<open>
  One \<open>read\<close> fills the zeroed structure, as far as it gets; only the payload of a write is read in
  a loop.
\<close>

definition NBDDriverProxy_ReceiveRequest ::
  "nbd_abi \<Rightarrow> io list \<Rightarrow> byte list \<Rightarrow> (DriverData \<times> io list \<times> byte list) res" where
  "NBDDriverProxy_ReceiveRequest abi ios inp =
     (case ios of
        [] \<Rightarrow> Inl Would_Block
      | IO_Fail # _ \<Rightarrow>
          Inl (Runtime_Error ''ReceiveRequest() fail to read() requet from socket'')
      | IO_Upto k # ios \<Rightarrow>
          let chunk = take (min (Suc k) (sizeof_request abi)) inp;
              inp = drop (length chunk) inp;
              request = parse_request abi (chunk @ replicate (sizeof_request abi - length chunk) 0)
          in if rq_magic request \<noteq> htonl (NBD_REQUEST_MAGIC abi)
             then Inl (NBDBadMagic (rq_magic request))
             else
               let len = ntohl (rq_len request) in
               bindE (mem_cpy (m_handler new_DriverData) 0 (map Some (rq_handle request)) HANDLE_SIZE)
                 (\<lambda>handler.
               let ret = new_DriverData\<lparr>m_handler := handler, m_status := Some (htonl 0)\<rparr>;
                   t = ntohl (rq_type request)
               in if t = NBD_CMD_READ abi
                  then Inr (ret\<lparr>m_offset := Some (Ntohll (rq_from request)), m_len := Some len,
                                m_key := Some READ\<rparr>, ios, inp)
                  else if t = NBD_CMD_WRITE abi
                  then let b = vec_reserve (unat len) (m_buff ret) in
                       bindE (ReadAll ios inp (vmem b) 0 (unat len)) (\<lambda>(ios, inp, mem).
                       Inr (ret\<lparr>m_offset := Some (Ntohll (rq_from request)), m_len := Some len,
                                m_key := Some WRITE, m_buff := b\<lparr>vmem := mem\<rparr>\<rparr>, ios, inp))
                  else if t = NBD_CMD_DISC abi then Inr (ret\<lparr>m_key := Some DISCONNECT\<rparr>, ios, inp)
                  else if t = NBD_CMD_FLUSH abi then Inr (ret\<lparr>m_key := Some FLUSH\<rparr>, ios, inp)
                  else if t = NBD_CMD_TRIM abi then Inr (ret\<lparr>m_key := Some TRIM\<rparr>, ios, inp)
                  else Inr (ret\<lparr>m_key := Some BAD_REQUEST\<rparr>, ios, inp)))"

definition InitReaply :: "nbd_abi \<Rightarrow> 32 word option \<Rightarrow> cell list \<Rightarrow> nbd_reply" where
  "InitReaply abi status handler =
     \<lparr>rp_magic = htonl (NBD_REPLY_MAGIC abi), rp_error = status, rp_handle = take HANDLE_SIZE handler\<rparr>"

definition NBDDriverProxy_SendReply ::
  "nbd_abi \<Rightarrow> io list \<Rightarrow> cell list \<Rightarrow> DriverData \<Rightarrow> (io list \<times> cell list) res" where
  "NBDDriverProxy_SendReply abi ios out data =
     (let reply = reply_cells abi (InitReaply abi (m_status data) (m_handler data)) in
      bindE (WriteAll ios reply (length reply) out) (\<lambda>(ios, out).
      bindE (val (m_key data)) (\<lambda>key.
      if key = READ
      then bindE (val (m_len data)) (\<lambda>len. WriteAll ios (vmem (m_buff data)) (unat len) out)
      else Inr (ios, out))))"

section \<open>Set-up and disconnection\<close>

datatype OffOn = ON | OFF

record NBDDriverProxy =
  m_req_fd :: int
  m_nbd_fd :: int
  m_file_fd :: int
  m_connected :: OffOn

text \<open>The calls of the proxy to the system, in the order it makes them.\<close>

datatype nbd_call =
    NBD_SET_BLKSIZE int "64 word" | NBD_SET_SIZE_BLOCKS int "64 word" | NBD_CLEAR_SOCK int
  | NBD_SET_SOCK int int | NBD_SET_FLAGS int "32 word" | NBD_DO_IT int | NBD_CLEAR_QUE int
  | NBD_DISCONNECT int | Close int | Join

text \<open>
  \<open>Ioctl\<close> throws \<open>IoctlError\<close>, a \<open>std::runtime_error\<close>, when \<open>ioctl\<close> (the parameter) reports an
  error; \<open>ioctls\<close> is a sequence of such calls.
\<close>

definition Ioctl :: "(nbd_call \<Rightarrow> bool) \<Rightarrow> nbd_call \<Rightarrow> nbd_call list res" where
  "Ioctl ioctl c = (if ioctl c then Inr [c] else Inl (Runtime_Error ''IoctlError''))"

fun ioctls :: "(nbd_call \<Rightarrow> bool) \<Rightarrow> nbd_call list \<Rightarrow> nbd_call list res" where
  "ioctls ioctl [] = Inr []"
| "ioctls ioctl (c # cs) =
     bindE (Ioctl ioctl c) (\<lambda>done. bindE (ioctls ioctl cs) (\<lambda>rest. Inr (done @ rest)))"

definition DEFAULT_NUM_BLOCKS :: "64 word" where "DEFAULT_NUM_BLOCKS = 1024"

text \<open>\<open>socketpair\<close> gives the two sockets or fails; \<open>open\<close> gives the descriptor of the device.\<close>

definition InitSockets :: "(int \<times> int) option \<Rightarrow> (int \<times> int) res" where
  "InitSockets socket_pair =
     (case socket_pair of None \<Rightarrow> Inl (Runtime_Error ''InitSockets() socketpair() fail'')
      | Some p \<Rightarrow> Inr p)"

definition InitDevice :: "(nbd_call \<Rightarrow> bool) \<Rightarrow> int \<Rightarrow> 64 word \<Rightarrow> 64 word \<Rightarrow> nbd_call list res" where
  "InitDevice ioctl file_fd blk_size num_blks =
     (if file_fd < 0 then Inl (Runtime_Error ''InitDevice() open() fail'')
      else ioctls ioctl [NBD_SET_BLKSIZE file_fd blk_size, NBD_SET_SIZE_BLOCKS file_fd num_blks,
                         NBD_CLEAR_SOCK file_fd])"

definition NBDDriverProxy_ctor_blocks ::
  "(nbd_call \<Rightarrow> bool) \<Rightarrow> (int \<times> int) option \<Rightarrow> int \<Rightarrow> 64 word \<Rightarrow> 64 word \<Rightarrow>
   (NBDDriverProxy \<times> nbd_call list) res" where
  "NBDDriverProxy_ctor_blocks ioctl socket_pair file_fd block_size num_blocks =
     bindE (InitSockets socket_pair) (\<lambda>(req, nbd).
     bindE (InitDevice ioctl file_fd block_size num_blocks) (\<lambda>calls.
     Inr (\<lparr>m_req_fd = req, m_nbd_fd = nbd, m_file_fd = file_fd, m_connected = ON\<rparr>, calls)))"

definition NBDDriverProxy_ctor ::
  "(nbd_call \<Rightarrow> bool) \<Rightarrow> (int \<times> int) option \<Rightarrow> int \<Rightarrow> 64 word \<Rightarrow>
   (NBDDriverProxy \<times> nbd_call list) res" where
  "NBDDriverProxy_ctor ioctl socket_pair file_fd storage_size =
     NBDDriverProxy_ctor_blocks ioctl socket_pair file_fd
       DEFAULT_NUM_BLOCKS (storage_size div DEFAULT_NUM_BLOCKS)"

text \<open>
  The thread that serves the device.  \<open>flags\<close> is \<open>None\<close> where the header has no \<open>NBD_SET_FLAGS\<close>,
  else the flags it has; an \<open>IoctlError\<close> ends the process.  The results of \<open>sigfillset\<close> and
  \<open>pthread_sigmask\<close> come from the system; the exception for them is outside the \<open>try\<close>.
\<close>

definition SetFlags :: "32 word option \<Rightarrow> int \<Rightarrow> nbd_call list" where
  "SetFlags flags file_fd =
     (case flags of None \<Rightarrow> [] | Some f \<Rightarrow> if f \<noteq> 0 then [NBD_SET_FLAGS file_fd f] else [])"

definition SubThreadSetSignals :: "int \<Rightarrow> int \<Rightarrow> unit res" where
  "SubThreadSetSignals fill_res mask_res =
     (if fill_res + mask_res \<noteq> 0 then Inl (Runtime_Error ''Thread failed to mask signals'') else Inr ())"

definition ThreadFuncSetNBD ::
  "int \<Rightarrow> int \<Rightarrow> (nbd_call \<Rightarrow> bool) \<Rightarrow> 32 word option \<Rightarrow> int \<Rightarrow> int \<Rightarrow> nbd_call list res" where
  "ThreadFuncSetNBD fill_res mask_res ioctl flags file_fd socket_fd =
     bindE (SubThreadSetSignals fill_res mask_res) (\<lambda>_.
     case ioctls ioctl ([NBD_SET_SOCK file_fd socket_fd] @ SetFlags flags file_fd
          @ [NBD_DO_IT file_fd, NBD_CLEAR_QUE file_fd, NBD_CLEAR_SOCK file_fd]) of
        Inl _ \<Rightarrow> Inl (Exit (-1))
      | Inr calls \<Rightarrow> Inr calls)"

definition NBDDriverProxy_Disconnect ::
  "(nbd_call \<Rightarrow> bool) \<Rightarrow> NBDDriverProxy \<Rightarrow> (NBDDriverProxy \<times> nbd_call list) res" where
  "NBDDriverProxy_Disconnect ioctl drv =
     bindE (Ioctl ioctl (NBD_DISCONNECT (m_file_fd drv))) (\<lambda>calls.
     Inr (drv\<lparr>m_connected := OFF\<rparr>,
          calls @ [Close (m_req_fd drv), Close (m_nbd_fd drv), Join, Close (m_file_fd drv)]))"

definition NBDDriverProxy_dtor ::
  "(nbd_call \<Rightarrow> bool) \<Rightarrow> NBDDriverProxy \<Rightarrow> (NBDDriverProxy \<times> nbd_call list) res" where
  "NBDDriverProxy_dtor ioctl drv =
     (if m_connected drv = ON then NBDDriverProxy_Disconnect ioctl drv else Inr (drv, []))"

definition NBDDriverProxy_GetReqFd :: "NBDDriverProxy \<Rightarrow> int" where
  "NBDDriverProxy_GetReqFd drv = m_req_fd drv"

section \<open>Reading and writing whole buffers\<close>

definition no_fail :: "io list \<Rightarrow> bool" where
  "no_fail ios \<longleftrightarrow> IO_Fail \<notin> set ios"

text \<open>One round of each loop, by the number of bytes it moves.\<close>

lemma ReadAll_step:
  assumes "0 < c" and "i + c \<le> length buff" and n: "n = min (min (Suc k) c) (length inp)"
  shows "ReadAll (IO_Upto k # ios) inp buff i c =
    ReadAll ios (drop n inp) (overwrite buff i (map Some (take n inp))) (i + n) (c - n)"
proof -
  have "take (min (Suc k) c) inp = take n inp" by (simp add: n min_def)
  moreover have "length (take n inp) = n" by (simp add: n)
  moreover have "i + n \<le> length buff" using assms by simp
  ultimately show ?thesis using assms(1) by (simp del: take_map_Some)
qed

lemma WriteAll_step:
  assumes "0 < c" and "c \<le> length buff" and n: "n = min (Suc k) c"
  shows "WriteAll (IO_Upto k # ios) buff c out =
    WriteAll ios (drop n buff) (c - n) (out @ take n buff)"
  using assms by (simp add: Let_def)

text \<open>However the kernel cuts the stream, exactly the next \<open>c\<close> bytes reach the buffer.\<close>

lemma ReadAll_complete:
  "no_fail ios \<Longrightarrow> c \<le> length ios \<Longrightarrow> c \<le> length inp \<Longrightarrow> i + c \<le> length buff \<Longrightarrow>
   \<exists>m \<le> c. ReadAll ios inp buff i c =
     Inr (drop m ios, drop c inp, overwrite buff i (map Some (take c inp)))"
proof (induction ios arbitrary: inp buff i c)
  case (Cons x ios)
  show ?case
  proof (cases "c = 0")
    case False
    from Cons.prems obtain k where x: "x = IO_Upto k" and nf: "no_fail ios"
      by (cases x) (auto simp: no_fail_def)
    define n where "n = min (Suc k) c"
    with False Cons.prems have n: "0 < n" "n \<le> c" "n = min (min (Suc k) c) (length inp)" by auto
    let ?buff = "overwrite buff i (map Some (take n inp))"
    have step: "ReadAll (x # ios) inp buff i c = ReadAll ios (drop n inp) ?buff (i + n) (c - n)"
      using False Cons.prems ReadAll_step [OF _ _ n(3)] by (simp add: x)
    have "length (take n inp) = n" using n Cons.prems by simp
    then have "c - n \<le> length ios" "c - n \<le> length (drop n inp)" "i + n + (c - n) \<le> length ?buff"
      using n Cons.prems by auto
    from Cons.IH [OF nf this] obtain m where m: "m \<le> c - n"
      "ReadAll ios (drop n inp) ?buff (i + n) (c - n) = Inr (drop m ios, drop (c - n) (drop n inp),
         overwrite ?buff (i + n) (map Some (take (c - n) (drop n inp))))" by blast
    have "overwrite ?buff (i + n) (map Some (take (c - n) (drop n inp))) =
        overwrite buff i (map Some (take n inp) @ map Some (take (c - n) (drop n inp)))"
      using n Cons.prems by (intro overwrite_append) auto
    also have "map Some (take n inp) @ map Some (take (c - n) (drop n inp)) = map Some (take c inp)"
      using n by (simp only: map_append [symmetric] take_add [symmetric]) simp
    finally have "ReadAll (x # ios) inp buff i c =
        Inr (drop (Suc m) (x # ios), drop c inp, overwrite buff i (map Some (take c inp)))"
      using step m(2) n(2) by simp
    moreover have "Suc m \<le> c" using m(1) n(1,2) by linarith
    ultimately show ?thesis by blast
  qed simp
qed simp

lemma WriteAll_complete:
  "no_fail ios \<Longrightarrow> c \<le> length ios \<Longrightarrow> c \<le> length buff \<Longrightarrow>
   \<exists>m \<le> c. WriteAll ios buff c out = Inr (drop m ios, out @ take c buff)"
proof (induction ios arbitrary: buff c out)
  case (Cons x ios)
  show ?case
  proof (cases "c = 0")
    case False
    from Cons.prems obtain k where x: "x = IO_Upto k" and nf: "no_fail ios"
      by (cases x) (auto simp: no_fail_def)
    define n where "n = min (Suc k) c"
    with False have n: "0 < n" "n \<le> c" by auto
    have step: "WriteAll (x # ios) buff c out = WriteAll ios (drop n buff) (c - n) (out @ take n buff)"
      using False Cons.prems WriteAll_step [OF _ _ n_def] by (simp add: x)
    have "c - n \<le> length ios" "c - n \<le> length (drop n buff)" using n Cons.prems by auto
    from Cons.IH [OF nf this] obtain m where m: "m \<le> c - n"
      "WriteAll ios (drop n buff) (c - n) (out @ take n buff) =
         Inr (drop m ios, (out @ take n buff) @ take (c - n) (drop n buff))" by blast
    have "take n buff @ take (c - n) (drop n buff) = take c buff"
      using n by (simp only: take_add [symmetric]) simp
    with step m n show ?thesis by (intro exI [where x = "Suc m"]) auto
  qed simp
qed simp

text \<open>At the end of the stream the loop of \<open>ReadAll\<close> never comes to an end.\<close>

lemma ReadAll_eof:
  "no_fail ios \<Longrightarrow> length inp < c \<Longrightarrow> i + c \<le> length buff \<Longrightarrow>
   ReadAll ios inp buff i c = Inl Would_Block"
proof (induction ios arbitrary: inp buff i c)
  case Nil
  then show ?case by auto
next
  case (Cons x ios)
  from Cons.prems obtain k where x: "x = IO_Upto k" and nf: "no_fail ios"
    by (cases x) (auto simp: no_fail_def)
  define n where "n = min (min (Suc k) c) (length inp)"
  let ?buff = "overwrite buff i (map Some (take n inp))"
  have "length (take n inp) = n" by (simp add: n_def)
  then have "length (drop n inp) < c - n" "i + n + (c - n) \<le> length ?buff"
    using Cons.prems by (auto simp: n_def)
  from Cons.IH [OF nf this] ReadAll_step [OF _ _ n_def] Cons.prems show ?case
    by (simp add: x)
qed

section \<open>Byte order of the whole word\<close>


lemma bit_mask_byte:
  "k \<le> 24 \<Longrightarrow> bit (push_bit k (mask 8) :: 32 word) n \<longleftrightarrow> k \<le> n \<and> n < k + 8"
  by (auto simp only: bit_push_bit_iff bit_mask_iff possible_bit_word) auto

lemma bit_byte_masks:
  "bit (0xFF::32 word) n \<longleftrightarrow> n < 8"
  "bit (0xFF00::32 word) n \<longleftrightarrow> 8 \<le> n \<and> n < 16"
  "bit (0xFF0000::32 word) n \<longleftrightarrow> 16 \<le> n \<and> n < 24"
  "bit (0xFF000000::32 word) n \<longleftrightarrow> 24 \<le> n \<and> n < 32"
  using bit_mask_byte [of 0 n] bit_mask_byte [of 8 n] bit_mask_byte [of 16 n] bit_mask_byte [of 24 n]
  by (simp_all add: mask_eq_exp_minus_1)

lemma bit_ntohl_raw: "bit (ntohl w) n \<longleftrightarrow> 
  (24 \<le> n \<and> n < 32 \<and> bit w (n - 24)) \<or> (16 \<le> n \<and> n < 24 \<and> bit w (n - 8)) \<or>
  (8 \<le> n \<and> n < 16 \<and> bit w (8 + n)) \<or> (n < 8 \<and> bit w (24 + n))"
  unfolding ntohl_def bit_or_iff bit_and_iff bit_push_bit_iff bit_drop_bit_eq comp_def bit_byte_masks possible_bit_word
  by auto

lemma bit_ntohl: "bit (ntohl w) n \<longleftrightarrow> n < 32 \<and> bit w (8 * (3 - n div 8) + n mod 8)"
proof -
  consider "n < 8" | "8 \<le> n" "n < 16" | "16 \<le> n" "n < 24" | "24 \<le> n" "n < 32" | "32 \<le> n" by linarith
  then show ?thesis
  proof cases
    case 2 
    then have "n div 8 = 1" "n mod 8 = n - 8" by (auto simp: div_nat_eqI mod_if)
    with 2 show ?thesis by (simp add: bit_ntohl_raw)
  next
    case 3 
    then have "n div 8 = 2" "n mod 8 = n - 16" by (auto simp: div_nat_eqI mod_if)
    with 3 show ?thesis by (simp add: bit_ntohl_raw)
  next
    case 4 
    then have "n div 8 = 3" "n mod 8 = n - 24" by (auto simp: div_nat_eqI mod_if)
    with 4 show ?thesis by (simp add: bit_ntohl_raw)
  qed (simp_all add: bit_ntohl_raw)
qed

lemma byte_index_le: "m < 4 \<Longrightarrow> 8 * (3 - m) + n mod 8 < (32 :: nat)"
  using mod_less_divisor [of 8 n] by linarith


lemma ucast_low_word: "(ucast (a AND 0xffffffff :: 64 word) :: 32 word) = ucast a"
proof -
  have "(0xffffffff :: 64 word) = mask 32" by (simp add: mask_eq_exp_minus_1)
  then show ?thesis by (intro bit_word_eqI) (simp only: bit_simps, auto)
qed


lemma bit_Ntohll: "bit (Ntohll a) n \<longleftrightarrow> n < 64 \<and> bit a (8 * (7 - n div 8) + n mod 8)"
proof -
  have split: "bit (Ntohll a) n \<longleftrightarrow>
      (32 \<le> n \<and> n < 64 \<and> bit (ntohl (ucast a)) (n - 32)) \<or>
      (n < 32 \<and> bit (ntohl (ucast (drop_bit 32 a))) n)"
    by (auto simp: Ntohll_def Let_def ucast_low_word bit_or_iff bit_push_bit_iff bit_ucast_iff
        dest: bit_imp_le_length)
  consider "n < 32" | "32 \<le> n" "n < 64" | "64 \<le> n" by linarith
  then show ?thesis
  proof cases
    case 1
    then have m: "n div 8 < 4" by (simp add: less_mult_imp_div_less)
    with 1 byte_index_le [OF m, of n]
    have "bit (Ntohll a) n \<longleftrightarrow> bit a (32 + (8 * (3 - n div 8) + n mod 8))"
      by (simp add: split bit_ntohl bit_ucast_iff bit_drop_bit_eq)
    also have "32 + (8 * (3 - n div 8) + n mod 8) = 8 * (7 - n div 8) + n mod 8"
      using m by simp
    finally show ?thesis using 1 by simp
  next
    case 2
    then obtain k where k: "n = 32 + k" "k < 32" by (metis le_Suc_ex nat_add_left_cancel_less numeral_Bit0)
    have m: "k div 8 < 4" using k by (simp add: less_mult_imp_div_less)
    have e: "(32 + k) div 8 = 4 + k div 8" "(32 + k) mod 8 = k mod 8"
      using div_mult_self1 [of 8 k 4] mod_mult_self1 [of k 4 8] by (simp_all add: add.commute)
    from split k have "bit (Ntohll a) n \<longleftrightarrow> bit (ntohl (ucast a)) k" by simp
    also have "\<dots> \<longleftrightarrow> bit a (8 * (3 - k div 8) + k mod 8)"
      using k(2) byte_index_le [OF m, of k] by (simp add: bit_ntohl bit_ucast_iff)
    also have "8 * (3 - k div 8) + k mod 8 = 8 * (7 - n div 8) + n mod 8"
      using m by (simp add: k(1) e)
    finally show ?thesis using 2 by simp
  next
    case 3
    then show ?thesis by (simp add: split)
  qed
qed

lemma Ntohll_involution: "Ntohll (Ntohll a) = a"
proof (rule bit_word_eqI)
  fix n assume "n < LENGTH(64)"
  then have n: "n < 64" "n div 8 < 8" by (simp_all add: less_mult_imp_div_less)
  let ?m = "8 * (7 - n div 8) + n mod 8"
  have "?m < 64" "?m div 8 = 7 - n div 8" "?m mod 8 = n mod 8" using n mod_less_divisor [of 8 n] by (linarith, simp, simp)
  moreover have "8 * (7 - (7 - n div 8)) + n mod 8 = n" using n by simp
  ultimately show "bit (Ntohll (Ntohll a)) n = bit a n" using n by (simp only: bit_Ntohll) simp
qed

section \<open>Requests and replies on the socket\<close>

text \<open>
  The bytes of one request: a structure with the right magic number whose first \<open>read\<close> transfers
  all of it.
\<close>

definition request_bytes :: "nbd_abi \<Rightarrow> byte list \<Rightarrow> bool" where
  "request_bytes abi hdr \<longleftrightarrow>
     length hdr = sizeof_request abi \<and> length (rq_handle (parse_request abi hdr)) = HANDLE_SIZE \<and>
     rq_magic (parse_request abi hdr) = htonl (NBD_REQUEST_MAGIC abi)"

definition distinct_commands :: "nbd_abi \<Rightarrow> bool" where
  "distinct_commands abi \<longleftrightarrow>
     distinct [NBD_CMD_READ abi, NBD_CMD_WRITE abi, NBD_CMD_DISC abi, NBD_CMD_FLUSH abi, NBD_CMD_TRIM abi]"

lemma ReceiveRequest_header:
  assumes "request_bytes abi hdr" and "sizeof_request abi \<le> Suc k"
  shows "take (min (Suc k) (sizeof_request abi)) (hdr @ inp) = hdr"
    and "drop (length hdr) (hdr @ inp) = inp"
    and "hdr @ replicate (sizeof_request abi - length hdr) 0 = hdr"
    and "mem_cpy (m_handler new_DriverData) 0 (map Some (rq_handle (parse_request abi hdr))) HANDLE_SIZE =
      Inr (map Some (rq_handle (parse_request abi hdr)))"
  using assms by (simp_all add: request_bytes_def overwrite_def HANDLE_SIZE_def)

lemma ReceiveRequest_read:
  assumes "request_bytes abi hdr" and "sizeof_request abi \<le> Suc k"
    and "ntohl (rq_type (parse_request abi hdr)) = NBD_CMD_READ abi"
  shows "NBDDriverProxy_ReceiveRequest abi (IO_Upto k # ios) (hdr @ inp) =
    Inr (new_DriverData\<lparr>m_handler := map Some (rq_handle (parse_request abi hdr)), m_status := Some 0,
           m_offset := Some (Ntohll (rq_from (parse_request abi hdr))),
           m_len := Some (ntohl (rq_len (parse_request abi hdr))), m_key := Some READ\<rparr>, ios, inp)"
  using assms(1,3) ReceiveRequest_header [OF assms(1,2)]
  by (simp add: NBDDriverProxy_ReceiveRequest_def Let_def request_bytes_def)
     (simp add: ntohl_def)

text \<open>A write: after the structure, its payload reaches the buffer whole and the stream goes on behind it.\<close>

lemma ReceiveRequest_write:
  assumes abi: "request_bytes abi hdr" "sizeof_request abi \<le> Suc k" "distinct_commands abi"
    and t: "ntohl (rq_type (parse_request abi hdr)) = NBD_CMD_WRITE abi"
    and n: "n = unat (ntohl (rq_len (parse_request abi hdr)))"
    and inp: "length body = n" and ios: "no_fail ios" "n \<le> length ios"
  shows "\<exists>m \<le> n. NBDDriverProxy_ReceiveRequest abi (IO_Upto k # ios) (hdr @ body @ inp) =
    Inr (new_DriverData\<lparr>m_handler := map Some (rq_handle (parse_request abi hdr)), m_status := Some 0,
           m_offset := Some (Ntohll (rq_from (parse_request abi hdr))),
           m_len := Some (ntohl (rq_len (parse_request abi hdr))), m_key := Some WRITE,
           m_buff := \<lparr>vsize = 0, vmem = map Some body\<rparr>\<rparr>, drop m ios, inp)"
proof -
  have "NBD_CMD_WRITE abi \<noteq> NBD_CMD_READ abi" using abi(3) by (auto simp: distinct_commands_def)
  moreover obtain m where "m \<le> n" "ReadAll ios (body @ inp) (replicate n None) 0 n =
      Inr (drop m ios, inp, map Some body)"
    using ReadAll_complete [OF ios, of "body @ inp" 0 "replicate n None"] inp
    by (auto simp: overwrite_def)
  moreover have "ntohl 0 = 0" by (simp add: ntohl_def)
  ultimately show ?thesis
    using abi(1) t n ReceiveRequest_header [OF abi(1,2)]
    by (intro exI [where x = m])
       (simp add: NBDDriverProxy_ReceiveRequest_def Let_def request_bytes_def)
qed

text \<open>
  The structure cut by the first \<open>read\<close>: what the loop consumes is at most the length that it takes for the
  payload, and a layout with the length in network byte order gives no greater length for the cut structure.
\<close>

definition cut_shortens :: "nbd_abi \<Rightarrow> bool" where
  "cut_shortens abi \<longleftrightarrow> (\<forall>hdr j. length hdr = sizeof_request abi \<longrightarrow> j \<le> length hdr \<longrightarrow>
     unat (ntohl (rq_len (parse_request abi (take j hdr @ replicate (sizeof_request abi - j) 0)))) \<le>
     unat (ntohl (rq_len (parse_request abi hdr))))"

lemma ReadAll_consumes: "ReadAll ios inp buff i cnt = Inr (ios', inp', buff') \<Longrightarrow> length inp \<le> length inp' + cnt"
proof (induction ios arbitrary: inp buff i cnt)
  case (Cons x ios)
  show ?case
  proof (cases "0 < cnt")
    case True
    with Cons.prems obtain k where x: "x = IO_Upto k" by (cases x) auto
    let ?chunk = "take (min (Suc k) cnt) inp"
    from True Cons.prems x obtain buff1 where
      "ReadAll ios (drop (length ?chunk) inp) buff1 (i + length ?chunk) (cnt - length ?chunk) = Inr (ios', inp', buff')"
      by (auto simp: Let_def bindE_Inr_iff)
    from Cons.IH [OF this] True show ?thesis by simp
  qed (use Cons.prems in auto)
qed (auto split: if_splits)

lemma ReceiveRequest_cut:
  assumes abi: "request_bytes abi hdr" "Suc k < sizeof_request abi" "cut_shortens abi"
    and body: "length body = unat (ntohl (rq_len (parse_request abi hdr)))"
    and run: "NBDDriverProxy_ReceiveRequest abi (IO_Upto k # ios) (hdr @ body @ inp) = Inr (d, ios', rest)"
  shows "length inp < length rest"
proof -
  have hdr: "length hdr = sizeof_request abi" using abi(1) by (simp add: request_bytes_def)
  let ?cut = "take (Suc k) hdr @ replicate (sizeof_request abi - Suc k) 0" and ?left = "drop (Suc k) hdr @ body @ inp"
  have chunk: "take (min (Suc k) (sizeof_request abi)) (hdr @ body @ inp) = take (Suc k) hdr"
    "drop (length (take (Suc k) hdr)) (hdr @ body @ inp) = ?left"
    "hdr @ body @ inp \<noteq> []"
    using hdr abi(2) by (auto simp: min_def)
  have len: "unat (ntohl (rq_len (parse_request abi ?cut))) \<le> length body"
    using abi(2,3) hdr body by (auto simp: cut_shortens_def)
  from run have "rest = ?left \<or> (\<exists>ios1 buff mem. ReadAll ios1 ?left buff 0 (unat (ntohl (rq_len (parse_request abi ?cut)))) =
      Inr (ios', rest, mem))"
    using hdr abi(2) unfolding NBDDriverProxy_ReceiveRequest_def list.case io.case Let_def chunk
    by (auto simp: bindE_Inr_iff split: if_splits)
  then show ?thesis
  proof
    assume "rest = ?left"
    then show ?thesis using hdr abi(2) by simp
  next
    assume "\<exists>ios1 buff mem. ReadAll ios1 ?left buff 0 (unat (ntohl (rq_len (parse_request abi ?cut)))) = Inr (ios', rest, mem)"
    then have "length ?left \<le> length rest + unat (ntohl (rq_len (parse_request abi ?cut)))"
      using ReadAll_consumes by blast
    with len hdr abi(2) show ?thesis by simp
  qed
qed

text \<open>A reply: the structure, then for a read the first \<open>m_len\<close> cells of the buffer.\<close>

lemma SendReply_stream:
  assumes key: "m_key data = Some key"
    and body: "body = (if key = READ then take (unat len) (vmem (m_buff data)) else [])"
    and len: "key = READ \<Longrightarrow> m_len data = Some len \<and> unat len \<le> length (vmem (m_buff data))"
    and reply: "reply = reply_cells abi (InitReaply abi (m_status data) (m_handler data))"
    and ios: "no_fail ios" "length reply + length body \<le> length ios"
  shows "\<exists>ios'. NBDDriverProxy_SendReply abi ios out data = Inr (ios', out @ reply @ body)"
proof -
  obtain m where m: "m \<le> length reply"
    "WriteAll ios reply (length reply) out = Inr (drop m ios, out @ reply)"
    using WriteAll_complete [OF ios(1), of "length reply" reply out] ios(2) by auto
  show ?thesis
  proof (cases "key = READ")
    case True
    have "no_fail (drop m ios)" using ios(1) by (auto simp: no_fail_def dest: in_set_dropD)
    moreover have "unat len \<le> length (drop m ios)" "unat len \<le> length (vmem (m_buff data))"
      using m(1) ios(2) len body True by auto
    ultimately obtain j where "WriteAll (drop m ios) (vmem (m_buff data)) (unat len) (out @ reply) =
        Inr (drop j (drop m ios), (out @ reply) @ take (unat len) (vmem (m_buff data)))"
      using WriteAll_complete by blast
    with m key len body reply True show ?thesis by (simp add: NBDDriverProxy_SendReply_def Let_def)
  next
    case False
    with m key body reply show ?thesis by (simp add: NBDDriverProxy_SendReply_def Let_def)
  qed
qed

section \<open>Properties\<close>

text \<open>
  An instance of the parameter for the witnesses: the packed layout of the protocol with the usual
  numbers of the commands.
\<close>

definition le_nat :: "byte list \<Rightarrow> nat" where
  "le_nat bs = foldr (\<lambda>b n. unat b + 256 * n) bs 0"

definition le_bytes :: "nat \<Rightarrow> nat \<Rightarrow> byte list" where
  "le_bytes k n = map (\<lambda>i. word_of_nat (n div 256 ^ i)) [0..<k]"

definition packed_abi :: nbd_abi where
  "packed_abi =
     \<lparr>sizeof_request = 28,
      parse_request = (\<lambda>bs. \<lparr>rq_magic = word_of_nat (le_nat (take 4 bs)),
        rq_type = word_of_nat (le_nat (take 4 (drop 4 bs))), rq_handle = take 8 (drop 8 bs),
        rq_from = word_of_nat (le_nat (take 8 (drop 16 bs))),
        rq_len = word_of_nat (le_nat (take 4 (drop 24 bs)))\<rparr>),
      reply_cells = (\<lambda>r. map Some (le_bytes 4 (unat (rp_magic r))) @
        (case rp_error r of None \<Rightarrow> replicate 4 None | Some e \<Rightarrow> map Some (le_bytes 4 (unat e))) @
        rp_handle r),
      NBD_REQUEST_MAGIC = 0x25609513, NBD_REPLY_MAGIC = 0x67446698,
      NBD_CMD_READ = 0, NBD_CMD_WRITE = 1, NBD_CMD_DISC = 2, NBD_CMD_FLUSH = 3, NBD_CMD_TRIM = 4\<rparr>"

text \<open>A request with the given command, of 3 bytes at offset 512.\<close>

definition packed_request :: "byte \<Rightarrow> byte list" where
  "packed_request t =
     [0x25, 0x60, 0x95, 0x13, 0, 0, 0, t, 1, 2, 3, 4, 5, 6, 7, 8, 0, 0, 0, 0, 0, 0, 2, 0, 0, 0, 0, 3]"

lemma packed_request_ok: "request_bytes packed_abi (packed_request t)"
  by (simp add: request_bytes_def packed_abi_def packed_request_def HANDLE_SIZE_def le_nat_def
      ntohl_def)

lemma packed_abi_commands: "distinct_commands packed_abi"
  by (simp add: distinct_commands_def packed_abi_def)

text \<open>The layout keeps the length in network byte order: zeros for its last bytes make it no greater.\<close>

lemma le_nat_simps [simp]: "le_nat [] = 0" "le_nat (b # bs) = unat b + 256 * le_nat bs"
  by (simp_all add: le_nat_def)

lemma le_nat_zeros [simp]: "le_nat (replicate n 0) = 0"
  by (induction n) simp_all

lemma le_nat_cut: "j \<le> length bs \<Longrightarrow> le_nat (take j bs @ replicate r 0) = le_nat bs mod 256 ^ j"
proof (induction bs arbitrary: j)
  case (Cons b bs)
  show ?case
  proof (cases j)
    case (Suc i)
    have "unat b < 256" using unsigned_less [of b, where 'a = nat] by simp
    then have "(unat b + 256 * le_nat bs) mod (256 * 256 ^ i) = unat b + 256 * (le_nat bs mod 256 ^ i)"
      by (simp add: mod_mult2_eq)
    with Cons Suc show ?thesis by simp
  qed simp
qed simp

lemma ntohl_take_bit_le: "ntohl (take_bit n w) \<le> ntohl w"
proof -
  have "ntohl (take_bit n w) = ntohl (take_bit n w) AND ntohl w"
  proof (rule bit_word_eqI)
    fix i assume "i < LENGTH(32)"
    then show "bit (ntohl (take_bit n w)) i = bit (ntohl (take_bit n w) AND ntohl w) i"
      by (simp only: bit_and_iff bit_ntohl bit_take_bit_iff) blast
  qed
  then show ?thesis by (metis word_and_le1)
qed

lemma packed_abi_cut: "cut_shortens packed_abi"
  unfolding cut_shortens_def
proof (intro allI impI)
  fix hdr :: "byte list" and j assume hdr: "length hdr = sizeof_request packed_abi" and "j \<le> length hdr"
  let ?bs = "take 4 (drop 24 hdr)" and ?i = "j - 24"
  have "take 4 (drop 24 (take j hdr @ replicate (28 - j) 0)) = take ?i ?bs @ replicate (28 - max j 24) 0"
  proof (cases "j \<le> 24")
    case True
    with hdr show ?thesis by (simp add: packed_abi_def max_absorb2)
  next
    case False
    then have "drop 24 (take j hdr) = take ?i (drop 24 hdr)" "length (take ?i (drop 24 hdr)) + (28 - j) = 4" "?i \<le> 4"
      using hdr \<open>j \<le> length hdr\<close> by (simp_all add: drop_take packed_abi_def)
    with False hdr \<open>j \<le> length hdr\<close> show ?thesis by (simp add: packed_abi_def max_absorb1 min_absorb1)
  qed
  moreover have "?i \<le> length ?bs" using hdr \<open>j \<le> length hdr\<close> by (simp add: packed_abi_def)
  moreover have len: "rq_len (parse_request packed_abi bs) = word_of_nat (le_nat (take 4 (drop 24 bs)))" for bs
    by (simp add: packed_abi_def)
  ultimately have "rq_len (parse_request packed_abi (take j hdr @ replicate (28 - j) 0)) =
      word_of_nat (le_nat ?bs mod 256 ^ ?i)"
    by (simp only: le_nat_cut)
  also have "le_nat ?bs mod 256 ^ ?i = take_bit (8 * ?i) (le_nat ?bs)" by (simp add: take_bit_eq_mod power_mult)
  also have "word_of_nat \<dots> = take_bit (8 * ?i) (rq_len (parse_request packed_abi hdr))"
    by (simp only: len take_bit_of_nat)
  finally show "unat (ntohl (rq_len (parse_request packed_abi (take j hdr @ replicate (sizeof_request packed_abi - j) 0)))) \<le>
      unat (ntohl (rq_len (parse_request packed_abi hdr)))"
    using ntohl_take_bit_le [of "8 * ?i" "rq_len (parse_request packed_abi hdr)"]
    by (simp add: packed_abi_def word_le_nat_alt)
qed

text \<open>
  C11: a write request of the kernel.  When the first \<open>read\<close> gets the whole structure the driver reads
  exactly the bytes of the request, however its payload is cut by the socket, and leaves the stream at the next one, and the data
  it returns has the handle, the offset and the length of the request and the payload in its buffer.  When the
  first \<open>read\<close> gets only a part of the structure, the driver takes the rest of the structure for zeros: whatever it
  returns then, it has not reached the end of the request, so that the next request is read from the middle of this one.
\<close>

theorem NBD_write_request:
  assumes "request_bytes abi hdr" and "distinct_commands abi" and "cut_shortens abi"
    and "ntohl (rq_type (parse_request abi hdr)) = NBD_CMD_WRITE abi"
    and "n = unat (ntohl (rq_len (parse_request abi hdr)))" and "length body = n"
    and "no_fail ios" and "n \<le> length ios"
  shows "(sizeof_request abi \<le> Suc k \<longrightarrow>
      (\<exists>m \<le> n. NBDDriverProxy_ReceiveRequest abi (IO_Upto k # ios) (hdr @ body @ inp) =
        Inr (new_DriverData\<lparr>m_handler := map Some (rq_handle (parse_request abi hdr)), m_status := Some 0,
               m_offset := Some (Ntohll (rq_from (parse_request abi hdr))),
               m_len := Some (ntohl (rq_len (parse_request abi hdr))), m_key := Some WRITE,
               m_buff := \<lparr>vsize = 0, vmem = map Some body\<rparr>\<rparr>, drop m ios, inp))) \<and>
    (Suc k < sizeof_request abi \<longrightarrow>
      (\<forall>d ios' rest. NBDDriverProxy_ReceiveRequest abi (IO_Upto k # ios) (hdr @ body @ inp) = Inr (d, ios', rest) \<longrightarrow>
        length inp < length rest))"
  using ReceiveRequest_write [OF assms(1) _ assms(2,4,5,6,7,8)] ReceiveRequest_cut [OF assms(1) _ assms(3) _ ] assms(5,6)
  by auto

lemma not_isl_triple: "\<not> isl r \<Longrightarrow> \<exists>a b c. r = Inr (a, b, c)"
  by (cases r) auto

text \<open>A request of 3 bytes with the next byte of the stream behind it, once whole and once cut before its last byte.\<close>

theorem NBD_write_request_witness:
  "(\<exists>m \<le> 3. NBDDriverProxy_ReceiveRequest packed_abi (IO_Upto 99 # [IO_Upto 0, IO_Upto 1, IO_Upto 5])
      (packed_request 1 @ [10, 11, 12] @ [13]) =
    Inr (new_DriverData\<lparr>m_handler := map Some (rq_handle (parse_request packed_abi (packed_request 1))),
           m_status := Some 0,
           m_offset := Some (Ntohll (rq_from (parse_request packed_abi (packed_request 1)))),
           m_len := Some (ntohl (rq_len (parse_request packed_abi (packed_request 1)))),
           m_key := Some WRITE, m_buff := \<lparr>vsize = 0, vmem = map Some [10, 11, 12]\<rparr>\<rparr>,
         drop m [IO_Upto 0, IO_Upto 1, IO_Upto 5], [13])) \<and>
   (\<exists>d ios' rest. NBDDriverProxy_ReceiveRequest packed_abi (IO_Upto 26 # [IO_Upto 0, IO_Upto 1, IO_Upto 5])
      (packed_request 1 @ [10, 11, 12] @ [13]) = Inr (d, ios', rest) \<and> length [13::byte] < length rest)"
proof -
  have abi: "ntohl (rq_type (parse_request packed_abi (packed_request 1))) = NBD_CMD_WRITE packed_abi"
    "3 = unat (ntohl (rq_len (parse_request packed_abi (packed_request 1))))" "sizeof_request packed_abi = 28"
    by (simp_all add: packed_abi_def packed_request_def le_nat_def ntohl_def)
  note both = NBD_write_request [OF packed_request_ok packed_abi_commands packed_abi_cut abi(1,2), of "[10, 11, 12]"
      "[IO_Upto 0, IO_Upto 1, IO_Upto 5]", where inp = "[13]", unfolded abi(3)]
  have "\<not> isl (NBDDriverProxy_ReceiveRequest packed_abi (IO_Upto 26 # [IO_Upto 0, IO_Upto 1, IO_Upto 5])
      (packed_request 1 @ [10, 11, 12] @ [13]))"
    by (simp add: NBDDriverProxy_ReceiveRequest_def packed_abi_def packed_request_def ntohl_def Let_def
        mem_cpy_def HANDLE_SIZE_def vec_reserve_def)
  then have "\<exists>d ios' rest. NBDDriverProxy_ReceiveRequest packed_abi (IO_Upto 26 # [IO_Upto 0, IO_Upto 1, IO_Upto 5])
      (packed_request 1 @ [10, 11, 12] @ [13]) = Inr (d, ios', rest)" by (rule not_isl_triple)
  with both [where k = 26] both [where k = 99] show ?thesis by (simp add: no_fail_def) blast
qed

text \<open>
  The commands without a payload: the data the driver returns has the key of the command
  (unknown numbers give \<open>BAD_REQUEST\<close>), the handle and the status 0, and offset and length exactly
  for a read.
\<close>

theorem NBD_other_requests:
  assumes "request_bytes abi hdr" and "sizeof_request abi \<le> Suc k"
    and "t = ntohl (rq_type (parse_request abi hdr))" and "t \<noteq> NBD_CMD_WRITE abi"
    and "d = new_DriverData\<lparr>m_handler := map Some (rq_handle (parse_request abi hdr)), m_status := Some 0\<rparr>"
  shows "NBDDriverProxy_ReceiveRequest abi (IO_Upto k # ios) (hdr @ inp) =
    Inr (if t = NBD_CMD_READ abi
         then d\<lparr>m_offset := Some (Ntohll (rq_from (parse_request abi hdr))),
                m_len := Some (ntohl (rq_len (parse_request abi hdr))), m_key := Some READ\<rparr>
         else d\<lparr>m_key := Some (if t = NBD_CMD_DISC abi then DISCONNECT
                else if t = NBD_CMD_FLUSH abi then FLUSH
                else if t = NBD_CMD_TRIM abi then TRIM else BAD_REQUEST)\<rparr>, ios, inp)"
proof -
  have "ntohl 0 = 0" by (simp add: ntohl_def)
  with assms(1,3,4,5) ReceiveRequest_header [OF assms(1,2)] show ?thesis
    by (simp add: NBDDriverProxy_ReceiveRequest_def Let_def request_bytes_def)
qed

theorem NBD_other_requests_witness:
  "NBDDriverProxy_ReceiveRequest packed_abi [IO_Upto 99] (packed_request 9 @ [13]) =
    Inr (new_DriverData\<lparr>m_handler := map Some [1, 2, 3, 4, 5, 6, 7, 8], m_status := Some 0,
           m_key := Some BAD_REQUEST\<rparr>, [], [13])"
  using NBD_other_requests [OF packed_request_ok [of 9] _ refl _ refl, of 99 "[]" "[13]"]
  by (simp add: packed_abi_def packed_request_def le_nat_def ntohl_def)

text \<open>
  C20: when the kernel closes the socket inside the payload of a write, the driver never returns
  from \<open>ReceiveRequest\<close>, neither with a request nor with an error, whatever the schedule.
\<close>

theorem NBD_write_request_cut:
  assumes "request_bytes abi hdr" and "sizeof_request abi \<le> Suc k" and "distinct_commands abi"
    and "ntohl (rq_type (parse_request abi hdr)) = NBD_CMD_WRITE abi"
    and "length body < unat (ntohl (rq_len (parse_request abi hdr)))" and "no_fail ios"
  shows "NBDDriverProxy_ReceiveRequest abi (IO_Upto k # ios) (hdr @ body) = Inl Would_Block"
proof -
  let ?n = "unat (ntohl (rq_len (parse_request abi hdr)))"
  have "NBD_CMD_WRITE abi \<noteq> NBD_CMD_READ abi" using assms(3) by (auto simp: distinct_commands_def)
  moreover have "ReadAll ios body (replicate ?n None) 0 ?n = Inl Would_Block"
    using assms(5,6) by (intro ReadAll_eof) simp_all
  ultimately show ?thesis
    using assms(1,4) ReceiveRequest_header [OF assms(1,2)]
    by (simp add: NBDDriverProxy_ReceiveRequest_def Let_def request_bytes_def)
qed

theorem NBD_write_request_cut_witness:
  "NBDDriverProxy_ReceiveRequest packed_abi (IO_Upto 99 # replicate 50 (IO_Upto 7))
     (packed_request 1 @ [10, 11]) = Inl Would_Block"
  by (rule NBD_write_request_cut [OF packed_request_ok _ packed_abi_commands])
     (simp_all add: packed_abi_def packed_request_def le_nat_def ntohl_def no_fail_def)

text \<open>
  The reply to the kernel is the structure with the handle and the status of the data, and for
  a read exactly the first \<open>m_len\<close> cells of the buffer behind it, however the socket cuts the stream.
\<close>

theorem NBD_reply_stream:
  assumes "m_key data = Some key"
    and "body = (if key = READ then take (unat len) (vmem (m_buff data)) else [])"
    and "key = READ \<Longrightarrow> m_len data = Some len \<and> unat len \<le> length (vmem (m_buff data))"
    and "reply = reply_cells abi (InitReaply abi (m_status data) (m_handler data))"
    and "no_fail ios" and "length reply + length body \<le> length ios"
  shows "\<exists>ios'. NBDDriverProxy_SendReply abi ios out data = Inr (ios', out @ reply @ body)"
  using assms by (rule SendReply_stream)

theorem NBD_reply_stream_witness:
  "\<exists>ios'. NBDDriverProxy_SendReply packed_abi (replicate 20 (IO_Upto 2)) []
      (new_DriverData\<lparr>m_key := Some READ, m_len := Some 2, m_status := Some 0,
         m_buff := \<lparr>vsize = 0, vmem = map Some [7, 8, 9]\<rparr>\<rparr>) =
    Inr (ios', [] @ (map Some [0x67, 0x44, 0x66, 0x98, 0, 0, 0, 0] @ replicate 8 None) @ map Some [7, 8])"
  by (rule NBD_reply_stream [where key = READ and len = 2])
     (simp_all add: packed_abi_def InitReaply_def le_bytes_def ntohl_def HANDLE_SIZE_def no_fail_def upt_rec)

text \<open>
  \<open>Ntohll\<close> reverses the order of the eight bytes, so that applying it twice gives the number
  back.
\<close>

theorem Ntohll_reverses_bytes:
  "(\<forall>n. bit (Ntohll a) n = (n < 64 \<and> bit a (8 * (7 - n div 8) + n mod 8))) \<and> Ntohll (Ntohll a) = a"
  by (simp add: bit_Ntohll Ntohll_involution)

text \<open>
  A driver built by the constructor sets up the device with blocks of 1024 bytes, as many as
  fit the storage; it is disconnected once: the destructor does what \<open>Disconnect\<close> does, and nothing
  after it.
\<close>

theorem NBD_disconnected_once:
  assumes "NBDDriverProxy_ctor ioctl socket_pair fd storage_size = Inr (drv, setup)"
    and "ioctl (NBD_DISCONNECT fd)"
  shows "\<exists>drv' req nbd. socket_pair = Some (req, nbd) \<and>
    setup = [NBD_SET_BLKSIZE fd 1024, NBD_SET_SIZE_BLOCKS fd (storage_size div 1024), NBD_CLEAR_SOCK fd] \<and>
    NBDDriverProxy_Disconnect ioctl drv =
      Inr (drv', [NBD_DISCONNECT fd, Close req, Close nbd, Join, Close fd]) \<and>
    NBDDriverProxy_dtor ioctl drv = NBDDriverProxy_Disconnect ioctl drv \<and>
    NBDDriverProxy_dtor ioctl drv' = Inr (drv', [])"
  using assms
  by (cases socket_pair)
     (auto simp: NBDDriverProxy_ctor_def NBDDriverProxy_ctor_blocks_def InitSockets_def InitDevice_def
       DEFAULT_NUM_BLOCKS_def Ioctl_def bindE_Inr_iff NBDDriverProxy_Disconnect_def
       NBDDriverProxy_dtor_def split: if_splits)

theorem NBD_disconnected_once_witness:
  "\<exists>drv' req nbd. Some (5, 6) = Some (req, nbd) \<and>
    [NBD_SET_BLKSIZE 7 1024, NBD_SET_SIZE_BLOCKS 7 2, NBD_CLEAR_SOCK 7] =
      [NBD_SET_BLKSIZE 7 1024, NBD_SET_SIZE_BLOCKS 7 (3000 div 1024), NBD_CLEAR_SOCK 7] \<and>
    NBDDriverProxy_Disconnect (\<lambda>c. True) \<lparr>m_req_fd = 5, m_nbd_fd = 6, m_file_fd = 7, m_connected = ON\<rparr> =
      Inr (drv', [NBD_DISCONNECT 7, Close req, Close nbd, Join, Close 7]) \<and>
    NBDDriverProxy_dtor (\<lambda>c. True) \<lparr>m_req_fd = 5, m_nbd_fd = 6, m_file_fd = 7, m_connected = ON\<rparr> =
      NBDDriverProxy_Disconnect (\<lambda>c. True) \<lparr>m_req_fd = 5, m_nbd_fd = 6, m_file_fd = 7, m_connected = ON\<rparr> \<and>
    NBDDriverProxy_dtor (\<lambda>c. True) drv' = Inr (drv', [])"
  by (rule NBD_disconnected_once)
     (simp_all add: NBDDriverProxy_ctor_def NBDDriverProxy_ctor_blocks_def InitSockets_def
       InitDevice_def DEFAULT_NUM_BLOCKS_def Ioctl_def)

end
