(* ===== verification/Factory.thy ===== *)
theory Factory
  imports GC_Prelude
begin

text \<open>
  The factory (factory.hpp): a map from keys to creator functions.  A creator takes the arguments
  and gives the new object; \<open>Create\<close> throws \<open>Badkey\<close> for a key that was never added.
\<close>

datatype FactoryAddStatus = NEW | UPDATED

definition FactoryAddStatus_of_count :: "nat \<Rightarrow> FactoryAddStatus" where
  "FactoryAddStatus_of_count n = (if n = 0 then NEW else UPDATED)"

type_synonym ('key, 'args, 'base) factory = "('key \<times> ('args \<Rightarrow> 'base)) list"

text \<open>\<open>m_umap.count(key)\<close>, \<open>m_umap[key] = func\<close> and \<open>m_umap.find(key)\<close>.\<close>

definition umap_count :: "('k \<times> 'v) list \<Rightarrow> 'k \<Rightarrow> nat" where
  "umap_count m k = length (filter (\<lambda>kv. fst kv = k) m)"

fun umap_assign :: "('k \<times> 'v) list \<Rightarrow> 'k \<Rightarrow> 'v \<Rightarrow> ('k \<times> 'v) list" where
  "umap_assign [] k v = [(k, v)]"
| "umap_assign ((k', v') # m) k v = (if k' = k then (k, v) # m else (k', v') # umap_assign m k v)"

definition Factory_Add ::
  "('key, 'args, 'base) factory \<Rightarrow> 'key \<Rightarrow> ('args \<Rightarrow> 'base) \<Rightarrow>
   FactoryAddStatus \<times> ('key, 'args, 'base) factory" where
  "Factory_Add m_umap key func =
     (let ret = FactoryAddStatus_of_count (umap_count m_umap key)
      in (ret, umap_assign m_umap key func))"

definition Factory_Create :: "('key, 'args, 'base) factory \<Rightarrow> 'key \<Rightarrow> 'args \<Rightarrow> 'base res" where
  "Factory_Create m_umap key args =
     (case map_of m_umap key of None \<Rightarrow> Inl Badkey | Some creator \<Rightarrow> Inr (creator args))"

definition factory_ok :: "('key, 'args, 'base) factory \<Rightarrow> bool" where
  "factory_ok m \<longleftrightarrow> distinct (map fst m)"

lemma map_of_umap_assign [simp]: "map_of (umap_assign m k v) = (map_of m)(k \<mapsto> v)"
  by (induction m k v rule: umap_assign.induct) (auto simp: fun_eq_iff)

lemma fst_umap_assign: "fst ` set (umap_assign m k v) = insert k (fst ` set m)"
  by (induction m k v rule: umap_assign.induct) auto

lemma factory_ok_Add [simp]: "factory_ok m \<Longrightarrow> factory_ok (snd (Factory_Add m k f))"
proof (induction m)
  case (Cons x m)
  then show ?case
    using fst_umap_assign [of m k f]
    by (cases x) (auto simp: factory_ok_def Factory_Add_def Let_def)
qed (simp add: factory_ok_def Factory_Add_def Let_def)

lemma Factory_Add_status: "fst (Factory_Add m k f) = (if map_of m k = None then NEW else UPDATED)"
  by (auto simp: Factory_Add_def Let_def FactoryAddStatus_of_count_def umap_count_def
      map_of_eq_None_iff filter_empty_conv)

lemma Factory_Create_Add:
  "Factory_Create (snd (Factory_Add m k f)) k' args =
     (if k' = k then Inr (f args) else Factory_Create m k' args)"
  by (simp add: Factory_Add_def Factory_Create_def Let_def)

text \<open>Adding a list of creators, as the programs do at start-up.\<close>

definition add_creators ::
  "('key \<times> ('args \<Rightarrow> 'base)) list \<Rightarrow> ('key, 'args, 'base) factory \<Rightarrow> ('key, 'args, 'base) factory"
where
  "add_creators kfs m = fold (\<lambda>(k, f) m. snd (Factory_Add m k f)) kfs m"

section \<open>What the users of a registry rely on\<close>

locale registry =
  fixes add :: "'f \<Rightarrow> 'k \<Rightarrow> 'c \<Rightarrow> 'f"
    and create :: "'f \<Rightarrow> 'k \<Rightarrow> 'a \<Rightarrow> 'b res"
    and run :: "'c \<Rightarrow> 'a \<Rightarrow> 'b"
  assumes create_add: "create (add m k c) k' args = (if k' = k then Inr (run c args) else create m k' args)"

context registry
begin

text \<open>The last creator added for a key is the one that is used; other keys are not affected.\<close>

lemma create_added:
  "create (fold (\<lambda>(k, c) m. add m k c) kcs m) k args =
     (case map_of (rev kcs) k of None \<Rightarrow> create m k args | Some c \<Rightarrow> Inr (run c args))"
proof (induction kcs arbitrary: m)
  case (Cons kc kcs)
  then show ?case
    by (cases kc) (auto simp: create_add map_add_def split: option.splits)
qed simp

end

interpretation factory: registry "\<lambda>m k f. snd (Factory_Add m k f)" Factory_Create "\<lambda>f. f"
  by unfold_locales (rule Factory_Create_Add)

section \<open>Properties\<close>

text \<open>
  A factory uses, for every key, the creator that was added last for it, and throws \<open>Badkey\<close> for
  a key that was never added; adding reports \<open>UPDATED\<close> exactly when the key was there before.
\<close>

theorem factory_creates_what_was_added:
  "Factory_Create (fold (\<lambda>(k, f) m. snd (Factory_Add m k f)) kfs []) key args =
     (case map_of (rev kfs) key of None \<Rightarrow> Inl Badkey | Some f \<Rightarrow> Inr (f args)) \<and>
   fst (Factory_Add (fold (\<lambda>(k, f) m. snd (Factory_Add m k f)) kfs []) key func) =
     (if key \<in> fst ` set kfs then UPDATED else NEW)"
proof
  let ?m = "fold (\<lambda>(k, f) m. snd (Factory_Add m k f)) kfs []"
  show create: "Factory_Create ?m key args =
      (case map_of (rev kfs) key of None \<Rightarrow> Inl Badkey | Some f \<Rightarrow> Inr (f args))" for args
    using factory.create_added [of kfs "[]" key args]
    by (simp only: Factory_Create_def map_of.simps option.case)
  have "map_of ?m key = None \<longleftrightarrow> map_of (rev kfs) key = None"
    using create [of args] by (auto simp: Factory_Create_def split: option.splits)
  then show "fst (Factory_Add ?m key func) = (if key \<in> fst ` set kfs then UPDATED else NEW)"
    by (auto simp: Factory_Add_status map_of_eq_None_iff)
qed

end
