(* ===== verification/Tasks.thy ===== *)
theory Tasks
  imports Slave_Gateway Nbd_Driver_Proxy Slave_Driver_Proxy Mmap_Storage Factory
begin

text \<open>
  The tasks of the master (nbd_tasks.hpp, stdin_tasks.hpp) and of a slave (slave_tasks.hpp), with
  the tables of creators that the two programs register (release/greencloud.0.5.cpp and
  release/slave.cpp).  A task runs on the driver and the storage its \<open>TaskInfo\<close> shares, which are
  the components of the state here.
\<close>

section \<open>The master\<close>

datatype master_task =
    NBDRead TaskInfo | NBDWrite TaskInfo | NBDFlush TaskInfo | NBDTrim TaskInfo
  | NBDReplay TaskInfo | NBDBadRequest TaskInfo | NBDDisconnect TaskInfo
  | STDINExit TaskInfo | STDINIgnore TaskInfo

text \<open>
  The storage, the driver with the rest of the schedule of its socket and what was written to it,
  the datagrams sent to the slaves and the calls to the system.
\<close>

record master =
  ms_storage :: CloudStorage
  ms_driver :: NBDDriverProxy
  ms_ios :: "io list"
  ms_out :: "cell list"
  ms_sent :: "packet list"
  ms_calls :: "nbd_call list"

record master_env =
  env_abi :: nbd_abi
  env_sendto :: "packet \<Rightarrow> bool"
  env_ioctl :: "nbd_call \<Rightarrow> bool"

definition data_of :: "TaskInfo \<Rightarrow> DriverData res" where
  "data_of info = (case info of TaskInfo (Some d) \<Rightarrow> Inr d | _ \<Rightarrow> Inl Null_Deref)"

lemma data_of_simps [simp]:
  "data_of (TaskInfo (Some d)) = Inr d" "data_of (TaskInfo None) = Inl Null_Deref"
  "data_of Null_TaskInfo = Inl Null_Deref"
  by (simp_all add: data_of_def)

text \<open>Reaching the driver or the storage through \<open>m_info\<close>.\<close>

definition with_info :: "TaskInfo \<Rightarrow> 'a res \<Rightarrow> 'a res" where
  "with_info info r = (if info = Null_TaskInfo then Inl Null_Deref else r)"

definition reply_to_kernel :: "master_env \<Rightarrow> master \<Rightarrow> TaskInfo \<Rightarrow> master res" where
  "reply_to_kernel env st info =
     bindE (data_of info) (\<lambda>data.
     bindE (NBDDriverProxy_SendReply (env_abi env) (ms_ios st) (ms_out st) data) (\<lambda>(ios, out).
     Inr (st\<lparr>ms_ios := ios, ms_out := out\<rparr>)))"

definition NBDRead_Execute :: "master_env \<Rightarrow> master \<Rightarrow> TaskInfo \<Rightarrow> master res" where
  "NBDRead_Execute env st info =
     bindE (data_of info) (\<lambda>data.
     bindE (CloudStorage_Read (env_sendto env) (ms_storage st) data) (\<lambda>(storage, p).
     Inr (st\<lparr>ms_storage := storage, ms_sent := ms_sent st @ [p]\<rparr>)))"

definition NBDWrite_Execute :: "master_env \<Rightarrow> master \<Rightarrow> TaskInfo \<Rightarrow> master res" where
  "NBDWrite_Execute env st info =
     bindE (data_of info) (\<lambda>data.
     bindE (CloudStorage_Write (env_sendto env) (ms_storage st) data) (\<lambda>(storage, p).
     Inr (st\<lparr>ms_storage := storage, ms_sent := ms_sent st @ [p]\<rparr>)))"

definition disconnect_driver :: "master_env \<Rightarrow> master \<Rightarrow> master res" where
  "disconnect_driver env st =
     bindE (NBDDriverProxy_Disconnect (env_ioctl env) (ms_driver st)) (\<lambda>(drv, calls).
     Inr (st\<lparr>ms_driver := drv, ms_calls := ms_calls st @ calls\<rparr>))"

definition NBDDisconnect_Execute :: "master_env \<Rightarrow> master \<Rightarrow> TaskInfo \<Rightarrow> master res" where
  "NBDDisconnect_Execute env st info =
     with_info info
       (bindE (CloudStorage_Disconnect (env_sendto env) (ms_storage st)) (\<lambda>ps.
        disconnect_driver env (st\<lparr>ms_sent := ms_sent st @ ps\<rparr>)))"

fun master_Execute :: "master_env \<Rightarrow> master \<Rightarrow> master_task \<Rightarrow> master res" where
  "master_Execute env st (NBDRead info) = NBDRead_Execute env st info"
| "master_Execute env st (NBDWrite info) = NBDWrite_Execute env st info"
| "master_Execute env st (NBDFlush info) = reply_to_kernel env st info"
| "master_Execute env st (NBDTrim info) = reply_to_kernel env st info"
| "master_Execute env st (NBDReplay info) = reply_to_kernel env st info"
| "master_Execute env st (NBDBadRequest info) = reply_to_kernel env st info"
| "master_Execute env st (NBDDisconnect info) = NBDDisconnect_Execute env st info"
| "master_Execute env st (STDINExit info) = with_info info (disconnect_driver env st)"
| "master_Execute env st (STDINIgnore info) = Inr st"

text \<open>\<open>AddTasksToReqEngine\<close> of greencloud.0.5.cpp.\<close>

definition master_creators :: "(FactoryKey \<times> (TaskInfo \<Rightarrow> master_task)) list" where
  "master_creators =
     [(Q_EXIT, STDINExit), (IGNORE, STDINIgnore), (READ, NBDRead), (WRITE, NBDWrite),
      (DISCONNECT, NBDDisconnect), (FLUSH, NBDFlush), (TRIM, NBDTrim),
      (BAD_REQUEST, NBDBadRequest), (REPLAY, NBDReplay)]"

definition master_factory :: "(FactoryKey, TaskInfo, master_task) factory" where
  "master_factory = add_creators master_creators []"

section \<open>A slave\<close>

datatype slave_task = SlaveRead TaskInfo | SlaveWrite TaskInfo | SlaveDisconnect TaskInfo

record slave =
  sl_storage :: MmapStorage
  sl_driver :: SlaveDriverProxy
  sl_sent :: "(sockaddr_in \<times> cell list) list"

definition reply_to_master :: "slave \<Rightarrow> DriverData \<Rightarrow> slave res" where
  "reply_to_master st data =
     bindE (SlaveDriverProxy_SendReply (sl_driver st) data) (\<lambda>p.
     Inr (st\<lparr>sl_sent := sl_sent st @ [p]\<rparr>))"

definition SlaveRead_Execute :: "slave \<Rightarrow> TaskInfo \<Rightarrow> slave res" where
  "SlaveRead_Execute st info =
     bindE (data_of info) (\<lambda>data.
     bindE (MmapStorage_Read (sl_storage st) data) (\<lambda>(storage, data).
     reply_to_master (st\<lparr>sl_storage := storage\<rparr>) data))"

definition SlaveWrite_Execute :: "slave \<Rightarrow> TaskInfo \<Rightarrow> slave res" where
  "SlaveWrite_Execute st info =
     bindE (data_of info) (\<lambda>data.
     bindE (MmapStorage_Write (sl_storage st) data) (\<lambda>(storage, data).
     reply_to_master (st\<lparr>sl_storage := storage\<rparr>) data))"

definition SlaveDisconnect_Execute :: "slave \<Rightarrow> TaskInfo \<Rightarrow> slave res" where
  "SlaveDisconnect_Execute st info =
     with_info info (Inr (st\<lparr>sl_driver := SlaveDriverProxy_Disconnect (sl_driver st)\<rparr>))"

fun slave_Execute :: "slave \<Rightarrow> slave_task \<Rightarrow> slave res" where
  "slave_Execute st (SlaveRead info) = SlaveRead_Execute st info"
| "slave_Execute st (SlaveWrite info) = SlaveWrite_Execute st info"
| "slave_Execute st (SlaveDisconnect info) = SlaveDisconnect_Execute st info"

text \<open>\<open>AddTasksToReqEngine\<close> of slave.cpp.\<close>

definition slave_creators :: "(FactoryKey \<times> (TaskInfo \<Rightarrow> slave_task)) list" where
  "slave_creators = [(READ, SlaveRead), (WRITE, SlaveWrite), (DISCONNECT, SlaveDisconnect)]"

definition slave_factory :: "(FactoryKey, TaskInfo, slave_task) factory" where
  "slave_factory = add_creators slave_creators []"

text \<open>
  \<open>RunSlave\<close> greets the master with \<open>MAGIC_STR\<close>, sent as the payload of a read reply.
\<close>

definition hello_data :: DriverData where
  "hello_data =
     (let b = vec_reserve (length MAGIC_STR + 1) (m_buff new_DriverData)
      in new_DriverData\<lparr>m_buff := b\<lparr>vmem := overwrite (vmem b) 0 (map Some (MAGIC_STR @ [0]))\<rparr>,
                        m_len := Some 0, m_req_id := Some 0, m_key := Some READ\<rparr>)"

definition slave_hello :: "slave \<Rightarrow> slave res" where
  "slave_hello st = reply_to_master st hello_data"

section \<open>The gateways of the two drivers\<close>

text \<open>
  \<open>DriverProxyGateWay::Read\<close> (driver_proxy_gateway.cpp): the key of the request, its data, and
  whether the engine is stopped.
\<close>

definition DriverProxyGateWay_Read :: "DriverData \<Rightarrow> (FactoryKey \<times> TaskInfo \<times> bool) res" where
  "DriverProxyGateWay_Read data =
     bindE (val (m_key data)) (\<lambda>key. Inr (key, TaskInfo (Some data), key = DISCONNECT))"

text \<open>
  \<open>StdinGateWay::Read\<close> (stdin_gateway.cpp): \<open>input\<close> is what \<open>read\<close> stored of at most 100 bytes, or
  \<open>None\<close> when it failed; at the end of the input the first cell was never written.
\<close>

definition StdinGateWay_BUFF_SIZE :: nat where "StdinGateWay_BUFF_SIZE = 100"

definition StdinGateWay_Read :: "byte list option \<Rightarrow> (FactoryKey \<times> TaskInfo \<times> bool) res" where
  "StdinGateWay_Read stt =
     (case stt of
        None \<Rightarrow> Inl (Runtime_Error ''HundelInputFD() fail to read from stdin'')
      | Some bytes \<Rightarrow>
          let input = overwrite (replicate StdinGateWay_BUFF_SIZE None) 0
                        (map Some (take StdinGateWay_BUFF_SIZE bytes))
          in bindE (byte_at input 0) (\<lambda>c.
             if c = of_char (CHR ''q'') then Inr (Q_EXIT, TaskInfo None, True)
             else Inr (IGNORE, Null_TaskInfo, False)))"

end
