(* ===== verification/Pipeline.thy ===== *)
theory Pipeline
  imports Tasks
begin

text \<open>
  The way of a request: from the kernel's socket through the master to the disk of a slave, and the
  way of the reply back.  Both payloads are passed on as C strings, so that what arrives is
  \<open>through_c_string\<close> of what was sent.
\<close>

section \<open>Serving one request and one reply\<close>

text \<open>
  One round of the slave: the gateway reads the request, the factory makes the task, a worker runs
  it.
\<close>

definition slave_serve :: "slave \<Rightarrow> recv_result \<Rightarrow> slave res" where
  "slave_serve st received =
     bindE (SlaveDriverProxy_ReceiveRequest (sl_driver st) received) (\<lambda>(drv, data).
     bindE (DriverProxyGateWay_Read data) (\<lambda>(key, info, stop).
     bindE (Factory_Create slave_factory key info) (\<lambda>task.
     slave_Execute (st\<lparr>sl_driver := drv\<rparr>) task)))"

text \<open>One round of the master for a datagram of a slave.\<close>

definition master_serve_reply :: "master_env \<Rightarrow> master \<Rightarrow> recv_result \<Rightarrow> master res" where
  "master_serve_reply env st received =
     bindE (SlaveGateway_Read (ms_storage st) received) (\<lambda>(key, info, storage).
     bindE (Factory_Create master_factory key info) (\<lambda>task.
     master_Execute env (st\<lparr>ms_storage := storage\<rparr>) task))"

text \<open>One round of the master for a request of the kernel.\<close>

definition master_serve_request :: "master_env \<Rightarrow> master \<Rightarrow> DriverData \<Rightarrow> master res" where
  "master_serve_request env st data =
     bindE (DriverProxyGateWay_Read data) (\<lambda>(key, info, stop).
     bindE (Factory_Create master_factory key info) (\<lambda>task. master_Execute env st task))"

lemma master_factory_Create [simp]:
  "Factory_Create master_factory READ info = Inr (NBDRead info)"
  "Factory_Create master_factory WRITE info = Inr (NBDWrite info)"
  "Factory_Create master_factory DISCONNECT info = Inr (NBDDisconnect info)"
  "Factory_Create master_factory FLUSH info = Inr (NBDFlush info)"
  "Factory_Create master_factory TRIM info = Inr (NBDTrim info)"
  "Factory_Create master_factory BAD_REQUEST info = Inr (NBDBadRequest info)"
  "Factory_Create master_factory IGNORE info = Inr (STDINIgnore info)"
  "Factory_Create master_factory Q_EXIT info = Inr (STDINExit info)"
  "Factory_Create master_factory REPLAY info = Inr (NBDReplay info)"
  by (simp_all add: master_factory_def master_creators_def add_creators_def Factory_Create_Add)

lemma Factory_Create_slave:
  "Factory_Create slave_factory key info =
     (if key = READ then Inr (SlaveRead info) else if key = WRITE then Inr (SlaveWrite info)
      else if key = DISCONNECT then Inr (SlaveDisconnect info) else Inl Badkey)"
  by (simp add: slave_factory_def slave_creators_def add_creators_def Factory_Create_Add)
     (simp add: Factory_Create_def)

section \<open>Payloads as C strings\<close>

text \<open>
  The first \<open>n\<close> cells a receiver gets for the bytes \<open>bs\<close>: up to the first zero byte the bytes
  themselves, then the zero, then cells that were never written.
\<close>

definition text_prefix :: "byte list \<Rightarrow> byte list" where
  "text_prefix bs = takeWhile (\<lambda>b. b \<noteq> 0) bs"

definition through_c_string :: "byte list \<Rightarrow> nat \<Rightarrow> cell list" where
  "through_c_string bs n = take n (map Some (text_prefix bs) @ Some 0 # replicate n None)"

lemma text_prefix_no_nul [simp]: "0 \<notin> set (text_prefix bs)"
  by (auto simp: text_prefix_def dest: set_takeWhileD)

lemma length_text_prefix: "length (text_prefix bs) \<le> length bs"
  by (simp add: text_prefix_def length_takeWhile_le)

lemma text_prefix_id: "0 \<notin> set bs \<Longrightarrow> text_prefix bs = bs"
  by (auto simp: text_prefix_def takeWhile_eq_all_conv)

lemma length_text_prefix_less: "0 \<in> set bs \<Longrightarrow> length (text_prefix bs) < length bs"
  by (induction bs) (auto simp: text_prefix_def)

lemma c_str_padded: "0 < k \<Longrightarrow> c_str (map Some bs @ replicate k (Some 0)) = Inr (text_prefix bs)"
proof (induction bs)
  case Nil
  then show ?case by (cases k) (auto simp: text_prefix_def)
qed (auto simp: text_prefix_def)

lemma c_str_block: "0 \<in> set bs \<Longrightarrow> c_str (map Some bs) = Inr (text_prefix bs)"
  by (induction bs) (auto simp: text_prefix_def)

lemma take_c_string:
  assumes "n \<le> m" and "length (text_prefix bs) < m"
  shows "take n (overwrite (replicate m None) 0 (map Some (text_prefix bs @ [0]))) =
    through_c_string bs n"
  using assms by (simp add: overwrite_def through_c_string_def take_Cons')

lemma through_c_string_text:
  "0 \<notin> set bs \<Longrightarrow> length bs = n \<Longrightarrow> through_c_string bs n = map Some bs"
  by (simp add: through_c_string_def text_prefix_id)

text \<open>A zero byte at the very end is the only one that survives.\<close>

lemma through_c_string_terminated:
  "0 \<notin> set bs \<Longrightarrow> through_c_string (bs @ [0]) (length bs + 1) = map Some (bs @ [0])"
  by (simp add: through_c_string_def text_prefix_def takeWhile_append)

section \<open>The slave's side\<close>

text \<open>What the slave makes of a write request: its buffer holds the payload up to the first zero byte.\<close>

definition write_received :: "64 word \<Rightarrow> 32 word \<Rightarrow> 32 word \<Rightarrow> byte list \<Rightarrow> DriverData" where
  "write_received off len req_id bs =
     (parsed_request off len req_id 49)\<lparr>m_buff := \<lparr>vsize = 0,
        vmem = overwrite (replicate (BUFF_SIZE + 1) None) 0 (map Some (text_prefix bs @ [0]))\<rparr>\<rparr>"

lemma ReceiveRequest_write_message:
  assumes bs: "length bs = unat len"
    and fits: "length (request_text off len req_id 49) + 1 + unat len \<le> BUFF_SIZE"
  shows "SlaveDriverProxy_ReceiveRequest drv
      (Recv from (message BUFF_SIZE (request_text off len req_id 49) (map Some bs))) =
    Inr (drv\<lparr>sdp_m_servaddr := from\<rparr>, write_received off len req_id bs)"
proof -
  let ?h = "request_text off len req_id 49"
  have "length (text_prefix bs) < BUFF_SIZE" using length_text_prefix [of bs] bs fits by simp
  then have "str_cpy (replicate (BUFF_SIZE + 1) None) 0
      (map Some bs @ replicate (BUFF_SIZE + 1 - (length ?h + 1 + unat len)) (Some 0)) =
    Inr (overwrite (replicate (BUFF_SIZE + 1) None) 0 (map Some (text_prefix bs @ [0])))"
    using fits by (simp add: str_cpy_def c_str_padded del: replicate_Suc)
  then show ?thesis
    using ReceiveRequest_message [of off len req_id 49 "map Some bs"] fits bs
    by (simp add: Let_def write_received_def del: replicate_Suc)
qed

lemma SlaveWrite_Execute_ok:
  assumes map: "mapped (sl_storage sl)"
    and bounds: "unat off + unat len \<le> length (mmap_content (sl_storage sl))"
    and bs: "length bs = unat len" and fits: "unat len < BUFF_SIZE"
  shows "SlaveWrite_Execute sl (TaskInfo (Some (write_received off len req_id bs))) =
    Inr (sl\<lparr>sl_storage := (sl_storage sl)\<lparr>m_mmap :=
              Some (overwrite (mmap_content (sl_storage sl)) (unat off) (through_c_string bs (unat len)))\<rparr>,
            sl_sent := sl_sent sl @ [(sdp_m_servaddr (sl_driver sl),
              message (BUFF_SIZE + 1) (reply_text len req_id 49) [])]\<rparr>)"
proof -
  let ?data = "write_received off len req_id bs"
  have short: "length (text_prefix bs) < BUFF_SIZE" using length_text_prefix [of bs] bs fits by simp
  then have lm: "length (vmem (m_buff ?data)) = BUFF_SIZE + 1"
    by (simp add: write_received_def del: replicate_Suc)
  have "take (unat len) (vmem (m_buff ?data)) = through_c_string bs (unat len)"
    using take_c_string [of "unat len" "BUFF_SIZE + 1" bs] short fits by (simp add: write_received_def)
  then have w: "write_of ?data = (unat off, through_c_string bs (unat len))"
    by (simp add: write_of_def write_received_def parsed_request_def)
  have req: "write_request (length (mmap_content (sl_storage sl))) ?data"
    using bounds fits lm by (simp add: write_request_def write_received_def parsed_request_def)
  have "SlaveDriverProxy_SendReply (sl_driver sl) ?data =
      Inr (sdp_m_servaddr (sl_driver sl), message (BUFF_SIZE + 1) (reply_text len req_id 49) [])"
    using SendReply_message [of ?data len req_id WRITE "[]" "sl_driver sl"] length_reply_text [of len req_id 0]
    by (simp add: write_received_def parsed_request_def BUFF_SIZE_def)
  then show ?thesis
    using MmapStorage_Write_ok [OF map req]
    by (simp add: SlaveWrite_Execute_def reply_to_master_def w spec_write_def)
qed

text \<open>A write request: the disk gets the payload as it came through, the reply has no payload.\<close>

lemma slave_serve_write:
  assumes "mapped (sl_storage sl)"
    and "unat off + unat len \<le> length (mmap_content (sl_storage sl))"
    and bs: "length bs = unat len"
    and fits: "length (request_text off len req_id 49) + 1 + unat len \<le> BUFF_SIZE"
  shows "slave_serve sl (Recv from (message BUFF_SIZE (request_text off len req_id 49) (map Some bs))) =
    Inr (sl\<lparr>sl_storage := (sl_storage sl)\<lparr>m_mmap :=
              Some (overwrite (mmap_content (sl_storage sl)) (unat off) (through_c_string bs (unat len)))\<rparr>,
            sl_driver := (sl_driver sl)\<lparr>sdp_m_servaddr := from\<rparr>,
            sl_sent := sl_sent sl @ [(from, message (BUFF_SIZE + 1) (reply_text len req_id 49) [])]\<rparr>)"
proof -
  have "m_key (write_received off len req_id bs) = Some WRITE"
    by (simp add: write_received_def parsed_request_def)
  moreover have "unat len < BUFF_SIZE" using fits by simp
  ultimately show ?thesis
    using assms SlaveWrite_Execute_ok [of "sl\<lparr>sl_driver := (sl_driver sl)\<lparr>sdp_m_servaddr := from\<rparr>\<rparr>" off len bs req_id]
    by (simp add: slave_serve_def ReceiveRequest_write_message [OF bs fits] DriverProxyGateWay_Read_def
        Factory_Create_slave)
qed

text \<open>A read request of a block whose cells are bytes: what is sent stops at its first zero byte.\<close>

lemma copy_text_overread: "0 \<notin> set s \<Longrightarrow> copy_text buf i (map Some s) = Inl OutOfBounds"
  by (induction s arbitrary: buf i) auto

lemma SendReply_overread:
  assumes "m_len data = Some len" and "m_req_id data = Some req_id" and "m_key data = Some READ"
    and "vmem (m_buff data) = map Some cs" and "0 \<notin> set cs"
  shows "SlaveDriverProxy_SendReply drv data = Inl OutOfBounds"
proof -
  have "length (dec (unat len)) + length (dec_int (sint req_id)) \<le> 21"
    using length_dec_u32 [of len] length_dec_int [of req_id] by simp
  with assms show ?thesis
    by (simp add: SlaveDriverProxy_SendReply_def AddInt_ok AddRequestType_ok put_ok AddMessage_def
        copy_text_overread BUFF_SIZE_def Let_def)
qed

lemma SlaveRead_Execute_ok:
  assumes map: "mapped (sl_storage sl)"
    and bounds: "unat off + unat len \<le> length (mmap_content (sl_storage sl))"
    and cs: "stored_at (mmap_content (sl_storage sl)) (unat off) (unat len) = map Some cs"
    and fits: "unat len \<le> 4096"
  shows "SlaveRead_Execute sl (TaskInfo (Some (parsed_request off len req_id 48))) =
    (if 0 \<in> set cs
     then Inr (sl\<lparr>sl_sent := sl_sent sl @ [(sdp_m_servaddr (sl_driver sl),
                    message (BUFF_SIZE + 1) (reply_text len req_id 48) (map Some (text_prefix cs)))]\<rparr>)
     else Inl OutOfBounds)"
proof -
  define data where "data = parsed_request off len req_id 48"
  define out where "out = data\<lparr>m_buff := \<lparr>vsize = 0, vmem = map Some cs\<rparr>\<rparr>"
  have lcs: "length cs = unat len"
    using arg_cong [OF cs, of length] bounds by (simp add: stored_at_def)
  have "MmapStorage_Read (sl_storage sl) data = Inr (sl_storage sl, out)"
    using MmapStorage_Read_ok [OF map, of data] bounds cs lcs
    by (simp add: read_request_def data_def out_def parsed_request_def Let_def overwrite_def)
  moreover have "SlaveDriverProxy_SendReply (sl_driver sl) out =
      (if 0 \<in> set cs
       then Inr (sdp_m_servaddr (sl_driver sl),
         message (BUFF_SIZE + 1) (reply_text len req_id 48) (map Some (text_prefix cs)))
       else Inl OutOfBounds)"
  proof (cases "0 \<in> set cs")
    case True
    with SendReply_message [of out len req_id READ "text_prefix cs" "sl_driver sl"] fits lcs
      length_reply_text [of len req_id 0] length_text_prefix_less [of cs] show ?thesis
      by (simp add: out_def data_def parsed_request_def c_str_block BUFF_SIZE_def)
  next
    case False
    with SendReply_overread [of out len req_id cs "sl_driver sl"] show ?thesis
      by (simp add: out_def data_def parsed_request_def)
  qed
  ultimately show ?thesis
    by (simp add: SlaveRead_Execute_def reply_to_master_def flip: data_def)
qed

lemma ReceiveRequest_no_payload:
  assumes "FactoryKey_of_char t \<noteq> WRITE"
  shows "SlaveDriverProxy_ReceiveRequest drv (Recv from (message BUFF_SIZE (request_text off len req_id t) [])) =
    Inr (drv\<lparr>sdp_m_servaddr := from\<rparr>, parsed_request off len req_id t)"
proof -
  have "length (request_text off len req_id t) + 1 + length [] \<le> BUFF_SIZE"
    using length_request_text [of off len req_id t] by (simp add: BUFF_SIZE_def)
  from ReceiveRequest_message [OF this, of drv "from"] assms show ?thesis
    by (simp add: Let_def del: replicate.simps)
qed

lemma slave_serve_read:
  assumes map: "mapped (sl_storage sl)"
    and bounds: "unat off + unat len \<le> length (mmap_content (sl_storage sl))"
    and cs: "stored_at (mmap_content (sl_storage sl)) (unat off) (unat len) = map Some cs"
    and fits: "unat len \<le> 4096"
  shows "slave_serve sl (Recv from (message BUFF_SIZE (request_text off len req_id 48) [])) =
    (if 0 \<in> set cs
     then Inr (sl\<lparr>sl_driver := (sl_driver sl)\<lparr>sdp_m_servaddr := from\<rparr>,
                  sl_sent := sl_sent sl @ [(from,
                    message (BUFF_SIZE + 1) (reply_text len req_id 48) (map Some (text_prefix cs)))]\<rparr>)
     else Inl OutOfBounds)"
proof -
  have "m_key (parsed_request off len req_id 48) = Some READ" by (simp add: parsed_request_def)
  then show ?thesis
    using assms SlaveRead_Execute_ok [of "sl\<lparr>sl_driver := (sl_driver sl)\<lparr>sdp_m_servaddr := from\<rparr>\<rparr>" off len cs req_id]
    by (simp add: slave_serve_def ReceiveRequest_no_payload DriverProxyGateWay_Read_def Factory_Create_slave)
qed

text \<open>A request without a payload, whatever its operation.\<close>

lemma unknown_key:
  assumes "t \<notin> {48, 49, 50}" shows "FactoryKey_of_char t \<notin> {READ, WRITE, DISCONNECT}"
proof
  assume "FactoryKey_of_char t \<in> {READ, WRITE, DISCONNECT}"
  then have "int_of_FactoryKey (FactoryKey_of_char t) \<in> {0, 1, 2}" by auto
  then have "sint t = 48 \<or> sint t = 49 \<or> sint t = 50" by (simp add: FactoryKey_of_char_def)
  moreover have "sint t = i \<Longrightarrow> t = word_of_int i" for i by auto
  ultimately have "t = word_of_int 48 \<or> t = word_of_int 49 \<or> t = word_of_int 50" by blast
  with assms show False by simp
qed

section \<open>Properties\<close>

text \<open>
  C9: what the master prints with \<open>sprintf\<close>, the slave parses back: the offset, the length, the
  request id (a negative one too) and the operation.
\<close>

theorem request_header_roundtrip:
  assumes "t \<noteq> 0" and "sprintf_request (replicate BUFF_SIZE (Some 0)) off len req_id t = Inr buf"
  shows "\<exists>d. SlaveDriverProxy_ReceiveRequest drv (Recv from buf) =
      Inr (drv\<lparr>sdp_m_servaddr := from\<rparr>, d) \<and>
    m_offset d = Some off \<and> m_len d = Some len \<and> m_req_id d = Some req_id \<and>
    m_key d = Some (FactoryKey_of_char t)"
proof -
  have buf: "buf = message BUFF_SIZE (request_text off len req_id t) []"
    using assms sprintf_request_ok [of t off len req_id] by simp
  have l: "length (request_text off len req_id t) + 1 + length [] \<le> BUFF_SIZE"
    using length_request_text [of off len req_id t] by (simp add: BUFF_SIZE_def)
  have "0 < BUFF_SIZE + 1 - (length (request_text off len req_id t) + 1 + length [])" using l by simp
  then have "str_cpy (replicate (BUFF_SIZE + 1) None) 0
      ([] @ replicate (BUFF_SIZE + 1 - (length (request_text off len req_id t) + 1 + length [])) (Some 0)) =
    Inr (overwrite (replicate (BUFF_SIZE + 1) None) 0 [Some 0])"
    using c_str_padded [of _ "[]"] by (simp add: str_cpy_def text_prefix_def del: replicate_Suc)
  with ReceiveRequest_message [OF l, of drv "from"] show ?thesis
    by (auto simp: buf parsed_request_def Let_def simp del: replicate_Suc)
qed

theorem request_header_roundtrip_witness:
  "\<exists>buf d. sprintf_request (replicate BUFF_SIZE (Some 0)) 4096 512 (- 7) 48 = Inr buf \<and>
    SlaveDriverProxy_ReceiveRequest (SlaveDriverProxy_ctor 4 None 6666)
      (Recv \<lparr>sin_port = 3, sin_addr = 4\<rparr> buf) =
      Inr ((SlaveDriverProxy_ctor 4 None 6666)\<lparr>sdp_m_servaddr := \<lparr>sin_port = 3, sin_addr = 4\<rparr>\<rparr>, d) \<and>
    m_offset d = Some 4096 \<and> m_len d = Some 512 \<and> m_req_id d = Some (- 7) \<and>
    m_key d = Some (FactoryKey_of_char 48)"
proof -
  have t: "(48 :: byte) \<noteq> 0" by simp
  from request_header_roundtrip [OF t sprintf_request_ok [OF t]] sprintf_request_ok [OF t]
  show ?thesis by blast
qed

text \<open>
  C10: the reply of a slave, parsed by the gateway of the master: the length, the operation and for
  a read the text in the buffer come back, and the request id has become the handle it stood for;
  the offset is 0 and the status is not set.
\<close>

theorem reply_roundtrip:
  assumes "m_len data = Some len" and "m_req_id data = Some req_id" and "m_key data = Some key"
    and "key = READ \<or> key = WRITE"
    and "if key = READ then c_str (vmem (m_buff data)) = Inr body else body = []"
    and "length body \<le> 4095"
    and "ids_inv st" and "in_flight st req_id = Some h"
  shows "\<exists>q d st'. SlaveDriverProxy_SendReply drv data = Inr (sdp_m_servaddr drv, q) \<and>
    SlaveGateway_Read st (Recv from q) = Inr (REPLAY, TaskInfo (Some d), st') \<and>
    m_len d = Some len \<and> m_key d = Some key \<and> m_handler d = h \<and> m_offset d = Some 0 \<and>
    m_status d = None \<and> (key = READ \<longrightarrow> c_str (vmem (m_buff d)) = Inr body) \<and>
    in_flight st' = (in_flight st)(req_id := None)"
proof -
  define t :: byte where "t = (if key = READ then 48 else 49)"
  have fits: "length (reply_text len req_id t) + 1 + length body < BUFF_SIZE"
    using assms(6) length_reply_text [of len req_id t] by (simp add: BUFF_SIZE_def)
  then have "length (reply_text len req_id 0) + 1 + length body \<le> BUFF_SIZE + 1"
    by (simp add: reply_text_def)
  from SendReply_message [OF assms(1,2,3,5) this] have send: "SlaveDriverProxy_SendReply drv data =
      Inr (sdp_m_servaddr drv, message (BUFF_SIZE + 1) (reply_text len req_id t) (map Some body))"
    by (simp add: t_def)
  have body: "0 \<notin> set body" using assms(5) by (auto simp: c_str_Inr_iff split: if_splits)
  obtain st' where claim: "claim_handler st req_id = Inr (h, st')"
    "in_flight st' = (in_flight st)(req_id := None)"
    using claim_handler_law [OF assms(7,8)] by blast
  have "c_str (overwrite (replicate (BUFF_SIZE + 1) None) 0 (map Some (body @ [0]))) = Inr body"
    using body by (simp add: overwrite_def c_str_text)
  moreover have "FactoryKey_of_char t = key" using assms(4) by (auto simp: t_def)
  ultimately show ?thesis
    using send SlaveGateway_Read_reply [OF assms(7,8) claim(1) fits _ body, of "from"] claim(2) assms(4)
    by (auto simp: t_def)
qed

text \<open>The reply to a read of \<open>n\<close> bytes with the id 1, for the witness.\<close>

definition read_data :: "byte list \<Rightarrow> DriverData" where
  "read_data bs = new_DriverData\<lparr>m_len := Some (word_of_nat (length bs)), m_req_id := Some 1,
     m_key := Some READ, m_buff := \<lparr>vsize = 0, vmem = map Some bs\<rparr>\<rparr>"

theorem reply_roundtrip_witness:
  "\<exists>q d st'. SlaveDriverProxy_SendReply (SlaveDriverProxy_ctor 4 None 6666) (read_data [5, 6, 0]) =
      Inr (sdp_m_servaddr (SlaveDriverProxy_ctor 4 None 6666), q) \<and>
    SlaveGateway_Read ((one_slave \<lparr>sin_port = 1, sin_addr = 2\<rparr>)
        \<lparr>cs_m_req_id := 1, m_list := [(1, replicate 8 (Some 9))]\<rparr>) (Recv \<lparr>sin_port = 1, sin_addr = 2\<rparr> q) =
      Inr (REPLAY, TaskInfo (Some d), st') \<and>
    m_len d = Some 3 \<and> m_key d = Some READ \<and> m_handler d = replicate 8 (Some 9) \<and> m_offset d = Some 0 \<and>
    m_status d = None \<and> (READ = READ \<longrightarrow> c_str (vmem (m_buff d)) = Inr [5, 6]) \<and>
    in_flight st' = (in_flight ((one_slave \<lparr>sin_port = 1, sin_addr = 2\<rparr>)
        \<lparr>cs_m_req_id := 1, m_list := [(1, replicate 8 (Some 9))]\<rparr>))(1 := None)"
  by (rule reply_roundtrip)
     (simp_all add: read_data_def ids_inv_def is_handle_def HANDLE_SIZE_def in_flight_def)

text \<open>
  C18: a slave serves a read request of at most 4096 bytes inside its disk on both branches: with a
  zero byte in the block it sends the bytes before it; without one, the copy of the payload runs
  past the end of the buffer that holds the block.
\<close>

theorem slave_read_branches:
  assumes "mapped (sl_storage sl)"
    and "unat off + unat len \<le> length (mmap_content (sl_storage sl))"
    and "stored_at (mmap_content (sl_storage sl)) (unat off) (unat len) = map Some cs"
    and "unat len \<le> 4096"
  shows "slave_serve sl (Recv from (message BUFF_SIZE (request_text off len req_id 48) [])) =
    (if 0 \<in> set cs
     then Inr (sl\<lparr>sl_driver := (sl_driver sl)\<lparr>sdp_m_servaddr := from\<rparr>,
                  sl_sent := sl_sent sl @ [(from,
                    message (BUFF_SIZE + 1) (reply_text len req_id 48) (map Some (text_prefix cs)))]\<rparr>)
     else Inl OutOfBounds)"
  using assms by (rule slave_serve_read)

theorem slave_read_branches_witness:
  "slave_serve \<lparr>sl_storage = MmapStorage_ctor True [9, 8, 7] 3,
       sl_driver = SlaveDriverProxy_ctor 4 None 6666, sl_sent = []\<rparr>
     (Recv \<lparr>sin_port = 3, sin_addr = 4\<rparr> (message BUFF_SIZE (request_text 1 2 1 48) [])) =
   Inl OutOfBounds"
proof -
  have "stored_at (mmap_content (MmapStorage_ctor True [9, 8, 7] 3)) 1 2 = map Some [8, 7]"
    by code_simp
  then show ?thesis by (subst slave_read_branches [where cs = "[8, 7]"])
      (simp_all add: mapped_MmapStorage_ctor)
qed

end
