(* ===== verification/End_To_End.thy ===== *)
theory End_To_End
  imports Pipeline
begin

text \<open>
  A request of the kernel, all the way to the disk of the slave and back to the kernel: what the
  slave stores, what the kernel gets, and that the table of requests in flight is as before.
\<close>

section \<open>The master's side\<close>

text \<open>What the kernel gets for a reply: no error code is ever stored in it.\<close>

definition kernel_reply :: "nbd_abi \<Rightarrow> cell list \<Rightarrow> cell list" where
  "kernel_reply abi h = reply_cells abi \<lparr>rp_magic = htonl (NBD_REPLY_MAGIC abi), rp_error = None, rp_handle = h\<rparr>"

lemma reply_to_kernel_stream:
  assumes key: "m_key data = Some key" and len: "m_len data = Some len" and "m_status data = None"
    and "length (m_handler data) = HANDLE_SIZE"
    and mem: "key = READ \<Longrightarrow> unat len \<le> length (vmem (m_buff data))"
    and body: "body = (if key = READ then take (unat len) (vmem (m_buff data)) else [])"
    and ios: "no_fail (ms_ios st)"
      "length (kernel_reply (env_abi env) (m_handler data)) + unat len \<le> length (ms_ios st)"
  shows "\<exists>ios'. reply_to_kernel env st (TaskInfo (Some data)) =
    Inr (st\<lparr>ms_ios := ios', ms_out := ms_out st @ kernel_reply (env_abi env) (m_handler data) @ body\<rparr>)"
proof -
  have r: "kernel_reply (env_abi env) (m_handler data) =
      reply_cells (env_abi env) (InitReaply (env_abi env) (m_status data) (m_handler data))"
    using assms by (simp add: kernel_reply_def InitReaply_def)
  have "length body \<le> unat len" using body by simp
  with ios(2) have "length (kernel_reply (env_abi env) (m_handler data)) + length body \<le> length (ms_ios st)"
    by linarith
  from SendReply_stream [OF key body _ r ios(1) this, of "ms_out st"] len mem show ?thesis
    by (auto simp: reply_to_kernel_def)
qed

lemma master_serve_reply_message:
  assumes inv: "ids_inv (ms_storage st)" and h: "in_flight (ms_storage st) req_id = Some h"
    and claim: "claim_handler (ms_storage st) req_id = Inr (h, storage')"
    and fits: "length (reply_text len req_id t) + 1 + length body < BUFF_SIZE"
    and t: "t = 48 \<or> t = 49" and body: "0 \<notin> set body" and len: "t = 48 \<Longrightarrow> unat len \<le> BUFF_SIZE"
    and hl: "is_handle h"
    and ios: "no_fail (ms_ios st)"
      "length (kernel_reply (env_abi env) h) + unat len \<le> length (ms_ios st)"
  shows "\<exists>ios'. master_serve_reply env st
      (Recv from (message (BUFF_SIZE + 1) (reply_text len req_id t) (map Some body))) =
    Inr (st\<lparr>ms_storage := storage', ms_ios := ios',
            ms_out := ms_out st @ kernel_reply (env_abi env) h @
              (if t = 48 then through_c_string body (unat len) else [])\<rparr>)"
proof -
  define mem :: "cell list" where
    "mem = overwrite (replicate (BUFF_SIZE + 1) None) 0 (map Some (body @ [0]))"
  define data where "data = new_DriverData\<lparr>m_offset := Some 0, m_len := Some len, m_handler := h,
      m_key := Some (FactoryKey_of_char t),
      m_buff := (if t = 48 then \<lparr>vsize = 0, vmem = mem\<rparr> else empty_vec)\<rparr>"
  from SlaveGateway_Read_reply [OF inv h claim fits t body]
  have gw: "SlaveGateway_Read (ms_storage st)
      (Recv from (message (BUFF_SIZE + 1) (reply_text len req_id t) (map Some body))) =
    Inr (REPLAY, TaskInfo (Some data), storage')"
    by (simp add: data_def mem_def)
  have lm: "length mem = BUFF_SIZE + 1" using fits by (simp add: mem_def del: replicate_Suc)
  have tk: "take (unat len) mem = through_c_string body (unat len)" if "t = 48"
    using take_c_string [of "unat len" "BUFF_SIZE + 1" body] fits body len [OF that]
    by (simp add: mem_def text_prefix_id del: replicate_Suc)
  have d: "m_len data = Some len" "m_status data = None" "m_handler data = h"
    "length (m_handler data) = HANDLE_SIZE" using hl by (simp_all add: data_def is_handle_def)
  have "\<exists>ios'. reply_to_kernel env (st\<lparr>ms_storage := storage'\<rparr>) (TaskInfo (Some data)) =
    Inr ((st\<lparr>ms_storage := storage'\<rparr>)\<lparr>ms_ios := ios', ms_out := ms_out (st\<lparr>ms_storage := storage'\<rparr>) @
      kernel_reply (env_abi env) (m_handler data) @
      (if t = 48 then through_c_string body (unat len) else [])\<rparr>)"
    by (rule reply_to_kernel_stream [OF _ d(1,2,4)])
       (use t len lm tk ios in \<open>auto simp: data_def\<close>)
  then show ?thesis unfolding master_serve_reply_def gw by (auto simp: d(3))
qed

text \<open>A request of the kernel that the factory turns into a write or a read.\<close>

lemma master_serve_write:
  assumes "ids_inv (ms_storage st)" and "0 < ids_left (ms_storage st)" and "is_handle (m_handler data)"
    and "m_slaves (ms_storage st) = (k, s) # m"
    and "m_offset data = Some off" and "m_len data = Some len" and "m_key data = Some WRITE"
    and "unat len \<le> length (vmem (m_buff data))"
    and "length (request_text off len (cs_m_req_id (ms_storage st) + 1) 49) + 1 + unat len \<le> BUFF_SIZE"
    and "env_sendto env (write_packet s off len (cs_m_req_id (ms_storage st) + 1) (payload data))"
  shows "master_serve_request env st data =
    (let req_id = cs_m_req_id (ms_storage st) + 1
     in Inr (st\<lparr>ms_storage := (ms_storage st)\<lparr>cs_m_req_id := req_id,
                   m_list := (req_id, m_handler data) # m_list (ms_storage st)\<rparr>,
                ms_sent := ms_sent st @ [write_packet s off len req_id (payload data)]\<rparr>))"
  using assms CloudStorage_Write_eq [OF assms(1-6,8), of "env_sendto env"]
  by (simp add: master_serve_request_def DriverProxyGateWay_Read_def NBDWrite_Execute_def Let_def)

lemma master_serve_read:
  assumes "ids_inv (ms_storage st)" and "0 < ids_left (ms_storage st)" and "is_handle (m_handler data)"
    and "m_slaves (ms_storage st) = (k, s) # m"
    and "m_offset data = Some off" and "m_len data = Some len" and "m_key data = Some READ"
    and "env_sendto env (read_packet s off len (cs_m_req_id (ms_storage st) + 1))"
  shows "master_serve_request env st data =
    (let req_id = cs_m_req_id (ms_storage st) + 1
     in Inr (st\<lparr>ms_storage := (ms_storage st)\<lparr>cs_m_req_id := req_id,
                   m_list := (req_id, m_handler data) # m_list (ms_storage st)\<rparr>,
                ms_sent := ms_sent st @ [read_packet s off len req_id]\<rparr>))"
  using assms CloudStorage_Read_eq [OF assms(1-6), of "env_sendto env"]
  by (simp add: master_serve_request_def DriverProxyGateWay_Read_def NBDRead_Execute_def Let_def)

text \<open>The entry a request adds to the table is the one its reply takes out.\<close>

lemma claim_new_id:
  assumes "ids_inv st" and "is_handle h" and "0 < ids_left st"
    and "st1 = st\<lparr>cs_m_req_id := cs_m_req_id st + 1, m_list := (cs_m_req_id st + 1, h) # m_list st\<rparr>"
  obtains st2 where "ids_inv st1" and "in_flight st1 (cs_m_req_id st + 1) = Some h"
    and "claim_handler st1 (cs_m_req_id st + 1) = Inr (h, st2)" and "ids_inv st2"
    and "in_flight st2 = in_flight st"
proof -
  from HandlerToId_law [OF assms(1-3)] HandlerToId_ok [OF assms(1-3)] assms(4)
  have h: "ids_inv st1" "in_flight st (cs_m_req_id st + 1) = None"
    "in_flight st1 = (in_flight st)(cs_m_req_id st + 1 \<mapsto> h)" by auto
  then have f: "in_flight st1 (cs_m_req_id st + 1) = Some h" by simp
  from claim_handler_law [OF h(1) f] obtain st2 where
    "claim_handler st1 (cs_m_req_id st + 1) = Inr (h, st2)" "ids_inv st2"
    "in_flight st2 = (in_flight st1)(cs_m_req_id st + 1 := None)" by blast
  with h f that [of st2] show ?thesis by (auto simp: fun_eq_iff)
qed

section \<open>Properties\<close>

text \<open>A master with one slave, that slave with a disk of eight bytes, and a request of the kernel.\<close>

definition ex_env :: master_env where
  "ex_env = \<lparr>env_abi = packed_abi, env_sendto = (\<lambda>p. True), env_ioctl = (\<lambda>c. True)\<rparr>"

definition ex_master :: master where
  "ex_master = \<lparr>ms_storage = one_slave \<lparr>sin_port = 1, sin_addr = 2\<rparr>,
     ms_driver = \<lparr>m_req_fd = 5, m_nbd_fd = 6, m_file_fd = 7, m_connected = ON\<rparr>,
     ms_ios = replicate 40 (IO_Upto 3), ms_out = [], ms_sent = [], ms_calls = []\<rparr>"

definition ex_slave :: slave where
  "ex_slave = \<lparr>sl_storage = MmapStorage_ctor True [9, 8, 0, 7] 8,
     sl_driver = SlaveDriverProxy_ctor 4 None 6666, sl_sent = []\<rparr>"

definition ex_request :: "FactoryKey \<Rightarrow> DriverData" where
  "ex_request key = new_DriverData\<lparr>m_offset := Some 1, m_len := Some 3, m_key := Some key,
     m_handler := replicate 8 (Some 5), m_buff := \<lparr>vsize = 0, vmem = map Some [1, 0, 3]\<rparr>\<rparr>"

lemma ex_facts:
  "length (kernel_reply packed_abi (replicate 8 (Some 5))) = 16"
  "mapped (sl_storage ex_slave)" "length (mmap_content (sl_storage ex_slave)) = 8"
  by (simp_all add: kernel_reply_def packed_abi_def le_bytes_def ex_slave_def mapped_MmapStorage_ctor)

lemma ex_disk: "mmap_content (sl_storage ex_slave) = map Some [9, 8, 0, 7, 0, 0, 0, 0]"
  by code_simp

lemma ex_simps:
  "ms_storage ex_master = one_slave \<lparr>sin_port = 1, sin_addr = 2\<rparr>" "ms_out ex_master = []"
  "ms_ios ex_master = replicate 40 (IO_Upto 3)" "env_abi ex_env = packed_abi" "env_sendto ex_env p"
  "m_handler (ex_request key) = replicate 8 (Some 5)" "is_handle (replicate 8 (Some 5))"
  "m_offset (ex_request key) = Some 1" "m_len (ex_request key) = Some 3"
  "m_key (ex_request key) = Some key" "payload (ex_request key) = map Some [1, 0, 3]"
  "no_fail (replicate 40 (IO_Upto 3))"
  by (simp_all add: ex_master_def ex_env_def ex_request_def is_handle_def HANDLE_SIZE_def payload_def
      no_fail_def)

text \<open>
  C4: a write of the kernel, all the way: the master sends one datagram to the slave; the slave
  stores the payload at the offset, as a C string does it (everything behind its first zero byte is
  lost and what comes after it is indeterminate), changes nothing else of the disk and sends one
  datagram back; the master passes a reply with the handle of the request on to the kernel, in which
  the error code was never stored, and its table of requests is as it was.
\<close>

theorem write_there_and_back:
  assumes inv: "ids_inv (ms_storage st)" "0 < ids_left (ms_storage st)" "is_handle (m_handler data)"
    and slave: "m_slaves (ms_storage st) = (k, s) # m"
    and data: "m_offset data = Some off" "m_len data = Some len" "m_key data = Some WRITE"
      "payload data = map Some bs" "length bs = unat len"
    and h: "length (request_text off len (cs_m_req_id (ms_storage st) + 1) 49) + 1 + unat len \<le> BUFF_SIZE"
    and up: "\<forall>p. env_sendto env p"
    and ios: "no_fail (ms_ios st)"
      "length (kernel_reply (env_abi env) (m_handler data)) + unat len \<le> length (ms_ios st)"
    and disk: "mapped (sl_storage sl)"
      "unat off + unat len \<le> length (mmap_content (sl_storage sl))"
  shows "\<exists>st1 p sl' q st2.
    master_serve_request env st data = Inr st1 \<and> ms_sent st1 = ms_sent st @ [p] \<and> pk_to p = m_cliaddr s \<and>
    slave_serve sl (Recv from (pk_data p)) = Inr sl' \<and> sl_sent sl' = sl_sent sl @ [(from, q)] \<and>
    mmap_content (sl_storage sl') =
      overwrite (mmap_content (sl_storage sl)) (unat off) (through_c_string bs (unat len)) \<and>
    master_serve_reply env st1 (Recv addr q) = Inr st2 \<and>
    ms_out st2 = ms_out st @ kernel_reply (env_abi env) (m_handler data) \<and>
    in_flight (ms_storage st2) = in_flight (ms_storage st)"
proof -
  let ?id = "cs_m_req_id (ms_storage st) + 1"
  let ?storage1 = "(ms_storage st)\<lparr>cs_m_req_id := ?id, m_list := (?id, m_handler data) # m_list (ms_storage st)\<rparr>"
  let ?p = "write_packet s off len ?id (payload data)"
  let ?st1 = "st\<lparr>ms_storage := ?storage1, ms_sent := ms_sent st @ [?p]\<rparr>"
  have l: "unat len \<le> length (vmem (m_buff data))"
    using arg_cong [OF data(4), of length] data(2,5) by (simp add: payload_def)
  have m1: "master_serve_request env st data = Inr ?st1"
    using master_serve_write [OF inv slave data(1-3) l h, of env] up by (simp add: Let_def)
  have p: "pk_data ?p = message BUFF_SIZE (request_text off len ?id 49) (map Some bs)"
    by (simp add: write_packet_def data(4))
  obtain st2 where c: "ids_inv ?storage1" "in_flight ?storage1 ?id = Some (m_handler data)"
    "claim_handler ?storage1 ?id = Inr (m_handler data, st2)" "in_flight st2 = in_flight (ms_storage st)"
    by (rule claim_new_id [OF inv(1,3,2) refl])
  have r: "length (reply_text len ?id 49) + 1 + length [] < BUFF_SIZE"
    using length_reply_text [of len ?id 49] by (simp add: BUFF_SIZE_def)
  obtain ios' where m2: "master_serve_reply env ?st1
      (Recv addr (message (BUFF_SIZE + 1) (reply_text len ?id 49) [])) =
    Inr (?st1\<lparr>ms_storage := st2, ms_ios := ios',
              ms_out := ms_out st @ kernel_reply (env_abi env) (m_handler data)\<rparr>)"
    using master_serve_reply_message [of ?st1 ?id "m_handler data" st2 len 49 "[]" env addr] c r inv(3) ios
    by auto
  show ?thesis
    using m1 m2 c(4) slave_serve_write [OF disk data(5) h, of "from"]
    unfolding p [symmetric]
    by (intro exI [of _ ?st1] exI [of _ ?p]) (auto simp: mmap_content_def write_packet_def)
qed

theorem write_there_and_back_witness:
  "\<exists>st1 (p :: packet) sl' q st2.
    master_serve_request ex_env ex_master (ex_request WRITE) = Inr st1 \<and>
    slave_serve ex_slave (Recv \<lparr>sin_port = 3, sin_addr = 4\<rparr> (pk_data p)) = Inr sl' \<and>
    mmap_content (sl_storage sl') =
      [Some 9, Some 1, Some 0, None, Some 0, Some 0, Some 0, Some 0] \<and>
    master_serve_reply ex_env st1 (Recv \<lparr>sin_port = 3, sin_addr = 4\<rparr> q) = Inr st2 \<and>
    ms_out st2 = kernel_reply packed_abi (replicate 8 (Some 5))"
proof -
  have d: "overwrite (mmap_content (sl_storage ex_slave)) 1 (through_c_string [1, 0, 3] 3) =
      [Some 9, Some 1, Some 0, None, Some 0, Some 0, Some 0, Some 0]"
    by (simp add: ex_disk overwrite_def through_c_string_def text_prefix_def)
  have "length (request_text 1 3 1 49) + 1 + 3 \<le> BUFF_SIZE"
    using length_request_text [of 1 3 1 49] by (simp add: BUFF_SIZE_def)
  with write_there_and_back [of ex_master "ex_request WRITE" _ _ _ 1 3 "[1, 0, 3]" ex_env ex_slave
      "\<lparr>sin_port = 3, sin_addr = 4\<rparr>" "\<lparr>sin_port = 3, sin_addr = 4\<rparr>"] d
  show ?thesis
    by (simp add: ex_simps ex_facts ex_disk) (elim exE conjE, intro exI conjI; assumption)
qed

text \<open>
  C5: a read of the kernel of a block with a zero byte in it, all the way: the disk of the slave
  does not change and the kernel gets the reply with the handle of the request and the bytes of the
  block up to its first zero byte; the rest of what it gets was never written.
\<close>

theorem read_there_and_back:
  assumes inv: "ids_inv (ms_storage st)" "0 < ids_left (ms_storage st)" "is_handle (m_handler data)"
    and slave: "m_slaves (ms_storage st) = (k, s) # m"
    and data: "m_offset data = Some off" "m_len data = Some len" "m_key data = Some READ"
    and fits: "unat len \<le> 4096"
    and up: "\<forall>p. env_sendto env p"
    and ios: "no_fail (ms_ios st)"
      "length (kernel_reply (env_abi env) (m_handler data)) + unat len \<le> length (ms_ios st)"
    and disk: "mapped (sl_storage sl)"
      "unat off + unat len \<le> length (mmap_content (sl_storage sl))"
      "stored_at (mmap_content (sl_storage sl)) (unat off) (unat len) = map Some cs"
    and nul: "0 \<in> set cs"
  shows "\<exists>st1 p sl' q st2.
    master_serve_request env st data = Inr st1 \<and> ms_sent st1 = ms_sent st @ [p] \<and> pk_to p = m_cliaddr s \<and>
    slave_serve sl (Recv from (pk_data p)) = Inr sl' \<and> sl_sent sl' = sl_sent sl @ [(from, q)] \<and>
    sl_storage sl' = sl_storage sl \<and>
    master_serve_reply env st1 (Recv addr q) = Inr st2 \<and>
    ms_out st2 = ms_out st @ kernel_reply (env_abi env) (m_handler data) @ through_c_string cs (unat len) \<and>
    in_flight (ms_storage st2) = in_flight (ms_storage st)"
proof -
  let ?id = "cs_m_req_id (ms_storage st) + 1"
  let ?storage1 = "(ms_storage st)\<lparr>cs_m_req_id := ?id, m_list := (?id, m_handler data) # m_list (ms_storage st)\<rparr>"
  let ?p = "read_packet s off len ?id"
  let ?st1 = "st\<lparr>ms_storage := ?storage1, ms_sent := ms_sent st @ [?p]\<rparr>"
  have m1: "master_serve_request env st data = Inr ?st1"
    using master_serve_read [OF inv slave data, of env] up by (simp add: Let_def)
  have p: "pk_data ?p = message BUFF_SIZE (request_text off len ?id 48) []"
    by (simp add: read_packet_def)
  obtain st2 where c: "ids_inv ?storage1" "in_flight ?storage1 ?id = Some (m_handler data)"
    "claim_handler ?storage1 ?id = Inr (m_handler data, st2)" "in_flight st2 = in_flight (ms_storage st)"
    by (rule claim_new_id [OF inv(1,3,2) refl])
  have lcs: "length cs = unat len"
    using arg_cong [OF disk(3), of length] disk(2) by (simp add: stored_at_def)
  have r: "length (reply_text len ?id 48) + 1 + length (text_prefix cs) < BUFF_SIZE"
    using length_reply_text [of len ?id 48] length_text_prefix_less [OF nul] lcs fits
    by (simp add: BUFF_SIZE_def)
  have t: "through_c_string (text_prefix cs) (unat len) = through_c_string cs (unat len)"
    by (simp add: through_c_string_def text_prefix_id)
  obtain ios' where m2: "master_serve_reply env ?st1
      (Recv addr (message (BUFF_SIZE + 1) (reply_text len ?id 48) (map Some (text_prefix cs)))) =
    Inr (?st1\<lparr>ms_storage := st2, ms_ios := ios',
              ms_out := ms_out st @ kernel_reply (env_abi env) (m_handler data) @
                through_c_string cs (unat len)\<rparr>)"
    using master_serve_reply_message [of ?st1 ?id "m_handler data" st2 len 48 "text_prefix cs" env addr]
      c r inv(3) ios fits t
    by (auto simp: BUFF_SIZE_def)
  show ?thesis
    using m1 m2 c(4) slave_serve_read [OF disk fits, of "from"] nul
    unfolding p [symmetric]
    by (intro exI [of _ ?st1] exI [of _ ?p]) (auto simp: read_packet_def)
qed

theorem read_there_and_back_witness:
  "\<exists>st1 (p :: packet) sl' q st2.
    master_serve_request ex_env ex_master (ex_request READ) = Inr st1 \<and>
    slave_serve ex_slave (Recv \<lparr>sin_port = 3, sin_addr = 4\<rparr> (pk_data p)) = Inr sl' \<and>
    master_serve_reply ex_env st1 (Recv \<lparr>sin_port = 3, sin_addr = 4\<rparr> q) = Inr st2 \<and>
    ms_out st2 = kernel_reply packed_abi (replicate 8 (Some 5)) @ [Some 8, Some 0, None]"
proof -
  have d: "through_c_string [8, 0, 7] 3 = [Some 8, Some 0, None]"
    by (simp add: through_c_string_def text_prefix_def)
  have s: "stored_at (mmap_content (sl_storage ex_slave)) 1 3 = map Some [8, 0, 7]"
    by (simp add: ex_disk stored_at_def)
  from read_there_and_back [of ex_master "ex_request READ" _ _ _ 1 3 ex_env ex_slave "[8, 0, 7]"
      "\<lparr>sin_port = 3, sin_addr = 4\<rparr>" "\<lparr>sin_port = 3, sin_addr = 4\<rparr>"] d s
  show ?thesis
    by (simp add: ex_simps ex_facts ex_disk) (elim exE conjE, intro exI conjI; assumption)
qed

end
