(* ===== verification/Handshake.thy ===== *)
theory Handshake
  imports Tasks
begin

text \<open>
  The greeting: what \<open>RunSlave\<close> sends and what the constructor of \<open>SlaveData\<close> waits for fit
  together, provided the greeting is the first datagram that arrives.
\<close>

definition hello :: "cell list" where
  "hello = message (BUFF_SIZE + 1) (reply_text 0 0 48) (map Some MAGIC_STR)"

lemma MAGIC_STR_facts [simp]: "0 \<notin> set MAGIC_STR" "length MAGIC_STR = 37" "MAGIC_STR \<noteq> []"
  by (simp_all add: MAGIC_STR_def bytes_of_def)

lemma hd_MAGIC_STR: "hd MAGIC_STR = 89"
  by (simp add: MAGIC_STR_def bytes_of_def)

lemma reply_text_zero: "reply_text 0 0 48 = [48, 59, 48, 59, 48, 59]"
  by (simp add: reply_text_def dec_int_def dec.simps digit_def)

lemma slave_hello_sent:
  "slave_hello sl = Inr (sl\<lparr>sl_sent := sl_sent sl @ [(sdp_m_servaddr (sl_driver sl), hello)]\<rparr>)"
proof -
  have "c_str (vmem (m_buff hello_data)) = Inr MAGIC_STR"
    by (simp add: hello_data_def Let_def overwrite_def c_str_text)
  moreover have "length (reply_text 0 0 0) \<le> 26" by (rule length_reply_text)
  ultimately have "SlaveDriverProxy_SendReply (sl_driver sl) hello_data =
      Inr (sdp_m_servaddr (sl_driver sl), hello)"
    using SendReply_message [of hello_data 0 0 READ MAGIC_STR "sl_driver sl"]
    by (simp add: hello_data_def Let_def hello_def BUFF_SIZE_def)
  then show ?thesis by (simp add: slave_hello_def reply_to_master_def)
qed

text \<open>The buffer of the constructor after a greeting, whatever was in it before.\<close>

lemma recv_hello:
  assumes "length buff = BUFF_SIZE"
  shows "recv_into BUFF_SIZE buff hello =
    map Some [48, 59, 48, 59, 48, 59] @ Some 0 # map Some MAGIC_STR @ replicate (BUFF_SIZE - 44) (Some 0)"
  using assms
  by (simp add: recv_into_def overwrite_def hello_def message_cells reply_text_zero BUFF_SIZE_def
      del: replicate.simps)

lemma str_eq_padded: "0 \<notin> set t \<Longrightarrow> 0 < n \<Longrightarrow> str_eq (map Some t @ replicate n (Some 0)) t = Inr True"
  by (cases n) (simp_all add: str_eq_text)

lemma handshake_hello:
  "handshake (replicate BUFF_SIZE (Some 0)) 0 (Recv a hello # rs) = Inr a"
proof -
  have "0 < BUFF_SIZE - 44" by (simp add: BUFF_SIZE_def)
  then show ?thesis
    by (simp add: recv_hello str_eq_padded Let_def)
qed

section \<open>A greeting that is not the first datagram\<close>

text \<open>
  \<open>runner\<close> only moves forward: once it is behind the place where the text of a greeting starts, no
  greeting is recognised any more.
\<close>

lemma drop_behind: "length xs = k \<Longrightarrow> k \<le> r \<Longrightarrow> drop r (xs @ ys) = drop (r - k) ys"
  by simp

lemma skip_to_nul_padded:
  "0 \<notin> set s \<Longrightarrow> skip_to_nul (map Some s @ replicate n (Some 0)) =
     (if n = 0 then Inl OutOfBounds else Inr (replicate n (Some 0)))"
  by (induction s; cases n) auto

lemma skip_to_nul_behind:
  assumes "7 < r" and "length buff = BUFF_SIZE"
    and "skip_to_nul (drop r (recv_into BUFF_SIZE buff hello)) = Inr p"
  shows "\<exists>n. p = replicate (Suc n) (Some 0)"
proof -
  define z where "z = BUFF_SIZE - 44"
  have "recv_into BUFF_SIZE buff hello =
      (map Some [48, 59, 48, 59, 48, 59] @ [Some 0]) @ map Some MAGIC_STR @ replicate z (Some 0)"
    by (simp add: recv_hello [OF assms(2)] z_def)
  then have "drop r (recv_into BUFF_SIZE buff hello) =
      map Some (drop (r - 7) MAGIC_STR) @ replicate (z - (r - 44)) (Some 0)"
    using assms(1) drop_behind [of "map Some [48, 59, 48, 59, 48, 59 :: byte] @ [Some 0]" 7 r]
    by (simp add: drop_map)
  moreover have "0 \<notin> set (drop (r - 7) MAGIC_STR)"
    using MAGIC_STR_facts(1) by (blast dest: in_set_dropD)
  ultimately have "p = replicate (z - (r - 44)) (Some 0)" "z - (r - 44) \<noteq> 0"
    using assms(3) skip_to_nul_padded by (auto split: if_splits)
  then show ?thesis by (metis not0_implies_Suc)
qed

lemma str_eq_zeros: "t \<noteq> [] \<Longrightarrow> hd t \<noteq> 0 \<Longrightarrow> str_eq (replicate n (Some 0)) t \<noteq> Inr True"
  by (cases t; cases n) auto

lemma handshake_stuck:
  "7 < r \<Longrightarrow> length buff = BUFF_SIZE \<Longrightarrow> handshake buff r (map (\<lambda>a. Recv a hello) senders) \<noteq> Inr a"
proof (induction senders arbitrary: buff r)
  case (Cons s senders)
  let ?b = "recv_into BUFF_SIZE buff hello"
  show ?case
  proof (cases "skip_to_nul (drop r ?b)")
    case (Inr p)
    with skip_to_nul_behind [OF Cons.prems] obtain n where p: "p = replicate (Suc n) (Some 0)" by blast
    have "length p \<le> length (drop r ?b)"
    proof -
      have "skip_to_nul q = Inr p \<Longrightarrow> length p \<le> length q" for q
        by (induction q rule: skip_to_nul.induct) (auto split: if_splits)
      with Inr show ?thesis by blast
    qed
    then have "7 < length ?b - length p + 1" using Cons.prems p by simp
    from Cons.IH [OF this] Cons.prems(2)
    have rest: "handshake ?b (length ?b - length p + 1) (map (\<lambda>a. Recv a hello) senders) \<noteq> Inr a"
      by simp
    have "str_eq (tl p) MAGIC_STR \<noteq> Inr True"
      using str_eq_zeros [of MAGIC_STR n] by (simp add: p hd_MAGIC_STR)
    with rest Inr show ?thesis
      by (cases "str_eq (tl p) MAGIC_STR") (auto simp: Let_def)
  qed (simp add: Let_def)
qed simp

section \<open>Properties\<close>

text \<open>
  C21: the greeting a slave sends with \<open>RunSlave\<close> is accepted by the constructor of \<open>SlaveData\<close> as
  its first datagram, and the master then knows the address of the slave.
\<close>

theorem greeting_is_accepted:
  assumes "slave_hello sl = Inr sl'" and "socket_result env \<noteq> -1"
    and "\<forall>a. 0 \<le> bind_result env a"
    and "datagrams env = Recv addr (snd (last (sl_sent sl'))) # rs"
  shows "SlaveData_ctor env port = Inr \<lparr>sd_m_socket = socket_result env, m_cliaddr = addr\<rparr>"
proof -
  from assms(1) have "snd (last (sl_sent sl')) = hello" by (auto simp: slave_hello_sent)
  with assms(2-4) handshake_hello show ?thesis
    by (simp add: SlaveData_ctor_def linorder_not_less del: handshake.simps replicate.simps)
qed

text \<open>A slave without a disk, for the witnesses.\<close>

definition new_slave :: slave where
  "new_slave = \<lparr>sl_storage = MmapStorage_ctor True [] 0,
     sl_driver = SlaveDriverProxy_ctor 4 None 6666, sl_sent = []\<rparr>"

definition greeted_by :: "sockaddr_in \<Rightarrow> int \<Rightarrow> slave_env" where
  "greeted_by a sock = \<lparr>socket_result = sock, bind_result = (\<lambda>_. 0), datagrams = [Recv a hello]\<rparr>"

theorem greeting_is_accepted_witness:
  "SlaveData_ctor (greeted_by \<lparr>sin_port = 1, sin_addr = 2\<rparr> 5) 6666 =
     Inr \<lparr>sd_m_socket = 5, m_cliaddr = \<lparr>sin_port = 1, sin_addr = 2\<rparr>\<rparr>"
  using greeting_is_accepted [of new_slave _ "greeted_by \<lparr>sin_port = 1, sin_addr = 2\<rparr> 5"
      "\<lparr>sin_port = 1, sin_addr = 2\<rparr>" "[]"]
  by (auto simp: greeted_by_def slave_hello_sent)

text \<open>
  C23: however many slaves the constructor of \<open>CloudStorage\<close> greets, only the last one is kept,
  because all keys of the map are equal; asking for the sockets of all of them is then only defined
  for one slave, and runs past the end of the map for more.
\<close>

theorem only_the_last_slave_is_kept:
  assumes "CloudStorage_ctor env num storage_size = Inr st" and "num \<noteq> 0"
  shows "\<exists>k s. SlaveData_ctor (env (unat num)) (6666 * num) = Inr s \<and> m_slaves st = [(k, s)] \<and>
    (\<forall>off. GetSlaveData st off = (s, st)) \<and>
    GetAllFds st = (if num = 1 then Inr [sd_m_socket s] else Inl End_Deref)"
proof -
  have u: "unat num \<noteq> 0" using assms(2) by (simp add: unat_eq_0)
  then obtain n where n: "unat num = Suc n" using not0_implies_Suc by blast
  have w: "word_of_nat (Suc n) = num" by (simp only: n [symmetric]) simp
  from assms(1) n add_slaves_last [of env 1 n _ st] obtain k s where
    ks: "SlaveData_ctor (env (unat num)) (6666 * num) = Inr s" "m_slaves st = [(k, s)]"
    "m_num_of_slaves st = num"
    by (fastforce simp: CloudStorage_ctor_def w simp del: add_slaves.simps of_nat_Suc)
  have "num = 1 \<longleftrightarrow> n = 0" using n by (metis One_nat_def unat_1 unsigned_word_eqI old.nat.inject)
  then have "GetAllFds st = (if num = 1 then Inr [sd_m_socket s] else Inl End_Deref)"
    by (cases n) (simp_all add: GetAllFds_def ks n)
  with ks slaves_index_nonempty [OF ks(2)] show ?thesis by blast
qed


lemma greeted_by_ctor:
  "sock \<noteq> -1 \<Longrightarrow> SlaveData_ctor (greeted_by a sock) port = Inr \<lparr>sd_m_socket = sock, m_cliaddr = a\<rparr>"
  using handshake_hello [of a "[]"]
  by (simp add: SlaveData_ctor_def greeted_by_def del: handshake.simps replicate.simps)

theorem only_the_last_slave_is_kept_witness:
  "\<exists>st. CloudStorage_ctor (\<lambda>i. greeted_by \<lparr>sin_port = 1, sin_addr = 2\<rparr> (int i)) 2 0 = Inr st \<and>
     GetAllFds st = Inl End_Deref"
proof -
  let ?env = "\<lambda>i. greeted_by \<lparr>sin_port = 1, sin_addr = 2\<rparr> (int i)"
  have u: "unat (2 :: 64 word) = Suc (Suc 0)" by simp
  have "\<exists>st. CloudStorage_ctor ?env 2 0 = Inr st"
    unfolding CloudStorage_ctor_def u by (simp add: AddSlave_def greeted_by_ctor)
  then obtain st where "CloudStorage_ctor ?env 2 0 = Inr st" ..
  with only_the_last_slave_is_kept [OF this] show ?thesis by auto
qed

text \<open>
  C22: when a late reply to a write (of ten bytes or more, or with a larger id) is the first datagram
  at the port, the constructor of \<open>SlaveData\<close> never accepts a greeting after it, however often it is
  sent, because \<open>runner\<close> is not set back.
\<close>

theorem late_reply_blocks_greeting:
  assumes "datagrams env =
      Recv addr (message (BUFF_SIZE + 1) (reply_text len req_id 49) []) # map (\<lambda>a. Recv a hello) senders"
    and "6 < length (reply_text len req_id 49)"
  shows "SlaveData_ctor env port \<noteq> Inr s"
proof -
  let ?head = "reply_text len req_id 49"
  have "length ?head + 1 + length [] \<le> BUFF_SIZE"
    using length_reply_text [of len req_id 49] by (simp add: BUFF_SIZE_def)
  from recv_longer_message [OF this] have buf:
    "recv_into BUFF_SIZE (replicate BUFF_SIZE (Some 0)) (message (BUFF_SIZE + 1) ?head []) =
       message BUFF_SIZE ?head []" .
  define z where "z = BUFF_SIZE - (length ?head + 1)"
  have m: "message BUFF_SIZE ?head [] = map Some ?head @ Some 0 # replicate z (Some 0)"
    by (simp add: message_cells z_def)
  have l: "length (message BUFF_SIZE ?head []) = BUFF_SIZE"
    using \<open>length ?head + 1 + length [] \<le> BUFF_SIZE\<close> by simp
  have "str_eq (replicate z (Some 0)) MAGIC_STR \<noteq> Inr True"
    by (rule str_eq_zeros) (simp_all add: hd_MAGIC_STR)
  moreover have "handshake (message BUFF_SIZE ?head []) (length ?head + 1)
      (map (\<lambda>a. Recv a hello) senders) \<noteq> Inr a" for a
    using assms(2) l by (intro handshake_stuck) simp_all
  moreover have "skip_to_nul (drop 0 (message BUFF_SIZE ?head [])) = Inr (Some 0 # replicate z (Some 0))"
    by (simp add: m skip_to_nul_text reply_text_no_nul)
  moreover have "length (message BUFF_SIZE ?head []) - length (Some 0 # replicate z (Some (0 :: byte))) + 1 =
      length ?head + 1"
    by (simp add: m)
  ultimately have "handshake (replicate BUFF_SIZE (Some 0)) 0 (datagrams env) \<noteq> Inr a" for a
    unfolding assms(1) handshake.simps(3) Let_def buf
    by (cases "str_eq (replicate z (Some 0)) MAGIC_STR") auto
  then show ?thesis
    by (auto simp: SlaveData_ctor_def bindE_Inr_iff simp del: replicate.simps)
qed

theorem late_reply_blocks_greeting_witness:
  "SlaveData_ctor \<lparr>socket_result = 3, bind_result = (\<lambda>_. 0), datagrams =
      [Recv \<lparr>sin_port = 1, sin_addr = 2\<rparr> (message (BUFF_SIZE + 1) (reply_text 4096 7 49) []),
       Recv \<lparr>sin_port = 1, sin_addr = 2\<rparr> hello]\<rparr> 6666 \<noteq>
     Inr \<lparr>sd_m_socket = 3, m_cliaddr = \<lparr>sin_port = 1, sin_addr = 2\<rparr>\<rparr>"
  by (rule late_reply_blocks_greeting [where len = 4096 and req_id = 7 and senders = "[\<lparr>sin_port = 1, sin_addr = 2\<rparr>]"])
     (simp_all add: reply_text_def dec_int_def dec.simps)

end
