(* ===== verification/Semaphores.thy ===== *)
theory Semaphores
  imports GC_Prelude
begin

text \<open>
  \<open>Semaphore\<close> (semaphore.hpp, semaphore.cpp), the wrapper of a POSIX semaphore.  The model keeps the
  value of the semaphore; the \<open>errno\<close> with which a call fails for a reason of its own comes from the
  system (\<open>None\<close>: it does not fail).
\<close>

definition EAGAIN :: int where "EAGAIN = 11"
definition ETIMEDOUT :: int where "ETIMEDOUT = 110"

definition Semaphore_ctor :: "int option \<Rightarrow> nat res" where
  "Semaphore_ctor err = (case err of Some e \<Rightarrow> Inl (SemError e) | None \<Rightarrow> Inr 0)"

definition Semaphore_Post :: "int option \<Rightarrow> nat \<Rightarrow> nat res" where
  "Semaphore_Post err m_sem = (case err of Some e \<Rightarrow> Inl (SemError e) | None \<Rightarrow> Inr (Suc m_sem))"

definition Semaphore_Wait :: "int option \<Rightarrow> nat \<Rightarrow> nat res" where
  "Semaphore_Wait err m_sem =
     (case err of
        Some e \<Rightarrow> Inl (SemError e)
      | None \<Rightarrow> if m_sem = 0 then Inl Would_Block else Inr (m_sem - 1))"

text \<open>
  \<open>sem_trywait\<close> and \<open>sem_timedwait\<close>: \<open>Inl\<close> is the \<open>errno\<close> of a call that returned -1 and left the
  semaphore as it was.
\<close>

definition sem_trywait :: "int option \<Rightarrow> nat \<Rightarrow> int + nat" where
  "sem_trywait err m_sem =
     (case err of
        Some e \<Rightarrow> Inl e
      | None \<Rightarrow> if m_sem = 0 then Inl EAGAIN else Inr (m_sem - 1))"

definition Semaphore_TryWait :: "int option \<Rightarrow> nat \<Rightarrow> nat res" where
  "Semaphore_TryWait err m_sem =
     (case sem_trywait err m_sem of
        Inl e \<Rightarrow> if EAGAIN \<noteq> e then Inl (SemError e) else Inr m_sem
      | Inr v \<Rightarrow> Inr v)"

definition sem_timedwait :: "int option \<Rightarrow> nat \<Rightarrow> int + nat" where
  "sem_timedwait err m_sem =
     (case err of
        Some e \<Rightarrow> Inl e
      | None \<Rightarrow> if m_sem = 0 then Inl ETIMEDOUT else Inr (m_sem - 1))"

definition Semaphore_TimedWait :: "int option \<Rightarrow> int option \<Rightarrow> nat \<Rightarrow> nat res" where
  "Semaphore_TimedWait clock_err err m_sem =
     (case clock_err of
        Some e \<Rightarrow> Inl (SemError e)
      | None \<Rightarrow>
          (case sem_timedwait err m_sem of
             Inl e \<Rightarrow> if ETIMEDOUT \<noteq> e then Inl (SemError e) else Inl (SemTimeOut e)
           | Inr v \<Rightarrow> Inr v))"

definition Semaphore_GetVal :: "int option \<Rightarrow> nat \<Rightarrow> nat res" where
  "Semaphore_GetVal err m_sem = (case err of Some e \<Rightarrow> Inl (SemError e) | None \<Rightarrow> Inr m_sem)"

section \<open>Properties\<close>

text \<open>
  The ways to take a semaphore that does not fail by itself: all of them decrement a positive
  value; at 0, \<open>Wait\<close> blocks, \<open>TimedWait\<close> throws \<open>SemTimeOut\<close>, and \<open>TryWait\<close> returns normally without
  having taken anything, so that its caller cannot tell the two cases apart.
\<close>

theorem semaphore_waits:
  "Semaphore_Wait None v = (if v = 0 then Inl Would_Block else Inr (v - 1)) \<and>
   Semaphore_TimedWait None None v = (if v = 0 then Inl (SemTimeOut ETIMEDOUT) else Inr (v - 1)) \<and>
   Semaphore_TryWait None v = Inr (v - 1) \<and>
   Semaphore_TryWait (Some e) v = (if e = EAGAIN then Inr v else Inl (SemError e)) \<and>
   bindE (Semaphore_Post None v) (Semaphore_Wait None) = Inr v"
  by (simp add: Semaphore_Wait_def Semaphore_TimedWait_def sem_timedwait_def Semaphore_TryWait_def
      sem_trywait_def Semaphore_Post_def)

end
