(* ===== verification/Thread_Pool.thy ===== *)
theory Thread_Pool
  imports Semaphores
begin

text \<open>
  \<open>ThreadPool\<close> (thread_pool.hpp, thread_pool.cpp) with its queue \<open>WPriorityQueue\<close>
  (wpriorityqueue.hpp) and its tasks (tptask.hpp, tp_sys_task.hpp), as a machine that interleaves the
  steps of the workers with those of the thread that owns the pool.  A step is one operation on shared
  state: an operation on a semaphore, or what is done under the mutex of the queue.
\<close>

section \<open>Tasks\<close>

datatype TaskPriority = LOW | MEDIUM | HIGH | SYSTEM

fun priority_value :: "TaskPriority \<Rightarrow> nat" where
  "priority_value LOW = 0"
| "priority_value MEDIUM = 1"
| "priority_value HIGH = 2"
| "priority_value SYSTEM = 3"

lemma priority_value_inject: "priority_value a = priority_value b \<Longrightarrow> a = b"
  by (cases a; cases b) auto

instantiation TaskPriority :: linorder
begin

definition less_eq_TaskPriority :: "TaskPriority \<Rightarrow> TaskPriority \<Rightarrow> bool" where
  "less_eq_TaskPriority a b \<longleftrightarrow> priority_value a \<le> priority_value b"

definition less_TaskPriority :: "TaskPriority \<Rightarrow> TaskPriority \<Rightarrow> bool" where
  "less_TaskPriority a b \<longleftrightarrow> priority_value a < priority_value b"

instance
  by standard (auto simp: less_eq_TaskPriority_def less_TaskPriority_def dest: priority_value_inject)

end

datatype MsgType = STOP | SUSPEND | RESUME

text \<open>A task of a user, with its priority, or one of the two of the pool itself.\<close>

datatype 'a TPTask = UserTask TaskPriority 'a | TPStop | TPSuspend

fun m_priority :: "'a TPTask \<Rightarrow> TaskPriority" where
  "m_priority (UserTask p a) = p"
| "m_priority TPStop = SYSTEM"
| "m_priority TPSuspend = SYSTEM"

definition TPTask_less :: "'a TPTask \<Rightarrow> 'a TPTask \<Rightarrow> bool" where
  "TPTask_less a b \<longleftrightarrow> m_priority a < m_priority b"

text \<open>\<open>Execute\<close>: a task of a user runs, the others throw a \<open>ThreadMsg\<close>.\<close>

fun Execute :: "'a TPTask \<Rightarrow> MsgType + 'a" where
  "Execute (UserTask p a) = Inr a"
| "Execute TPStop = Inl STOP"
| "Execute TPSuspend = Inl SUSPEND"

section \<open>The queue\<close>

text \<open>
  The elements in a list whose order means nothing: \<open>std::priority_queue\<close> may give any element that
  is not less than another one, so that the position \<open>j\<close> it takes is an argument of \<open>LockAndPop\<close>.
\<close>

record 'a WPriorityQueue =
  m_pq :: "'a TPTask list"
  pq_m_sem :: nat

definition is_top :: "'a TPTask list \<Rightarrow> nat \<Rightarrow> bool" where
  "is_top pq j \<longleftrightarrow> j < length pq \<and> (\<forall>t \<in> set pq. \<not> TPTask_less (pq ! j) t)"

definition WPriorityQueue_Push :: "'a TPTask \<Rightarrow> 'a WPriorityQueue \<Rightarrow> 'a WPriorityQueue" where
  "WPriorityQueue_Push t q = q\<lparr>m_pq := m_pq q @ [t], pq_m_sem := Suc (pq_m_sem q)\<rparr>"

text \<open>\<open>Pop\<close> is the wait for the semaphore, then \<open>LockAndPop\<close>.\<close>

definition Pop_Wait :: "'a WPriorityQueue \<Rightarrow> 'a WPriorityQueue option" where
  "Pop_Wait q = (case Semaphore_Wait None (pq_m_sem q) of
     Inl _ \<Rightarrow> None | Inr v \<Rightarrow> Some (q\<lparr>pq_m_sem := v\<rparr>))"

definition LockAndPop :: "nat \<Rightarrow> 'a WPriorityQueue \<Rightarrow> ('a TPTask \<times> 'a WPriorityQueue) option" where
  "LockAndPop j q =
     (if is_top (m_pq q) j
      then Some (m_pq q ! j, q\<lparr>m_pq := take j (m_pq q) @ drop (Suc j) (m_pq q)\<rparr>)
      else None)"

text \<open>
  \<open>Pop\<close> with a time-out: \<open>SemTimeOut\<close> is the answer \<open>false\<close>, every other exception of the semaphore goes on.
  \<open>None\<close> where \<open>j\<close> is not a top of the queue.
\<close>

definition WPriorityQueue_Pop_TimeOut ::
  "int option \<Rightarrow> int option \<Rightarrow> nat \<Rightarrow> 'a WPriorityQueue \<Rightarrow> ('a TPTask option \<times> 'a WPriorityQueue) res option" where
  "WPriorityQueue_Pop_TimeOut clock_err err j q =
     (case Semaphore_TimedWait clock_err err (pq_m_sem q) of
        Inl (SemTimeOut e) \<Rightarrow> Some (Inr (None, q))
      | Inl f \<Rightarrow> Some (Inl f)
      | Inr v \<Rightarrow> map_option (\<lambda>(t, q). Inr (Some t, q)) (LockAndPop j (q\<lparr>pq_m_sem := v\<rparr>)))"

definition WPriorityQueue_Size :: "'a WPriorityQueue \<Rightarrow> nat" where
  "WPriorityQueue_Size q = length (m_pq q)"

definition WPriorityQueue_IsEmpty :: "'a WPriorityQueue \<Rightarrow> bool" where
  "WPriorityQueue_IsEmpty q \<longleftrightarrow> m_pq q = []"

section \<open>The pool\<close>

text \<open>
  Where a worker stands in \<open>ThreadFunc\<close>: waiting for a task, about to take it, executing it, in the
  three steps of the handler of \<open>SUSPEND\<close>, or at the end of the function.
\<close>

datatype 'a worker =
  Waiting | Popping | Executing "'a TPTask" | Suspending | Suspended | Resuming | Ended

text \<open>What the owner of the pool does, operation by operation.\<close>

datatype 'a main_op = Push "'a TPTask" | Main_Wait | Thread_Post | JoinThread nat

record 'a ThreadPool =
  m_task_queue :: "'a WPriorityQueue"
  m_thread_sem :: nat
  m_main_sem :: nat
  m_threads :: "'a worker list"
  script :: "'a main_op list"
  executed :: "'a list"

definition AddTask_ops :: "'a TPTask \<Rightarrow> 'a main_op list" where
  "AddTask_ops t = [Push t]"

definition Stop_ops :: "nat \<Rightarrow> 'a main_op list" where
  "Stop_ops thread_num = replicate thread_num (Push TPStop) @ map JoinThread [0..<thread_num]"

definition Suspend_ops :: "nat \<Rightarrow> 'a main_op list" where
  "Suspend_ops thread_num = replicate thread_num (Push TPSuspend) @ replicate thread_num Main_Wait"

definition Resume_ops :: "nat \<Rightarrow> 'a main_op list" where
  "Resume_ops thread_num = replicate thread_num Thread_Post @ replicate thread_num Main_Wait"

text \<open>The destructor stops the pool when its first thread can still be joined.\<close>

definition ThreadPool_dtor_ops :: "bool \<Rightarrow> nat \<Rightarrow> 'a main_op list" where
  "ThreadPool_dtor_ops joinable thread_num = (if joinable then Stop_ops thread_num else [])"

text \<open>\<open>Stop\<close> with a time-out and \<open>SetSize\<close> do nothing.\<close>

definition Stop_TimeOut_ops :: "int \<Rightarrow> 'a main_op list" where
  "Stop_TimeOut_ops time_out = []"

definition SetSize_ops :: "nat \<Rightarrow> 'a main_op list" where
  "SetSize_ops new_num_of_threads = []"

definition CheackNum :: "nat \<Rightarrow> nat" where
  "CheackNum num_of_threads = (if num_of_threads = 0 then 1 else num_of_threads)"

definition ThreadPool_ctor :: "nat \<Rightarrow> 'a main_op list \<Rightarrow> 'a ThreadPool" where
  "ThreadPool_ctor num_of_threads ops =
     \<lparr>m_task_queue = \<lparr>m_pq = [], pq_m_sem = 0\<rparr>, m_thread_sem = 0, m_main_sem = 0,
      m_threads = replicate (CheackNum num_of_threads) Waiting, script = ops, executed = []\<rparr>"

text \<open>One operation of the owner; \<open>None\<close> when it has to wait, or has nothing left to do.\<close>

definition main_step :: "'a ThreadPool \<Rightarrow> 'a ThreadPool option" where
  "main_step s =
     (case script s of
        [] \<Rightarrow> None
      | Push t # r \<Rightarrow> Some (s\<lparr>script := r, m_task_queue := WPriorityQueue_Push t (m_task_queue s)\<rparr>)
      | Main_Wait # r \<Rightarrow>
          if m_main_sem s = 0 then None else Some (s\<lparr>script := r, m_main_sem := m_main_sem s - 1\<rparr>)
      | Thread_Post # r \<Rightarrow> Some (s\<lparr>script := r, m_thread_sem := Suc (m_thread_sem s)\<rparr>)
      | JoinThread i # r \<Rightarrow>
          if i < length (m_threads s) \<and> m_threads s ! i = Ended then Some (s\<lparr>script := r\<rparr>) else None)"

text \<open>One step of the worker \<open>i\<close> in \<open>ThreadFunc\<close>; \<open>j\<close> is what the queue takes as its top.\<close>

definition worker_step :: "nat \<Rightarrow> nat \<Rightarrow> 'a ThreadPool \<Rightarrow> 'a ThreadPool option" where
  "worker_step i j s =
     (if i < length (m_threads s)
      then
        let to = (\<lambda>w s. s\<lparr>m_threads := (m_threads s)[i := w]\<rparr>)
        in case m_threads s ! i of
             Waiting \<Rightarrow> map_option (\<lambda>q. to Popping (s\<lparr>m_task_queue := q\<rparr>)) (Pop_Wait (m_task_queue s))
           | Popping \<Rightarrow>
               map_option (\<lambda>(t, q). to (Executing t) (s\<lparr>m_task_queue := q\<rparr>)) (LockAndPop j (m_task_queue s))
           | Executing t \<Rightarrow>
               Some (case Execute t of
                   Inr a \<Rightarrow> to Waiting (s\<lparr>executed := executed s @ [a]\<rparr>)
                 | Inl STOP \<Rightarrow> to Ended s
                 | Inl SUSPEND \<Rightarrow> to Suspending s
                 | Inl RESUME \<Rightarrow> to Waiting s)
           | Suspending \<Rightarrow> Some (to Suspended (s\<lparr>m_main_sem := Suc (m_main_sem s)\<rparr>))
           | Suspended \<Rightarrow>
               if m_thread_sem s = 0 then None
               else Some (to Resuming (s\<lparr>m_thread_sem := m_thread_sem s - 1\<rparr>))
           | Resuming \<Rightarrow> Some (to Waiting (s\<lparr>m_main_sem := Suc (m_main_sem s)\<rparr>))
           | Ended \<Rightarrow> None
      else None)"

inductive pool_step :: "'a ThreadPool \<Rightarrow> 'a ThreadPool \<Rightarrow> bool" where
  main: "main_step s = Some s' \<Longrightarrow> pool_step s s'"
| worker: "worker_step i j s = Some s' \<Longrightarrow> pool_step s s'"

inductive pool_reaches :: "'a ThreadPool \<Rightarrow> 'a ThreadPool \<Rightarrow> bool" for s0 where
  start: "pool_reaches s0 s0"
| step: "pool_reaches s0 s \<Longrightarrow> pool_step s s' \<Longrightarrow> pool_reaches s0 s'"

section \<open>The steps, case by case\<close>

definition move :: "nat \<Rightarrow> 'a worker \<Rightarrow> 'a ThreadPool \<Rightarrow> 'a ThreadPool" where
  "move i w s = s\<lparr>m_threads := (m_threads s)[i := w]\<rparr>"

lemma pool_step_cases [consumes 1, case_names push main_wait post join take pop run stop suspend post_main wake resumed]:
  assumes "pool_step s s'"
  obtains
    (push) t r where "script s = Push t # r"
      "s' = s\<lparr>script := r, m_task_queue := WPriorityQueue_Push t (m_task_queue s)\<rparr>"
  | (main_wait) k r where "script s = Main_Wait # r" "m_main_sem s = Suc k"
      "s' = s\<lparr>script := r, m_main_sem := k\<rparr>"
  | (post) r where "script s = Thread_Post # r"
      "s' = s\<lparr>script := r, m_thread_sem := Suc (m_thread_sem s)\<rparr>"
  | (join) i r where "script s = JoinThread i # r" "i < length (m_threads s)" "m_threads s ! i = Ended"
      "s' = s\<lparr>script := r\<rparr>"
  | (take) i k where "i < length (m_threads s)" "m_threads s ! i = Waiting"
      "pq_m_sem (m_task_queue s) = Suc k"
      "s' = move i Popping (s\<lparr>m_task_queue := (m_task_queue s)\<lparr>pq_m_sem := k\<rparr>\<rparr>)"
  | (pop) i j where "i < length (m_threads s)" "m_threads s ! i = Popping"
      "is_top (m_pq (m_task_queue s)) j"
      "s' = move i (Executing (m_pq (m_task_queue s) ! j)) (s\<lparr>m_task_queue := (m_task_queue s)
         \<lparr>m_pq := take j (m_pq (m_task_queue s)) @ drop (Suc j) (m_pq (m_task_queue s))\<rparr>\<rparr>)"
  | (run) i p a where "i < length (m_threads s)" "m_threads s ! i = Executing (UserTask p a)"
      "s' = move i Waiting (s\<lparr>executed := executed s @ [a]\<rparr>)"
  | (stop) i where "i < length (m_threads s)" "m_threads s ! i = Executing TPStop" "s' = move i Ended s"
  | (suspend) i where "i < length (m_threads s)" "m_threads s ! i = Executing TPSuspend"
      "s' = move i Suspending s"
  | (post_main) i where "i < length (m_threads s)" "m_threads s ! i = Suspending"
      "s' = move i Suspended (s\<lparr>m_main_sem := Suc (m_main_sem s)\<rparr>)"
  | (wake) i k where "i < length (m_threads s)" "m_threads s ! i = Suspended" "m_thread_sem s = Suc k"
      "s' = move i Resuming (s\<lparr>m_thread_sem := k\<rparr>)"
  | (resumed) i where "i < length (m_threads s)" "m_threads s ! i = Resuming"
      "s' = move i Waiting (s\<lparr>m_main_sem := Suc (m_main_sem s)\<rparr>)"
  using assms
proof cases
  case main
  show thesis
  proof (cases "script s")
    case Nil
    with main show thesis by (simp add: main_step_def)
  next
    case (Cons x r)
    show thesis
    proof (cases x)
      case (Push t)
      with Cons main push show thesis by (simp add: main_step_def)
    next
      case Main_Wait
      with Cons main main_wait show thesis
        by (cases "m_main_sem s") (simp_all add: main_step_def)
    next
      case Thread_Post
      with Cons main post show thesis by (simp add: main_step_def)
    next
      case (JoinThread i)
      with Cons main join show thesis by (simp add: main_step_def split: if_splits)
    qed
  qed
next
  case (worker i j)
  then have i: "i < length (m_threads s)" by (simp add: worker_step_def split: if_splits)
  show thesis
  proof (cases "m_threads s ! i")
    case Waiting
    with worker i take show thesis
      by (cases "pq_m_sem (m_task_queue s)")
         (auto simp: worker_step_def Pop_Wait_def Semaphore_Wait_def move_def)
  next
    case Popping
    with worker i pop show thesis
      by (auto simp: worker_step_def LockAndPop_def move_def split: if_splits)
  next
    case (Executing t)
    with worker i run stop suspend show thesis
      by (cases t) (auto simp: worker_step_def move_def)
  next
    case Suspending
    with worker i post_main show thesis by (auto simp: worker_step_def move_def)
  next
    case Suspended
    with worker i wake show thesis
      by (cases "m_thread_sem s") (auto simp: worker_step_def move_def)
  next
    case Resuming
    with worker i resumed show thesis by (auto simp: worker_step_def move_def)
  next
    case Ended
    with worker i show thesis by (simp add: worker_step_def)
  qed
qed

lemma move_simps [simp]:
  "m_threads (move i w s) = (m_threads s)[i := w]" "script (move i w s) = script s"
  "m_task_queue (move i w s) = m_task_queue s" "m_main_sem (move i w s) = m_main_sem s"
  "m_thread_sem (move i w s) = m_thread_sem s" "executed (move i w s) = executed s"
  by (simp_all add: move_def)

lemma Push_simps [simp]:
  "m_pq (WPriorityQueue_Push t q) = m_pq q @ [t]"
  "pq_m_sem (WPriorityQueue_Push t q) = Suc (pq_m_sem q)"
  by (simp_all add: WPriorityQueue_Push_def)

lemma ThreadPool_ctor_simps [simp]:
  "m_task_queue (ThreadPool_ctor n ops) = \<lparr>m_pq = [], pq_m_sem = 0\<rparr>"
  "m_thread_sem (ThreadPool_ctor n ops) = 0" "m_main_sem (ThreadPool_ctor n ops) = 0"
  "m_threads (ThreadPool_ctor n ops) = replicate (CheackNum n) Waiting"
  "script (ThreadPool_ctor n ops) = ops" "executed (ThreadPool_ctor n ops) = []"
  by (simp_all add: ThreadPool_ctor_def)

text \<open>An invariant of the steps holds in everything that is reached.\<close>

lemma pool_invariant:
  assumes "pool_reaches s0 s" and "I s0" and "\<And>s s'. I s \<Longrightarrow> pool_step s s' \<Longrightarrow> I s'"
  shows "I s"
  using assms(1) by induction (use assms in auto)

text \<open>Sums over the workers and over the queue.\<close>

definition total_of :: "('b \<Rightarrow> 'c::comm_monoid_add) \<Rightarrow> 'b list \<Rightarrow> 'c" where
  "total_of f xs = sum_list (map f xs)"

lemma total_of_simps [simp]:
  "total_of f [] = 0" "total_of f (x # xs) = f x + total_of f xs" "total_of f (xs @ ys) = total_of f xs + total_of f ys"
  by (simp_all add: total_of_def)

lemma total_of_replicate [simp]: "total_of f (replicate n x) = n * f x"
  by (simp add: total_of_def sum_list_replicate)

lemma total_update: "i < length xs \<Longrightarrow> total_of f (xs[i := y]) + f (xs ! i) = total_of f xs + f y"
  by (induction xs arbitrary: i) (auto simp: less_Suc_eq_0_disj add.assoc add.left_commute add.commute)

lemma total_remove:
  "j < length xs \<Longrightarrow> total_of f (take j xs @ drop (Suc j) xs) + f (xs ! j) = total_of f xs"
  by (induction xs arbitrary: j) (auto simp: less_Suc_eq_0_disj ac_simps)

definition workers :: "('a worker \<Rightarrow> bool) \<Rightarrow> 'a ThreadPool \<Rightarrow> nat" where
  "workers P s = length (filter P (m_threads s))"

lemma workers_total: "workers P s = total_of (\<lambda>w. if P w then 1 else 0 :: nat) (m_threads s)"
proof -
  have "length (filter P xs) = total_of (\<lambda>w. if P w then 1 else 0 :: nat) xs" for xs :: "'a worker list"
    by (induction xs) auto
  then show ?thesis by (simp add: workers_def)
qed

lemma workers_move:
  "i < length (m_threads s) \<Longrightarrow> workers P (move i w s) + (if P (m_threads s ! i) then 1 else 0) =
     workers P s + (if P w then 1 else 0)"
  using total_update [of i "m_threads s" "\<lambda>w. if P w then 1 else 0 :: nat" w] by (simp add: workers_total)

lemma workers_other [simp]:
  "workers P (s\<lparr>script := r\<rparr>) = workers P s" "workers P (s\<lparr>m_task_queue := q\<rparr>) = workers P s"
  "workers P (s\<lparr>m_main_sem := k\<rparr>) = workers P s" "workers P (s\<lparr>m_thread_sem := k\<rparr>) = workers P s"
  "workers P (s\<lparr>executed := e\<rparr>) = workers P s"
  by (simp_all add: workers_def)

lemma workers_le: "workers P s \<le> length (m_threads s)"
  by (simp add: workers_def)

lemma workers_pos: "i < length (m_threads s) \<Longrightarrow> P (m_threads s ! i) \<Longrightarrow> 0 < workers P s"
  by (auto simp: workers_def filter_empty_conv)

lemma workers_all: "workers P s = length (m_threads s) \<Longrightarrow> w \<in> set (m_threads s) \<Longrightarrow> P w"
  unfolding workers_def by (metis length_filter_less less_irrefl)

end
