(* ===== verification/Pool_Runs.thy ===== *)
theory Pool_Runs
  imports Thread_Pool
begin

text \<open>
  What holds in every run of the thread pool: no worker takes from an empty queue, no task is lost or
  run twice, runs are finite, \<open>Suspend\<close> waits until no worker runs, \<open>Stop\<close> comes to its end, and tasks
  that are still in the queue when \<open>Stop\<close> begins may never run.
\<close>

section \<open>Weighing the tasks wherever they are\<close>

text \<open>
  The weight of the operations still to do, of the queue and of the workers; how each step changes it
  is stated once and used for the conservation of tasks, for termination and for counting the stops.
\<close>

definition weight ::
  "('a main_op \<Rightarrow> 'c::cancel_comm_monoid_add) \<Rightarrow> ('a TPTask \<Rightarrow> 'c) \<Rightarrow> ('a worker \<Rightarrow> 'c) \<Rightarrow> 'a ThreadPool \<Rightarrow> 'c"
where
  "weight fo fq fw s = total_of fo (script s) + total_of fq (m_pq (m_task_queue s)) + total_of fw (m_threads s)"

lemma weight_move:
  assumes "i < length (m_threads s)" and "m_threads s' = (m_threads s)[i := w]"
    and "script s' = script s" and "m_task_queue s' = m_task_queue s"
  shows "weight fo fq fw s' + fw (m_threads s ! i) = weight fo fq fw s + fw w"
  using total_update [OF assms(1), of fw w] assms(2-4) by (simp add: weight_def add.assoc)

lemma weight_take:
  assumes "i < length (m_threads s)" and "m_threads s ! i = Waiting"
    and "s' = move i Popping (s\<lparr>m_task_queue := (m_task_queue s)\<lparr>pq_m_sem := k\<rparr>\<rparr>)"
  shows "weight fo fq fw s' + fw Waiting = weight fo fq fw s + fw Popping"
  using total_update [OF assms(1), of fw Popping] assms(2,3) by (simp add: weight_def add.assoc)

lemma weight_pop:
  assumes "i < length (m_threads s)" and "m_threads s ! i = Popping" and j: "is_top (m_pq (m_task_queue s)) j"
    and "s' = move i (Executing (m_pq (m_task_queue s) ! j)) (s\<lparr>m_task_queue := (m_task_queue s)
         \<lparr>m_pq := take j (m_pq (m_task_queue s)) @ drop (Suc j) (m_pq (m_task_queue s))\<rparr>\<rparr>)"
  shows "weight fo fq fw s' + (fw Popping + fq (m_pq (m_task_queue s) ! j)) =
    weight fo fq fw s + fw (Executing (m_pq (m_task_queue s) ! j))"
proof -
  let ?t = "m_pq (m_task_queue s) ! j"
  have t: "total_of fw ((m_threads s)[i := Executing ?t]) + fw Popping =
      total_of fw (m_threads s) + fw (Executing ?t)"
    using total_update [OF assms(1), of fw "Executing ?t"] assms(2) by simp
  have q: "total_of fq (take j (m_pq (m_task_queue s)) @ drop (Suc j) (m_pq (m_task_queue s))) + fq ?t =
      total_of fq (m_pq (m_task_queue s))"
    using j by (intro total_remove) (simp add: is_top_def)
  have "weight fo fq fw s' + (fw Popping + fq ?t) = total_of fo (script s) +
      (total_of fq (take j (m_pq (m_task_queue s)) @ drop (Suc j) (m_pq (m_task_queue s))) + fq ?t) +
      (total_of fw ((m_threads s)[i := Executing ?t]) + fw Popping)"
    unfolding assms(4) by (simp add: weight_def ac_simps)
  also have "\<dots> = weight fo fq fw s + fw (Executing ?t)"
    unfolding t q by (simp add: weight_def ac_simps)
  finally show ?thesis .
qed

lemma weight_script:
  assumes "script s = x # r" and "m_threads s' = m_threads s" and "script s' = r"
    and "m_pq (m_task_queue s') = m_pq (m_task_queue s) @ q"
  shows "weight fo fq fw s' + fo x = weight fo fq fw s + total_of fq q"
  using assms by (simp add: weight_def ac_simps)

fun op_task :: "'a main_op \<Rightarrow> 'a TPTask list" where
  "op_task (Push t) = [t]"
| "op_task _ = []"

text \<open>What a worker does next on its own, when it need not take anything from the queue.\<close>

fun next_state :: "'a worker \<Rightarrow> 'a worker option" where
  "next_state (Executing (UserTask p a)) = Some Waiting"
| "next_state (Executing TPStop) = Some Ended"
| "next_state (Executing TPSuspend) = Some Suspending"
| "next_state Suspending = Some Suspended"
| "next_state Suspended = Some Resuming"
| "next_state Resuming = Some Waiting"
| "next_state _ = None"

fun runs :: "'a worker \<Rightarrow> 'a list" where
  "runs (Executing (UserTask p a)) = [a]"
| "runs _ = []"

text \<open>The twelve kinds of steps in four groups, each with its effect on a weight.\<close>

lemma step_groups [consumes 1, case_names main take pop move]:
  assumes "pool_step s s'"
  obtains
    (main) x r where "script s = x # r" "script s' = r" "m_threads s' = m_threads s"
      "executed s' = executed s"
      "m_pq (m_task_queue s') = m_pq (m_task_queue s) @ op_task x"
      "pq_m_sem (m_task_queue s') = pq_m_sem (m_task_queue s) + length (op_task x)"
      "m_thread_sem s' = m_thread_sem s + (if x = Thread_Post then 1 else 0)"
      "m_main_sem s = m_main_sem s' + (if x = Main_Wait then 1 else 0)"
      "\<forall>i. x = JoinThread i \<longrightarrow> i < length (m_threads s) \<and> m_threads s ! i = Ended"
      "weight fo fq fw s' + fo x = weight fo fq fw s + total_of fq (op_task x)"
  | (take) i where "i < length (m_threads s)" "m_threads s ! i = Waiting"
      "m_threads s' = (m_threads s)[i := Popping]"
      "script s' = script s" "executed s' = executed s"
      "m_thread_sem s' = m_thread_sem s" "m_main_sem s' = m_main_sem s"
      "m_pq (m_task_queue s') = m_pq (m_task_queue s)"
      "pq_m_sem (m_task_queue s) = Suc (pq_m_sem (m_task_queue s'))"
      "weight fo fq fw s' + fw Waiting = weight fo fq fw s + fw Popping"
  | (pop) i j where "i < length (m_threads s)" "m_threads s ! i = Popping"
      "is_top (m_pq (m_task_queue s)) j"
      "m_threads s' = (m_threads s)[i := Executing (m_pq (m_task_queue s) ! j)]"
      "script s' = script s" "executed s' = executed s"
      "m_thread_sem s' = m_thread_sem s" "m_main_sem s' = m_main_sem s"
      "m_pq (m_task_queue s') = take j (m_pq (m_task_queue s)) @ drop (Suc j) (m_pq (m_task_queue s))"
      "pq_m_sem (m_task_queue s') = pq_m_sem (m_task_queue s)"
      "weight fo fq fw s' + (fw Popping + fq (m_pq (m_task_queue s) ! j)) =
       weight fo fq fw s + fw (Executing (m_pq (m_task_queue s) ! j))"
  | (move) i w w' where "i < length (m_threads s)" "m_threads s ! i = w" "next_state w = Some w'"
      "m_threads s' = (m_threads s)[i := w']" "script s' = script s" "m_task_queue s' = m_task_queue s"
      "executed s' = executed s @ runs w"
      "m_main_sem s' = m_main_sem s + (if w = Suspending \<or> w = Resuming then 1 else 0)"
      "m_thread_sem s = m_thread_sem s' + (if w = Suspended then 1 else 0)"
      "weight fo fq fw s' + fw w = weight fo fq fw s + fw w'"
  using assms
proof (cases rule: pool_step_cases)
  case (push t r)
  with weight_script [of s "Push t" r s' "[t]" fo fq fw] show ?thesis by (intro main) auto
next
  case (main_wait k r)
  with weight_script [of s Main_Wait r s' "[]" fo fq fw] show ?thesis by (intro main) auto
next
  case (post r)
  with weight_script [of s Thread_Post r s' "[]" fo fq fw] show ?thesis by (intro main) auto
next
  case (join i r)
  with weight_script [of s "JoinThread i" r s' "[]" fo fq fw] show ?thesis by (intro main) auto
next
  case (take i k)
  with weight_take [OF take(1,2,4)] show ?thesis by (intro that(2)) auto
next
  case (pop i j)
  with weight_pop [OF pop] show ?thesis by (intro that(3)) auto
next
  case (run i p a)
  with weight_move [OF run(1), of s' Waiting] show ?thesis by (intro move) auto
next
  case (stop i)
  with weight_move [OF stop(1), of s' Ended] show ?thesis by (intro move) auto
next
  case (suspend i)
  with weight_move [OF suspend(1), of s' Suspending] show ?thesis by (intro move) auto
next
  case (post_main i)
  with weight_move [OF post_main(1), of s' Suspended] show ?thesis by (intro move) auto
next
  case (wake i k)
  with weight_move [OF wake(1), of s' Resuming] show ?thesis by (intro move) auto
next
  case (resumed i)
  with weight_move [OF resumed(1), of s' Waiting] show ?thesis by (intro move) auto
qed

section \<open>The semaphore counts the queue\<close>

text \<open>Every ticket of the semaphore of the queue, and every worker that holds one, stands for an element.\<close>

definition tickets :: "'a ThreadPool \<Rightarrow> bool" where
  "tickets s \<longleftrightarrow> pq_m_sem (m_task_queue s) + workers (\<lambda>w. w = Popping) s = length (m_pq (m_task_queue s))"

lemma workers_update:
  assumes "i < length (m_threads s)" and "m_threads s' = (m_threads s)[i := w]"
  shows "workers P s' + (if P (m_threads s ! i) then 1 else 0) = workers P s + (if P w then 1 else 0)"
  using workers_move [OF assms(1), of P w] assms(2) by (simp add: workers_def)

lemma workers_same: "m_threads s' = m_threads s \<Longrightarrow> workers P s' = workers P s"
  by (simp add: workers_def)

lemma tickets_step:
  assumes "tickets s" and "pool_step s s'" shows "tickets s'"
  using assms(2)
proof (cases rule: step_groups [where fo = "\<lambda>_. 0 :: nat" and fq = "\<lambda>_. 0" and fw = "\<lambda>_. 0"])
  case (main x r)
  with assms(1) workers_same [OF main(3)] show ?thesis by (simp add: tickets_def)
next
  case (take i)
  with assms(1) workers_update [OF take(1,3), of "\<lambda>w. w = Popping"] show ?thesis
    by (simp add: tickets_def)
next
  case (pop i j)
  with assms(1) workers_update [OF pop(1,4), of "\<lambda>w. w = Popping"] show ?thesis
    by (auto simp: tickets_def is_top_def)
next
  case (move i w w')
  with assms(1) workers_update [OF move(1,4), of "\<lambda>w. w = Popping"] show ?thesis
    by (cases w rule: next_state.cases) (auto simp: tickets_def)
qed

section \<open>Conservation of tasks\<close>

fun user :: "'a TPTask \<Rightarrow> 'a multiset" where
  "user (UserTask p a) = {#a#}"
| "user _ = {#}"

definition pushed :: "('a TPTask \<Rightarrow> 'c::comm_monoid_add) \<Rightarrow> 'a main_op \<Rightarrow> 'c" where
  "pushed f x = total_of f (op_task x)"

fun held :: "('a TPTask \<Rightarrow> 'c::comm_monoid_add) \<Rightarrow> 'a worker \<Rightarrow> 'c" where
  "held f (Executing t) = f t"
| "held f _ = 0"

definition content :: "'a ThreadPool \<Rightarrow> 'a multiset" where
  "content s = weight (pushed user) user (held user) s + mset (executed s)"

lemma content_step: "pool_step s s' \<Longrightarrow> content s' = content s"
proof (induction rule: step_groups [where fo = "pushed user" and fq = user and fw = "held user"])
  case (main x r)
  then show ?case by (simp add: content_def pushed_def)
next
  case (move i w w')
  then show ?case by (cases w rule: next_state.cases) (auto simp: content_def)
qed (simp_all add: content_def)

section \<open>Runs are finite\<close>

fun op_size :: "'a main_op \<Rightarrow> nat" where
  "op_size (Push t) = 7"
| "op_size Thread_Post = 2"
| "op_size _ = 1"

fun worker_size :: "'a worker \<Rightarrow> nat" where
  "worker_size Waiting = 0"
| "worker_size Popping = 1"
| "worker_size (Executing t) = 3"
| "worker_size Suspending = 2"
| "worker_size Suspended = 1"
| "worker_size Resuming = 1"
| "worker_size Ended = 0"

definition pool_size :: "'a ThreadPool \<Rightarrow> nat" where
  "pool_size s = weight op_size (\<lambda>_. 4) worker_size s + 2 * pq_m_sem (m_task_queue s) + m_thread_sem s"

lemma pool_size_step: "pool_step s s' \<Longrightarrow> pool_size s' < pool_size s"
proof (induction rule: step_groups [where fo = op_size and fq = "\<lambda>_. 4" and fw = worker_size])
  case (main x r)
  then show ?case by (cases x) (auto simp: pool_size_def)
next
  case (move i w w')
  then show ?case by (cases w rule: next_state.cases) (auto simp: pool_size_def)
qed (simp_all add: pool_size_def)

section \<open>Suspending\<close>

definition waits :: "'a main_op list \<Rightarrow> nat" where
  "waits ops = length (filter (\<lambda>x. x = Main_Wait) ops)"

lemma waits_simps [simp]:
  "waits [] = 0" "waits (x # ops) = (if x = Main_Wait then 1 else 0) + waits ops"
  "waits (xs @ ys) = waits xs + waits ys" "waits (replicate k Main_Wait) = k"
  "waits (map Push ts) = 0" "waits (replicate k (Push t)) = 0"
  by (simp_all add: waits_def filter_empty_conv)

text \<open>
  Without \<open>Resume\<close> a worker that has told the owner of its suspension stays suspended, so that the
  owner has waited at most once for each of them.
\<close>

definition suspended_inv :: "nat \<Rightarrow> 'a ThreadPool \<Rightarrow> bool" where
  "suspended_inv k s \<longleftrightarrow> Thread_Post \<notin> set (script s) \<and> m_thread_sem s = 0 \<and>
     workers (\<lambda>w. w = Resuming) s = 0 \<and>
     m_main_sem s + k = workers (\<lambda>w. w = Suspended) s + waits (script s)"

lemma suspended_inv_step:
  assumes "suspended_inv k s" and "pool_step s s'" shows "suspended_inv k s'"
  using assms(2)
proof (cases rule: step_groups [where fo = "\<lambda>_. 0 :: nat" and fq = "\<lambda>_. 0" and fw = "\<lambda>_. 0"])
  case (main x r)
  with assms(1) workers_same [OF main(3)] show ?thesis
    by (auto simp: suspended_inv_def split: if_splits)
next
  case (take i)
  with assms(1) workers_update [OF take(1,3), of "\<lambda>w. w = Resuming"]
    workers_update [OF take(1,3), of "\<lambda>w. w = Suspended"] show ?thesis
    by (simp add: suspended_inv_def)
next
  case (pop i j)
  with assms(1) workers_update [OF pop(1,4), of "\<lambda>w. w = Resuming"]
    workers_update [OF pop(1,4), of "\<lambda>w. w = Suspended"] show ?thesis
    by (simp add: suspended_inv_def)
next
  case (move i w w')
  have "w \<noteq> Resuming"
    using workers_pos [OF move(1), of "\<lambda>w. w = Resuming"] move(2) assms(1) by (auto simp: suspended_inv_def)
  moreover have "w \<noteq> Suspended" using move(9) assms(1) by (auto simp: suspended_inv_def)
  ultimately show ?thesis
    using assms(1) move workers_update [OF move(1,4), of "\<lambda>w. w = Resuming"]
      workers_update [OF move(1,4), of "\<lambda>w. w = Suspended"]
    by (cases w rule: next_state.cases) (auto simp: suspended_inv_def)
qed

lemma suspended_inv_start:
  "Thread_Post \<notin> set ops \<Longrightarrow> suspended_inv (waits ops) (ThreadPool_ctor n ops)"
  by (simp add: suspended_inv_def workers_def)

lemma length_threads_step: "pool_step s s' \<Longrightarrow> length (m_threads s') = length (m_threads s)"
  by (induction rule: step_groups [where fo = "\<lambda>_. 0 :: nat" and fq = "\<lambda>_. 0" and fw = "\<lambda>_. 0"]) simp_all

lemma length_threads:
  "pool_reaches (ThreadPool_ctor n ops) s \<Longrightarrow> length (m_threads s) = CheackNum n"
  by (erule pool_invariant [where I = "\<lambda>s. length (m_threads s) = CheackNum n"])
     (simp_all add: length_threads_step)

lemma waits_bound:
  assumes "pool_reaches (ThreadPool_ctor n ops) s" and "Thread_Post \<notin> set ops" and "script s = []"
  shows "waits ops \<le> workers (\<lambda>w. w = Suspended) s"
proof -
  have "suspended_inv (waits ops) s"
    using assms(1) suspended_inv_start [OF assms(2)] suspended_inv_step by (rule pool_invariant)
  with assms(3) show ?thesis by (simp add: suspended_inv_def)
qed

section \<open>Stopping\<close>

definition is_stop :: "'a TPTask \<Rightarrow> nat" where
  "is_stop t = (if t = TPStop then 1 else 0)"

definition is_suspend :: "'a TPTask \<Rightarrow> nat" where
  "is_suspend t = (if t = TPSuspend then 1 else 0)"

lemma is_stop_simps [simp]: "is_stop (UserTask p a) = 0" "is_stop TPStop = 1" "is_stop TPSuspend = 0"
  by (simp_all add: is_stop_def)

lemma is_suspend_simps [simp]:
  "is_suspend (UserTask p a) = 0" "is_suspend TPStop = 0" "is_suspend TPSuspend = 1"
  by (simp_all add: is_suspend_def)

definition stops :: "'a ThreadPool \<Rightarrow> nat" where
  "stops s = weight (pushed is_stop) is_stop (\<lambda>w. held is_stop w + (if w = Ended then 1 else 0)) s"

definition suspends :: "'a ThreadPool \<Rightarrow> nat" where
  "suspends s = weight (pushed is_suspend) is_suspend
     (\<lambda>w. held is_suspend w + (if w \<in> {Suspending, Suspended, Resuming} then 1 else 0)) s"

text \<open>Every stop ends one worker; a pool without suspensions stays without.\<close>

lemma stops_step: "pool_step s s' \<Longrightarrow> stops s' = stops s"
proof (induction rule: step_groups [where fo = "pushed is_stop" and fq = is_stop
      and fw = "\<lambda>w. held is_stop w + (if w = Ended then 1 else 0)"])
  case (main x r)
  then show ?case by (simp add: stops_def pushed_def)
next
  case (move i w w')
  then show ?case by (cases w rule: next_state.cases) (auto simp: stops_def)
qed (simp_all add: stops_def)

lemma suspends_step: "pool_step s s' \<Longrightarrow> suspends s' \<le> suspends s"
proof (induction rule: step_groups [where fo = "pushed is_suspend" and fq = is_suspend
      and fw = "\<lambda>w. held is_suspend w + (if w \<in> {Suspending, Suspended, Resuming} then 1 else 0)"])
  case (main x r)
  then show ?case by (simp add: suspends_def pushed_def)
next
  case (move i w w')
  then show ?case by (cases w rule: next_state.cases) (auto simp: suspends_def)
qed (simp_all add: suspends_def)

text \<open>The owner pushes first and joins then; a thread that is not to be joined any more has ended.\<close>

definition joins_inv :: "'a ThreadPool \<Rightarrow> bool" where
  "joins_inv s \<longleftrightarrow> (\<exists>ps js. script s = map Push ps @ map JoinThread js \<and>
     (\<forall>i \<in> set js. i < length (m_threads s)) \<and>
     (\<forall>i < length (m_threads s). i \<in> set js \<or> m_threads s ! i = Ended))"

lemma joins_inv_update:
  assumes "joins_inv s" and "m_threads s ! i \<noteq> Ended" and "i < length (m_threads s)"
    and "m_threads s' = (m_threads s)[i := w]" and "script s' = script s"
  shows "joins_inv s'"
proof -
  from assms(1) obtain ps js where s: "script s = map Push ps @ map JoinThread js"
    "\<forall>i < length (m_threads s). i \<in> set js \<or> m_threads s ! i = Ended"
    "\<forall>i \<in> set js. i < length (m_threads s)" by (auto simp: joins_inv_def)
  have "\<forall>k < length (m_threads s'). k \<in> set js \<or> m_threads s' ! k = Ended"
    using s(2) assms(2-4) by (auto simp: nth_list_update)
  with s(1,3) assms(4,5) show ?thesis by (auto simp: joins_inv_def)
qed

lemma joins_inv_step:
  assumes "joins_inv s" and "pool_step s s'" shows "joins_inv s'"
  using assms(2)
proof (cases rule: step_groups [where fo = "\<lambda>_. 0 :: nat" and fq = "\<lambda>_. 0" and fw = "\<lambda>_. 0"])
  case (main x r)
  from assms(1) obtain ps js where s: "script s = map Push ps @ map JoinThread js"
    "\<forall>i < length (m_threads s). i \<in> set js \<or> m_threads s ! i = Ended"
    "\<forall>i \<in> set js. i < length (m_threads s)" by (auto simp: joins_inv_def)
  show ?thesis
  proof (cases ps)
    case Nil
    with s(1) main(1) obtain k js' where js: "js = k # js'" "x = JoinThread k" "r = map JoinThread js'"
      by (cases js) auto
    with s(2) main(3,9) have "\<forall>i < length (m_threads s'). i \<in> set js' \<or> m_threads s' ! i = Ended"
      by auto
    with js main(2,3) s(3) show ?thesis
      unfolding joins_inv_def by (intro exI [of _ "[]"] exI [of _ js']) simp
  next
    case (Cons p ps')
    with s main show ?thesis
      unfolding joins_inv_def by (intro exI [of _ ps'] exI [of _ js]) auto
  qed
next
  case (take i)
  with assms(1) show ?thesis by (intro joins_inv_update [OF _ _ take(1,3)]) simp_all
next
  case (pop i j)
  with assms(1) show ?thesis by (intro joins_inv_update [OF _ _ pop(1,4)]) simp_all
next
  case (move i w w')
  with assms(1) show ?thesis by (intro joins_inv_update [OF _ _ move(1,4)]) auto
qed

text \<open>A queue that is not empty has a top.\<close>

lemma is_top_exists: "pq \<noteq> [] \<Longrightarrow> \<exists>j. is_top pq j"
proof -
  assume "pq \<noteq> []"
  then have "Max (m_priority ` set pq) \<in> m_priority ` set pq" by (intro Max_in) auto
  then obtain t where t: "t \<in> set pq" "m_priority t = Max (m_priority ` set pq)" by auto
  then obtain j where "j < length pq" "pq ! j = t" by (auto simp: in_set_conv_nth)
  with t have "is_top pq j" by (auto simp: is_top_def TPTask_less_def not_less)
  then show ?thesis ..
qed

text \<open>In a pool where nothing can happen, no worker is between two waits.\<close>

lemma stuck_workers:
  assumes stuck: "\<And>s'. \<not> pool_step s s'" and t: "tickets s" and i: "i < length (m_threads s)"
  shows "m_threads s ! i \<in> {Waiting, Suspended, Ended}"
    and "m_threads s ! i = Waiting \<Longrightarrow> m_pq (m_task_queue s) = []"
proof -
  have no: "worker_step k j s = None" for k j
    using stuck pool_step.worker [of k j s] by (cases "worker_step k j s") auto
  have np: "m_threads s ! k \<noteq> Popping" if k: "k < length (m_threads s)" for k
  proof
    assume p: "m_threads s ! k = Popping"
    with k have "0 < workers (\<lambda>w. w = Popping) s" by (rule workers_pos)
    with t have "m_pq (m_task_queue s) \<noteq> []" by (auto simp: tickets_def)
    with is_top_exists obtain j where "is_top (m_pq (m_task_queue s)) j" by blast
    with p k no [of k j] show False by (simp add: worker_step_def LockAndPop_def)
  qed
  show "m_threads s ! i \<in> {Waiting, Suspended, Ended}"
    using np [OF i] no [of i 0] i by (cases "m_threads s ! i") (auto simp: worker_step_def)
  assume "m_threads s ! i = Waiting"
  with no [of i 0] i have "pq_m_sem (m_task_queue s) = 0"
    by (cases "pq_m_sem (m_task_queue s)") (auto simp: worker_step_def Pop_Wait_def Semaphore_Wait_def)
  moreover have "workers (\<lambda>w. w = Popping) s = 0"
    using np by (auto simp: workers_def filter_empty_conv in_set_conv_nth)
  ultimately show "m_pq (m_task_queue s) = []" using t by (simp add: tickets_def)
qed

lemma pushed_simps [simp]: "pushed f (Push t) = f t" "pushed f (JoinThread i) = 0"
  by (simp_all add: pushed_def)

lemma total_pushed_joins [simp]: "total_of (pushed f) (map JoinThread js) = 0"
  by (induction js) (simp_all add: pushed_def)

lemma total_pushed [simp]: "total_of (pushed f) (map Push ts) = total_of f ts"
  by (induction ts) (simp_all add: pushed_def)

lemma total_zero: "(\<And>x. x \<in> set xs \<Longrightarrow> f x = 0) \<Longrightarrow> total_of f xs = 0"
  by (induction xs) auto

lemma total_of_replicate_zero: "f x = 0 \<Longrightarrow> total_of f (replicate n x) = 0"
  by (rule total_zero) auto

lemma total_zeroD: "total_of f xs = (0 :: nat) \<Longrightarrow> x \<in> set xs \<Longrightarrow> f x = 0"
  by (induction xs) auto

text \<open>A pool to which tasks of users are added before \<open>Stop\<close> is called.\<close>

definition stopping_pool :: "nat \<Rightarrow> 'a TPTask list \<Rightarrow> 'a ThreadPool" where
  "stopping_pool n ts = ThreadPool_ctor n (map Push ts @ Stop_ops (CheackNum n))"

definition user_tasks :: "'a TPTask list \<Rightarrow> bool" where
  "user_tasks ts \<longleftrightarrow> TPStop \<notin> set ts \<and> TPSuspend \<notin> set ts"

lemma user_tasks_totals: "user_tasks ts \<Longrightarrow> total_of is_stop ts = 0" "user_tasks ts \<Longrightarrow> total_of is_suspend ts = 0"
  by (auto simp: user_tasks_def is_stop_def is_suspend_def intro!: total_zero)

lemma stopping_pool_script:
  "script (stopping_pool n ts) =
     map Push (ts @ replicate (CheackNum n) TPStop) @ map JoinThread [0..<CheackNum n]"
  by (simp add: stopping_pool_def Stop_ops_def map_replicate_const)

lemma stopping_pool_invs:
  assumes "pool_reaches (stopping_pool n ts) s" and "user_tasks ts"
  shows "tickets s" and "length (m_threads s) = CheackNum n" and "stops s = CheackNum n"
    and "suspends s = 0" and "joins_inv s" and "content s = total_of user ts"
proof -
  have w: "m_threads (stopping_pool n ts) = replicate (CheackNum n) Waiting"
    "m_pq (m_task_queue (stopping_pool n ts)) = []" "pq_m_sem (m_task_queue (stopping_pool n ts)) = 0"
    "executed (stopping_pool n ts) = []"
    by (simp_all add: stopping_pool_def)
  show "tickets s"
    by (rule pool_invariant [OF assms(1) _ tickets_step]) (simp_all add: tickets_def workers_def w)
  show "length (m_threads s) = CheackNum n"
    using assms(1) unfolding stopping_pool_def by (rule length_threads)
  have "stops (stopping_pool n ts) = CheackNum n"
    using user_tasks_totals [OF assms(2)] by (simp add: stops_def weight_def stopping_pool_script w)
  then show "stops s = CheackNum n"
    by (rule pool_invariant [OF assms(1)]) (simp add: stops_step)
  have "suspends (stopping_pool n ts) = 0"
    using user_tasks_totals [OF assms(2)] by (simp add: suspends_def weight_def stopping_pool_script w)
  then show "suspends s = 0"
    by (rule pool_invariant [OF assms(1)]) (metis suspends_step le_zero_eq)
  have "joins_inv (stopping_pool n ts)"
    unfolding joins_inv_def stopping_pool_script w
    by (intro exI [of _ "ts @ replicate (CheackNum n) TPStop"] exI [of _ "[0..<CheackNum n]"]) simp
  then show "joins_inv s"
    by (rule pool_invariant [OF assms(1) _ joins_inv_step])
  have "content (stopping_pool n ts) = total_of user ts"
    by (simp add: content_def weight_def stopping_pool_script w total_of_replicate_zero)
  then show "content s = total_of user ts"
    by (rule pool_invariant [OF assms(1)]) (simp add: content_step)
qed

lemma stopped:
  assumes r: "pool_reaches (stopping_pool n ts) s" and u: "user_tasks ts"
    and stuck: "\<And>s'. \<not> pool_step s s'"
  shows "script s = [] \<and> (\<forall>w \<in> set (m_threads s). w = Ended) \<and> TPStop \<notin> set (m_pq (m_task_queue s))"
proof -
  note inv = stopping_pool_invs [OF r u]
  have main: "main_step s = None" using stuck pool_step.main by (cases "main_step s") auto
  from inv(5) obtain ps js where script: "script s = map Push ps @ map JoinThread js"
    "\<forall>i \<in> set js. i < length (m_threads s)"
    "\<forall>i < length (m_threads s). i \<in> set js \<or> m_threads s ! i = Ended" by (auto simp: joins_inv_def)
  have ps: "ps = []" using main script(1) by (cases ps) (auto simp: main_step_def)
  have sus: "w \<noteq> Suspended" if "w \<in> set (m_threads s)" for w
  proof -
    from inv(4) have "held is_suspend w + (if w \<in> {Suspending, Suspended, Resuming} then 1 else 0) = 0"
      by (intro total_zeroD [OF _ that, where f = "\<lambda>w. held is_suspend w +
            (if w \<in> {Suspending, Suspended, Resuming} then 1 else 0)"])
         (simp add: suspends_def weight_def)
    then show ?thesis by auto
  qed
  have workers: "w = Waiting \<or> w = Ended" if w: "w \<in> set (m_threads s)" for w
  proof -
    from w obtain i where "i < length (m_threads s)" "m_threads s ! i = w" by (auto simp: in_set_conv_nth)
    with stuck_workers(1) [OF stuck inv(1), of i] sus [OF w] show ?thesis by auto
  qed
  have "total_of (\<lambda>w. held is_stop w + (if w = Ended then 1 else 0)) (m_threads s) =
      workers (\<lambda>w. w = Ended) s"
    unfolding workers_total total_of_def
    by (rule arg_cong [where f = sum_list], rule map_cong) (auto dest!: workers)
  with inv(2,3) have count: "total_of is_stop (m_pq (m_task_queue s)) + workers (\<lambda>w. w = Ended) s =
      length (m_threads s)"
    by (simp add: stops_def weight_def script(1) ps)
  have js: "js = []"
  proof (cases js)
    case (Cons k js')
    then have k: "k < length (m_threads s)" using script(2) by simp
    with main script(1) ps Cons have "m_threads s ! k \<noteq> Ended" by (auto simp: main_step_def)
    with workers k have wk: "m_threads s ! k = Waiting" by (metis nth_mem)
    with stuck_workers(2) [OF stuck inv(1) k] count have "workers (\<lambda>w. w = Ended) s = length (m_threads s)"
      by simp
    from workers_all [OF this, of "m_threads s ! k"] nth_mem [OF k] wk show ?thesis by simp
  qed
  with script(3) have ended: "\<forall>w \<in> set (m_threads s). w = Ended" by (auto simp: in_set_conv_nth)
  then have "workers (\<lambda>w. w = Ended) s = length (m_threads s)" by (simp add: workers_def)
  with count have "total_of is_stop (m_pq (m_task_queue s)) = 0" by simp
  then have "TPStop \<notin> set (m_pq (m_task_queue s))" by (force dest: total_zeroD)
  with ended script(1) ps js show ?thesis by simp
qed

section \<open>Stopping before the workers have begun\<close>

text \<open>
  No worker executes a task of a user, and every worker that has not ended or taken a stop finds one
  in the queue, where nothing comes before it.
\<close>

definition doomed :: "'a ThreadPool \<Rightarrow> bool" where
  "doomed s \<longleftrightarrow> stops s = length (m_threads s) \<and> (\<forall>x \<in> set (script s). op_task x = []) \<and>
     (\<forall>t \<in> set (m_pq (m_task_queue s)). m_priority t = SYSTEM \<longrightarrow> t = TPStop) \<and>
     (\<forall>w \<in> set (m_threads s). w \<in> {Waiting, Popping, Executing TPStop, Ended})"

lemma le_SYSTEM: "\<not> p < SYSTEM \<Longrightarrow> p = SYSTEM"
  by (cases p) (auto simp: less_TaskPriority_def)

lemma stop_weight_le:
  "total_of (\<lambda>w. held is_stop w + (if w = Ended then 1 else 0)) ws + length (filter (\<lambda>w. w = Popping) ws) \<le>
     length ws"
proof (induction ws)
  case (Cons w ws)
  have "held is_stop w + (if w = Ended then 1 else 0) + (if w = Popping then 1 else 0) \<le> 1"
    by (cases w) (auto simp: is_stop_def)
  with Cons show ?case by auto
qed simp

lemma doomed_pop:
  assumes "doomed s" and i: "i < length (m_threads s)" "m_threads s ! i = Popping"
    and j: "is_top (m_pq (m_task_queue s)) j"
  shows "m_pq (m_task_queue s) ! j = TPStop"
proof -
  let ?f = "\<lambda>w. held is_stop w + (if w = Ended then 1 else 0)"
  have "total_of (pushed is_stop) (script s) = 0"
    by (rule total_zero) (use assms(1) in \<open>auto simp: doomed_def pushed_def\<close>)
  then have "total_of is_stop (m_pq (m_task_queue s)) + total_of ?f (m_threads s) = length (m_threads s)"
    using assms(1) by (simp add: doomed_def stops_def weight_def)
  moreover have "0 < length (filter (\<lambda>w. w = Popping) (m_threads s))"
    using workers_pos [OF i(1), of "\<lambda>w. w = Popping"] i(2) by (simp add: workers_def)
  ultimately have nz: "total_of is_stop (m_pq (m_task_queue s)) \<noteq> 0"
    using stop_weight_le [of "m_threads s"] by linarith
  have stop: "TPStop \<in> set (m_pq (m_task_queue s))"
  proof (rule ccontr)
    assume "TPStop \<notin> set (m_pq (m_task_queue s))"
    then have "is_stop t = 0" if "t \<in> set (m_pq (m_task_queue s))" for t
      using that by (auto simp: is_stop_def)
    then have "total_of is_stop (m_pq (m_task_queue s)) = 0" by (rule total_zero)
    with nz show False ..
  qed
  from j stop have "\<not> m_priority (m_pq (m_task_queue s) ! j) < SYSTEM"
    by (auto simp: is_top_def TPTask_less_def)
  then have "m_priority (m_pq (m_task_queue s) ! j) = SYSTEM" by (rule le_SYSTEM)
  moreover have "m_pq (m_task_queue s) ! j \<in> set (m_pq (m_task_queue s))" using j by (simp add: is_top_def)
  ultimately show ?thesis using assms(1) by (simp add: doomed_def)
qed

lemma doomed_step:
  assumes "doomed s" and st: "pool_step s s'"
  shows "doomed s' \<and> executed s' = executed s"
  using st
proof (cases rule: step_groups [where fo = "\<lambda>_. 0 :: nat" and fq = "\<lambda>_. 0" and fw = "\<lambda>_. 0"])
  case (main x r)
  with assms(1) stops_step [OF st] show ?thesis by (auto simp: doomed_def)
next
  case (take i)
  with assms(1) stops_step [OF st] show ?thesis
    using set_update_subset_insert [of "m_threads s" i Popping] by (auto simp: doomed_def)
next
  case (pop i j)
  have "set (m_pq (m_task_queue s')) \<subseteq> set (m_pq (m_task_queue s))"
    unfolding pop(9) by (auto dest: in_set_takeD in_set_dropD)
  with pop assms(1) stops_step [OF st] doomed_pop [OF assms(1) pop(1,2,3)] show ?thesis
    using set_update_subset_insert [of "m_threads s" i "Executing TPStop"] by (auto simp: doomed_def)
next
  case (move i w w')
  from move(1,2) have "w \<in> set (m_threads s)" by auto
  with assms(1) move(3) have "w = Executing TPStop" "w' = Ended" by (auto simp: doomed_def)
  with move assms(1) stops_step [OF st] show ?thesis
    using set_update_subset_insert [of "m_threads s" i Ended] by (auto simp: doomed_def)
qed

lemma doomed_run: "pool_reaches s0 s \<Longrightarrow> doomed s0 \<Longrightarrow> doomed s \<and> executed s = executed s0"
  by (induction rule: pool_reaches.induct) (auto dest: doomed_step)

text \<open>The owner may do all its pushes before a worker takes a step.\<close>

lemma pool_pushes:
  "script s = map Push ts @ r \<Longrightarrow>
   pool_reaches s (s\<lparr>script := r, m_task_queue := (m_task_queue s)
     \<lparr>m_pq := m_pq (m_task_queue s) @ ts, pq_m_sem := pq_m_sem (m_task_queue s) + length ts\<rparr>\<rparr>)"
proof (induction ts arbitrary: r rule: rev_induct)
  case Nil
  then have "s\<lparr>script := r\<rparr> = s" by (cases s) simp
  then show ?case by (simp add: pool_reaches.start)
next
  case (snoc t ts)
  from snoc.prems have "script s = map Push ts @ Push t # r" by simp
  from snoc.IH [OF this] show ?case
    by (rule pool_reaches.step) (rule pool_step.main, simp add: main_step_def WPriorityQueue_Push_def)
qed

lemma stop_overtakes:
  assumes "\<forall>t \<in> set ts. m_priority t \<noteq> SYSTEM"
  shows "\<exists>s0. pool_reaches (stopping_pool n ts) s0 \<and>
    (\<forall>s. pool_reaches s0 s \<longrightarrow> executed s = [])"
proof -
  let ?p = "stopping_pool n ts"
  have u: "user_tasks ts" using assms by (auto simp: user_tasks_def)
  have script: "script ?p = map Push (ts @ replicate (CheackNum n) TPStop) @ map JoinThread [0..<CheackNum n]"
    by (rule stopping_pool_script)
  let ?q = "\<lparr>m_pq = ts @ replicate (CheackNum n) TPStop,
      pq_m_sem = length ts + CheackNum n\<rparr> :: 'a WPriorityQueue"
  define s0 where "s0 = ?p\<lparr>script := map JoinThread [0..<CheackNum n], m_task_queue := ?q\<rparr>"
  have q: "m_task_queue ?p = \<lparr>m_pq = [], pq_m_sem = 0\<rparr>" by (simp add: stopping_pool_def)
  have r: "pool_reaches ?p s0"
    using pool_pushes [OF script] by (simp add: s0_def q)
  have "stops s0 = CheackNum n" and "length (m_threads s0) = CheackNum n"
    using stopping_pool_invs [OF r u] by simp_all
  then have "doomed s0"
    using assms by (auto simp: doomed_def s0_def stopping_pool_def)
  moreover have "executed s0 = []" by (simp add: s0_def stopping_pool_def)
  ultimately have "\<forall>s. pool_reaches s0 s \<longrightarrow> executed s = []" using doomed_run by metis
  with r show ?thesis by blast
qed

text \<open>
  A \<open>Pop\<close> with a time-out never blocks and never meets an empty queue, where the semaphore counts no
  more than the elements: it answers \<open>false\<close> exactly when the semaphore is 0, else it takes a top.
\<close>

lemma timed_pop:
  assumes "pq_m_sem q \<le> length (m_pq q)"
  shows "\<exists>j t q'. WPriorityQueue_Pop_TimeOut None None j q = Some (Inr (t, q')) \<and>
    (t = None \<longleftrightarrow> pq_m_sem q = 0) \<and> pq_m_sem q' = pq_m_sem q - 1 \<and>
    length (m_pq q') = length (m_pq q) - (if pq_m_sem q = 0 then 0 else 1)"
proof (cases "pq_m_sem q = 0")
  case True
  then show ?thesis
    by (simp add: WPriorityQueue_Pop_TimeOut_def Semaphore_TimedWait_def sem_timedwait_def)
next
  case False
  with assms have "m_pq q \<noteq> []" by auto
  with is_top_exists obtain j where j: "is_top (m_pq q) j" by blast
  then have "j < length (m_pq q)" by (simp add: is_top_def)
  with False j show ?thesis
    by (intro exI [of _ j])
       (simp add: WPriorityQueue_Pop_TimeOut_def Semaphore_TimedWait_def sem_timedwait_def LockAndPop_def)
qed

section \<open>Properties\<close>

text \<open>
  C24: in every run of a pool, whatever its owner does and however the workers are interleaved, a
  worker that has passed the semaphore of the queue finds an element in it: \<open>LockAndPop\<close> is never
  called on an empty \<open>std::priority_queue\<close>.
\<close>

theorem pop_never_on_empty_queue:
  assumes "pool_reaches (ThreadPool_ctor n ops) s"
    and "i < length (m_threads s)" and "m_threads s ! i = Popping"
  shows "\<exists>j s'. worker_step i j s = Some s'"
proof -
  have "tickets s"
    by (rule pool_invariant [OF assms(1) _ tickets_step]) (simp_all add: tickets_def workers_def)
  moreover have "0 < workers (\<lambda>w. w = Popping) s" using assms(2,3) by (rule workers_pos)
  ultimately have "m_pq (m_task_queue s) \<noteq> []" by (auto simp: tickets_def)
  with is_top_exists obtain j where "is_top (m_pq (m_task_queue s)) j" by blast
  with assms(2,3) show ?thesis by (auto simp: worker_step_def LockAndPop_def)
qed

theorem pop_never_on_empty_queue_witness:
  "\<exists>j s'. worker_step 0 j
     \<lparr>m_task_queue = \<lparr>m_pq = [UserTask LOW ''a''], pq_m_sem = 0\<rparr>, m_thread_sem = 0, m_main_sem = 0,
      m_threads = [Popping], script = [], executed = []\<rparr> = Some s'"
proof -
  let ?s0 = "ThreadPool_ctor 1 [Push (UserTask LOW ''a'')] :: string ThreadPool"
  let ?s1 = "\<lparr>m_task_queue = \<lparr>m_pq = [UserTask LOW ''a''], pq_m_sem = 1\<rparr>, m_thread_sem = 0,
    m_main_sem = 0, m_threads = [Waiting], script = [], executed = []\<rparr> :: string ThreadPool"
  let ?s2 = "\<lparr>m_task_queue = \<lparr>m_pq = [UserTask LOW ''a''], pq_m_sem = 0\<rparr>, m_thread_sem = 0,
    m_main_sem = 0, m_threads = [Popping], script = [], executed = []\<rparr> :: string ThreadPool"
  have "pool_step ?s0 ?s1"
    by (rule pool_step.main)
       (simp add: main_step_def ThreadPool_ctor_def WPriorityQueue_Push_def CheackNum_def)
  moreover have "pool_step ?s1 ?s2"
    by (rule pool_step.worker [where i = 0 and j = 0])
       (simp add: worker_step_def Pop_Wait_def Semaphore_Wait_def)
  ultimately have r: "pool_reaches ?s0 ?s2" by (blast intro: pool_reaches.intros)
  show ?thesis by (rule pop_never_on_empty_queue [OF r]) simp_all
qed



text \<open>
  C26: \<open>Stop\<close> comes to its end: a run of a pool to which only tasks of users were added before \<open>Stop\<close>
  is at most as long as the size of its first state, and where it cannot go on, the owner has joined
  all threads, all workers have ended and every task was executed once or is left in the queue.
\<close>

theorem stop_returns:
  assumes "pool_reaches (stopping_pool n ts) s" and "user_tasks ts"
  shows "(\<forall>s'. pool_step s s' \<longrightarrow> pool_size s' < pool_size s) \<and>
    ((\<exists>s'. pool_step s s') \<or>
     script s = [] \<and> (\<forall>w \<in> set (m_threads s). w = Ended) \<and> TPStop \<notin> set (m_pq (m_task_queue s)) \<and>
     total_of user ts = mset (executed s) + total_of user (m_pq (m_task_queue s)))"
proof (cases "\<exists>s'. pool_step s s'")
  case True
  then show ?thesis by (simp add: pool_size_step)
next
  case False
  then have e: "script s = [] \<and> (\<forall>w \<in> set (m_threads s). w = Ended) \<and> TPStop \<notin> set (m_pq (m_task_queue s))"
    by (intro stopped [OF assms]) blast
  then have "total_of (held user) (m_threads s) = {#}" by (intro total_zero) auto
  with stopping_pool_invs(6) [OF assms] e
  have "total_of user ts = mset (executed s) + total_of user (m_pq (m_task_queue s))"
    by (simp add: content_def weight_def add.commute)
  with e False show ?thesis by blast
qed

theorem stop_returns_witness:
  "\<exists>s'. pool_step (stopping_pool 2 [UserTask LOW ''a'']) s' \<and>
     pool_size s' < pool_size (stopping_pool 2 [UserTask LOW ''a''])"
proof -
  have "user_tasks [UserTask LOW ''a'']" by (simp add: user_tasks_def)
  then have "\<forall>s'. pool_step (stopping_pool 2 [UserTask LOW ''a'']) s' \<longrightarrow>
      pool_size s' < pool_size (stopping_pool 2 [UserTask LOW ''a''])"
    using stop_returns [OF pool_reaches.start, of "[UserTask LOW ''a'']" 2] by blast
  moreover have "\<exists>s'. main_step (stopping_pool 2 [UserTask LOW ''a'']) = Some s'"
    by (simp add: stopping_pool_def ThreadPool_ctor_def main_step_def)
  ultimately show ?thesis by (blast intro: pool_step.main)
qed

text \<open>
  C27: \<open>Suspend\<close> is a barrier: when it has returned (nothing was resumed before), every worker is
  suspended and none is executing a task; and \<open>Suspend\<close> called twice without \<open>Resume\<close> never returns.
\<close>

theorem suspend_is_a_barrier:
  assumes "pool_reaches (ThreadPool_ctor n (map Push ts @ Suspend_ops (CheackNum n) @ rest)) s"
    and "script s = []" and "Thread_Post \<notin> set rest"
  shows "(\<forall>w \<in> set (m_threads s). w = Suspended) \<and> rest \<noteq> Suspend_ops (CheackNum n)"
proof -
  let ?ops = "map Push ts @ Suspend_ops (CheackNum n) @ rest"
  have no_post: "Thread_Post \<notin> set ?ops" using assms(3) by (auto simp: Suspend_ops_def)
  have w: "waits ?ops = CheackNum n + waits rest" by (simp add: Suspend_ops_def)
  have len: "length (m_threads s) = CheackNum n" using assms(1) by (rule length_threads)
  from waits_bound [OF assms(1) no_post assms(2)] w workers_le [of "\<lambda>w. w = Suspended" s] len
  have all: "workers (\<lambda>w. w = Suspended) s = length (m_threads s)" and "waits rest = 0" by auto
  moreover have "\<forall>w \<in> set (m_threads s). w = Suspended"
    using workers_all [OF all] by blast
  moreover have "waits (Suspend_ops (CheackNum n)) \<noteq> 0" by (simp add: Suspend_ops_def CheackNum_def)
  ultimately show ?thesis by metis
qed

theorem suspend_is_a_barrier_witness:
  "\<exists>s. pool_reaches (ThreadPool_ctor 1 (map Push [] @ Suspend_ops (CheackNum 1) @ [])) s \<and>
     script s = [] \<and> (\<forall>w \<in> set (m_threads s). w = (Suspended :: string worker))"
proof -
  define st :: "string main_op list \<Rightarrow> string TPTask list \<Rightarrow> nat \<Rightarrow> string worker \<Rightarrow> nat \<Rightarrow> string ThreadPool" where
    "st ops q k w m = \<lparr>m_task_queue = \<lparr>m_pq = q, pq_m_sem = k\<rparr>, m_thread_sem = 0, m_main_sem = m,
       m_threads = [w], script = ops, executed = []\<rparr>" for ops q k w m
  note d = st_def main_step_def worker_step_def ThreadPool_ctor_def WPriorityQueue_Push_def
    CheackNum_def Suspend_ops_def Pop_Wait_def Semaphore_Wait_def LockAndPop_def is_top_def TPTask_less_def
  have "ThreadPool_ctor 1 (map Push [] @ Suspend_ops (CheackNum 1) @ []) =
      st [Push TPSuspend, Main_Wait] [] 0 Waiting 0" by (simp add: d)
  then have "pool_reaches (ThreadPool_ctor 1 (map Push [] @ Suspend_ops (CheackNum 1) @ []))
      (st [Push TPSuspend, Main_Wait] [] 0 Waiting 0)" by (simp add: pool_reaches.start)
  from pool_reaches.step [OF this, of "st [Main_Wait] [TPSuspend] 1 Waiting 0"]
  have "pool_reaches (ThreadPool_ctor 1 (map Push [] @ Suspend_ops (CheackNum 1) @ []))
      (st [Main_Wait] [TPSuspend] 1 Waiting 0)"
    by (simp add: d pool_step.main)
  from pool_reaches.step [OF this pool_step.worker, of 0 0 "st [Main_Wait] [TPSuspend] 0 Popping 0"]
  have "pool_reaches (ThreadPool_ctor 1 (map Push [] @ Suspend_ops (CheackNum 1) @ []))
      (st [Main_Wait] [TPSuspend] 0 Popping 0)"
    by (simp add: d)
  from pool_reaches.step [OF this pool_step.worker, of 0 0 "st [Main_Wait] [] 0 (Executing TPSuspend) 0"]
  have "pool_reaches (ThreadPool_ctor 1 (map Push [] @ Suspend_ops (CheackNum 1) @ []))
      (st [Main_Wait] [] 0 (Executing TPSuspend) 0)"
    by (simp add: d)
  from pool_reaches.step [OF this pool_step.worker, of 0 0 "st [Main_Wait] [] 0 Suspending 0"]
  have "pool_reaches (ThreadPool_ctor 1 (map Push [] @ Suspend_ops (CheackNum 1) @ []))
      (st [Main_Wait] [] 0 Suspending 0)"
    by (simp add: d)
  from pool_reaches.step [OF this pool_step.worker, of 0 0 "st [Main_Wait] [] 0 Suspended 1"]
  have "pool_reaches (ThreadPool_ctor 1 (map Push [] @ Suspend_ops (CheackNum 1) @ []))
      (st [Main_Wait] [] 0 Suspended 1)"
    by (simp add: d)
  from pool_reaches.step [OF this pool_step.main, of "st [] [] 0 Suspended 0"]
  have "pool_reaches (ThreadPool_ctor 1 (map Push [] @ Suspend_ops (CheackNum 1) @ []))
      (st [] [] 0 Suspended 0)"
    by (simp add: d)
  from this suspend_is_a_barrier [OF this] show ?thesis by (auto simp: d)
qed

text \<open>
  \<open>Stop\<close> overtakes tasks: however many tasks of users (of any priority they may have) were added
  before it, there is a run in which, from some point on, none of them is ever executed, whatever
  happens after that point.
\<close>

theorem stop_may_discard_all_tasks:
  assumes "\<forall>t \<in> set ts. m_priority t \<noteq> SYSTEM"
  shows "\<exists>s0. pool_reaches (stopping_pool n ts) s0 \<and>
    (\<forall>s. pool_reaches s0 s \<longrightarrow> executed s = [])"
  using assms by (rule stop_overtakes)

theorem stop_may_discard_all_tasks_witness:
  "\<exists>s0. pool_reaches (stopping_pool 4 [UserTask HIGH ''a'', UserTask LOW ''b'']) s0 \<and>
    (\<forall>s. pool_reaches s0 s \<longrightarrow> executed s = [])"
  by (rule stop_may_discard_all_tasks) auto

end
