(* ===== verification/Request_Engine.thy ===== *)
theory Request_Engine
  imports Thread_Pool Factory
begin

text \<open>
  \<open>Epoll\<close> (epoll.hpp, epoll.cpp) and \<open>RequestEngine\<close> (request_engine.hpp): the main loop of both
  programs.  It waits for a descriptor, lets the gateway of that descriptor read a request, makes a
  task of it with the factory and hands the task to the thread pool.  The answers of the kernel are a
  list, one for each wait; where the list ends inside the loop, the engine still waits
  (\<open>Would_Block\<close>).  The monitor of the plugin directory and the loader, which the
  engine only constructs and destroys, are in the theory \<open>Plug_And_Play\<close>.
\<close>

section \<open>Epoll\<close>

text \<open>
  \<open>m_events\<close> keeps the descriptor of each event only.  \<open>interest\<close> is what was added and not removed;
  the \<open>errno\<close> of a failing call (\<open>None\<close> or \<open>Inl\<close>) comes from the system.
\<close>

record Epoll =
  m_events :: "int list"
  m_max_events :: nat
  m_epoll_fd :: int
  interest :: "int list"

definition Epoll_ctor :: "int + int \<Rightarrow> nat \<Rightarrow> Epoll res" where
  "Epoll_ctor epoll_create max_events =
     (case epoll_create of
        Inl err \<Rightarrow> Inl (EpollError err)
      | Inr fd \<Rightarrow> Inr \<lparr>m_events = replicate max_events 0, m_max_events = max_events, m_epoll_fd = fd, interest = []\<rparr>)"

definition Epoll_Add :: "int option \<Rightarrow> int \<Rightarrow> Epoll \<Rightarrow> Epoll res" where
  "Epoll_Add err fd ep =
     (case err of Some e \<Rightarrow> Inl (EpollError e) | None \<Rightarrow> Inr (ep\<lparr>interest := interest ep @ [fd]\<rparr>))"

definition Epoll_Remove :: "int option \<Rightarrow> int \<Rightarrow> Epoll \<Rightarrow> Epoll res" where
  "Epoll_Remove err fd ep =
     (case err of Some e \<Rightarrow> Inl (EpollError e) | None \<Rightarrow> Inr (ep\<lparr>interest := removeAll fd (interest ep)\<rparr>))"

text \<open>
  \<open>epoll_wait\<close> fails or stores at most \<open>m_max_events\<close> of the descriptors that are ready.  The same
  answer serves \<open>Wait\<close> and \<open>WaitTimeOut\<close>, which differ in the time they wait.
\<close>

definition epoll_wait :: "int + int list \<Rightarrow> Epoll \<Rightarrow> (nat \<times> Epoll) res" where
  "epoll_wait answer ep =
     (case answer of
        Inl err \<Rightarrow> Inl (EpollError err)
      | Inr fds \<Rightarrow>
          let fds = take (m_max_events ep) fds
          in Inr (length fds, ep\<lparr>m_events := overwrite (m_events ep) 0 fds\<rparr>))"

definition Epoll_Wait :: "int + int list \<Rightarrow> Epoll \<Rightarrow> (nat \<times> Epoll) res" where
  "Epoll_Wait answer ep = epoll_wait answer ep"

definition Epoll_WaitTimeOut :: "int + int list \<Rightarrow> Epoll \<Rightarrow> (nat \<times> Epoll) res" where
  "Epoll_WaitTimeOut answer ep = epoll_wait answer ep"

definition Epoll_index :: "Epoll \<Rightarrow> nat \<Rightarrow> int res" where
  "Epoll_index ep i = (if i < length (m_events ep) then Inr (m_events ep ! i) else Inl OutOfBounds)"

section \<open>RequestEngine\<close>

text \<open>
  A gateway (gateway.hpp) reads and changes a state \<open>'w\<close> it shares with the others; besides the key
  and the arguments of the task, \<open>Read\<close> says whether it called \<open>Stop()\<close> on the engine.
\<close>

record ('w, 'k, 'a) GateWay =
  GetFd :: "'w \<Rightarrow> int"
  Read :: "'w \<Rightarrow> ('k \<times> 'a \<times> bool \<times> 'w) res"

datatype Status = INIT | RUN | Status_STOP

text \<open>\<open>m_thread_pool\<close> is what the engine, the owner of the pool, does with it.\<close>

record ('w, 'k, 'a, 't) RequestEngine =
  m_req_engine_stt :: Status
  m_fd_monitor :: Epoll
  m_thread_pool :: "'t main_op list"
  m_factory :: "('k, 'a, 't) factory"
  m_gateways :: "('w, 'k, 'a) GateWay list"

definition MAX_EVENTS_TO_WAKE :: nat where "MAX_EVENTS_TO_WAKE = 1"

definition RequestEngine_ctor :: "int + int \<Rightarrow> ('w, 'k, 'a, 't) RequestEngine res" where
  "RequestEngine_ctor epoll_create =
     bindE (Epoll_ctor epoll_create MAX_EVENTS_TO_WAKE) (\<lambda>ep.
     Inr \<lparr>m_req_engine_stt = INIT, m_fd_monitor = ep, m_thread_pool = [], m_factory = [], m_gateways = []\<rparr>)"

definition RequestEngine_AddTask ::
  "'k \<Rightarrow> ('a \<Rightarrow> 't) \<Rightarrow> ('w, 'k, 'a, 't) RequestEngine \<Rightarrow> ('w, 'k, 'a, 't) RequestEngine" where
  "RequestEngine_AddTask key func re = re\<lparr>m_factory := snd (Factory_Add (m_factory re) key func)\<rparr>"

definition RequestEngine_AddGateWay ::
  "int option \<Rightarrow> 'w \<Rightarrow> ('w, 'k, 'a) GateWay \<Rightarrow> ('w, 'k, 'a, 't) RequestEngine \<Rightarrow>
   ('w, 'k, 'a, 't) RequestEngine res" where
  "RequestEngine_AddGateWay err w gateway re =
     bindE (Epoll_Add err (GetFd gateway w) (m_fd_monitor re)) (\<lambda>ep.
     Inr (re\<lparr>m_fd_monitor := ep, m_gateways := m_gateways re @ [gateway]\<rparr>))"

definition RequestEngine_Stop :: "('w, 'k, 'a, 't) RequestEngine \<Rightarrow> ('w, 'k, 'a, 't) RequestEngine" where
  "RequestEngine_Stop re = re\<lparr>m_req_engine_stt := Status_STOP\<rparr>"

text \<open>
  The destructor of the engine is the one of its members; the pool, whose threads nobody has joined, is
  stopped by its own.
\<close>

definition RequestEngine_dtor :: "nat \<Rightarrow> ('w, 'k, 'a, 't) RequestEngine \<Rightarrow> ('w, 'k, 'a, 't) RequestEngine" where
  "RequestEngine_dtor num_of_threads re =
     re\<lparr>m_thread_pool := m_thread_pool re @ ThreadPool_dtor_ops True (CheackNum num_of_threads)\<rparr>"

text \<open>A task of the engine gets its priority from \<open>RETask\<close> (retask.hpp), \<open>MEDIUM\<close> by default.\<close>

definition RETask_default_priority :: TaskPriority where
  "RETask_default_priority = MEDIUM"

text \<open>Reading from one gateway and adding the task; then the loop over the gateways.\<close>

definition serve_gateway ::
  "('w, 'k, 'a) GateWay \<Rightarrow> ('w, 'k, 'a, 't) RequestEngine \<Rightarrow> 'w \<Rightarrow>
   (('w, 'k, 'a, 't) RequestEngine \<times> 'w) res" where
  "serve_gateway g re w =
     bindE (Read g w) (\<lambda>(key, args, stop, w').
     let re' = (if stop then RequestEngine_Stop re else re) in
     bindE (Factory_Create (m_factory re') key args) (\<lambda>task.
     Inr (re'\<lparr>m_thread_pool := m_thread_pool re' @ AddTask_ops (UserTask RETask_default_priority task)\<rparr>, w')))"

fun poll_gateways ::
  "('w, 'k, 'a) GateWay list \<Rightarrow> ('w, 'k, 'a, 't) RequestEngine \<Rightarrow> 'w \<Rightarrow>
   (('w, 'k, 'a, 't) RequestEngine \<times> 'w) res" where
  "poll_gateways [] re w = Inr (re, w)"
| "poll_gateways (g # gs) re w =
     bindE (Epoll_index (m_fd_monitor re) 0) (\<lambda>fd.
     bindE (if GetFd g w = fd then serve_gateway g re w else Inr (re, w)) (\<lambda>(re, w).
     poll_gateways gs re w))"

fun run_loop ::
  "(int + int list) list \<Rightarrow> ('w, 'k, 'a, 't) RequestEngine \<Rightarrow> 'w \<Rightarrow>
   (('w, 'k, 'a, 't) RequestEngine \<times> (int + int list) list \<times> 'w) res" where
  "run_loop [] re w = (if m_req_engine_stt re = RUN then Inl Would_Block else Inr (re, [], w))"
| "run_loop (answer # answers) re w =
     (if m_req_engine_stt re = RUN
      then bindE (Epoll_WaitTimeOut answer (m_fd_monitor re)) (\<lambda>(stt, ep).
           let re = re\<lparr>m_fd_monitor := ep\<rparr> in
           if stt \<noteq> 0
           then bindE (poll_gateways (m_gateways re) re w) (\<lambda>(re, w). run_loop answers re w)
           else run_loop answers re w)
      else Inr (re, answer # answers, w))"

definition RequestEngine_Run ::
  "(int + int list) list \<Rightarrow> ('w, 'k, 'a, 't) RequestEngine \<Rightarrow> 'w \<Rightarrow>
   (('w, 'k, 'a, 't) RequestEngine \<times> (int + int list) list \<times> 'w) res" where
  "RequestEngine_Run answers re w = run_loop answers (re\<lparr>m_req_engine_stt := RUN\<rparr>) w"

section \<open>One round of the loop\<close>

lemma run_loop_stopped: "m_req_engine_stt re \<noteq> RUN \<Longrightarrow> run_loop answers re w = Inr (re, answers, w)"
  by (cases answers) simp_all

lemma if_Stop [simp]:
  "m_factory (if b then RequestEngine_Stop re else re) = m_factory re"
  "m_thread_pool (if b then RequestEngine_Stop re else re) = m_thread_pool re"
  by (simp_all add: RequestEngine_Stop_def)

lemma serve_gateway_eq:
  "serve_gateway g re w =
     bindE (Read g w) (\<lambda>(key, args, stop, w'). bindE (Factory_Create (m_factory re) key args) (\<lambda>task.
     Inr ((if stop then RequestEngine_Stop re else re)
            \<lparr>m_thread_pool := m_thread_pool re @ [Push (UserTask MEDIUM task)]\<rparr>, w')))"
  by (simp add: serve_gateway_def Let_def AddTask_ops_def RETask_default_priority_def)

lemma serve_gateway_Inr:
  assumes "serve_gateway g re w = Inr (re', w')"
  obtains key args stop task where "Read g w = Inr (key, args, stop, w')"
    and "Factory_Create (m_factory re) key args = Inr task"
    and "re' = (if stop then RequestEngine_Stop re else re)
       \<lparr>m_thread_pool := m_thread_pool re @ [Push (UserTask MEDIUM task)]\<rparr>"
  using assms unfolding serve_gateway_eq by (auto simp: bindE_Inr_iff)

lemma poll_gateways_other:
  "0 < length (m_events (m_fd_monitor re)) \<Longrightarrow>
   (\<forall>g \<in> set gs. GetFd g w \<noteq> m_events (m_fd_monitor re) ! 0) \<Longrightarrow> poll_gateways gs re w = Inr (re, w)"
  by (induction gs) (auto simp: Epoll_index_def)

lemma poll_gateways_append:
  "poll_gateways (gs @ hs) re w = bindE (poll_gateways gs re w) (\<lambda>(re, w). poll_gateways hs re w)"
  by (induction gs arbitrary: re w) (simp_all add: bindE_assoc split_def)

text \<open>What a round changes: the status, the state of the gateways, and tasks are added to the pool.\<close>

definition only_adds :: "('w, 'k, 'a, 't) RequestEngine \<Rightarrow> ('w, 'k, 'a, 't) RequestEngine \<Rightarrow> bool" where
  "only_adds re re' \<longleftrightarrow> m_factory re' = m_factory re \<and> m_gateways re' = m_gateways re \<and>
     (\<exists>ts. m_thread_pool re' = m_thread_pool re @ map (\<lambda>t. Push (UserTask MEDIUM t)) ts)"

lemma only_adds_refl [intro]: "only_adds re re"
  by (auto simp: only_adds_def intro: exI [where x = "[]"])

lemma only_adds_trans: "only_adds a b \<Longrightarrow> only_adds b c \<Longrightarrow> only_adds a c"
  unfolding only_adds_def by (metis append.assoc map_append)

lemma serve_gateway_keeps:
  "serve_gateway g re w = Inr (re', w') \<Longrightarrow> only_adds re re' \<and> m_fd_monitor re' = m_fd_monitor re"
  by (erule serve_gateway_Inr) (auto simp: only_adds_def RequestEngine_Stop_def intro: exI [where x = "[_]"])

lemma poll_gateways_keeps:
  "poll_gateways gs re w = Inr (re', w') \<Longrightarrow> only_adds re re' \<and> m_fd_monitor re' = m_fd_monitor re"
proof (induction gs arbitrary: re w)
  case (Cons g gs)
  from Cons.prems obtain re1 w1 where
    one: "re1 = re \<or> serve_gateway g re w = Inr (re1, w1)" and "poll_gateways gs re1 w1 = Inr (re', w')"
    by (auto simp: bindE_Inr_iff split: if_splits)
  from Cons.IH [OF this(2)] one serve_gateway_keeps [of g re w re1 w1] show ?case
    by (auto intro: only_adds_trans)
qed auto

lemma run_loop_keeps:
  "run_loop answers re w = Inr (re', rest, w') \<Longrightarrow> only_adds re re' \<and> m_req_engine_stt re' \<noteq> RUN"
proof (induction answers re w rule: run_loop.induct)
  case (1 re w)
  then show ?case by (auto split: if_splits)
next
  case (2 answer answers re w)
  show ?case
  proof (cases "m_req_engine_stt re = RUN")
    case True
    with "2.prems" obtain stt ep where w: "Epoll_WaitTimeOut answer (m_fd_monitor re) = Inr (stt, ep)"
      by (auto simp: bindE_Inr_iff)
    have same: "only_adds re (re\<lparr>m_fd_monitor := ep\<rparr>)"
      by (auto simp: only_adds_def intro: exI [where x = "[]"])
    show ?thesis
    proof (cases "stt = 0")
      case True
      with \<open>m_req_engine_stt re = RUN\<close> "2.prems" w have "run_loop answers (re\<lparr>m_fd_monitor := ep\<rparr>) w = Inr (re', rest, w')"
        by simp
      with "2.IH"(2) [OF \<open>m_req_engine_stt re = RUN\<close> w refl refl] True same show ?thesis
        by (auto intro: only_adds_trans)
    next
      case False
      with \<open>m_req_engine_stt re = RUN\<close> "2.prems" w obtain re1 w1 where
        p: "poll_gateways (m_gateways re) (re\<lparr>m_fd_monitor := ep\<rparr>) w = Inr (re1, w1)"
        and "run_loop answers re1 w1 = Inr (re', rest, w')"
        by (auto simp: bindE_Inr_iff)
      with "2.IH"(1) [OF \<open>m_req_engine_stt re = RUN\<close> w refl refl False _ refl] poll_gateways_keeps [OF p] same
      show ?thesis by (auto intro: only_adds_trans)
    qed
  qed (use "2.prems" in auto)
qed

definition never_stops :: "('w, 'k, 'a) GateWay \<Rightarrow> bool" where
  "never_stops g \<longleftrightarrow> (\<forall>w key args stop w'. Read g w = Inr (key, args, stop, w') \<longrightarrow> \<not> stop)"

lemma poll_gateways_status:
  "poll_gateways gs re w = Inr (re', w') \<Longrightarrow> \<forall>g \<in> set gs. never_stops g \<Longrightarrow>
   m_req_engine_stt re' = m_req_engine_stt re"
proof (induction gs arbitrary: re w)
  case (Cons g gs)
  from Cons.prems(1) obtain re1 w1 where
    one: "re1 = re \<or> serve_gateway g re w = Inr (re1, w1)" and "poll_gateways gs re1 w1 = Inr (re', w')"
    by (auto simp: bindE_Inr_iff split: if_splits)
  moreover have "m_req_engine_stt re1 = m_req_engine_stt re"
    using one
  proof
    assume "serve_gateway g re w = Inr (re1, w1)"
    then obtain key args stop task where r: "Read g w = Inr (key, args, stop, w1)"
      and re1: "re1 = (if stop then RequestEngine_Stop re else re)
        \<lparr>m_thread_pool := m_thread_pool re @ [Push (UserTask MEDIUM task)]\<rparr>"
      by (rule serve_gateway_Inr)
    have "never_stops g" using Cons.prems(2) by simp
    with r have "\<not> stop" unfolding never_stops_def by blast
    with re1 show ?thesis by simp
  qed simp
  ultimately show ?case using Cons by auto
qed simp

lemma run_loop_never_returns:
  "\<forall>g \<in> set (m_gateways re). never_stops g \<Longrightarrow> m_req_engine_stt re = RUN \<Longrightarrow>
   run_loop answers re w \<noteq> Inr result"
proof (induction answers arbitrary: re w)
  case (Cons answer answers)
  show ?case
  proof
    assume run: "run_loop (answer # answers) re w = Inr result"
    with Cons.prems(2) obtain stt ep where
      w: "Epoll_WaitTimeOut answer (m_fd_monitor re) = Inr (stt, ep)"
      by (auto simp: bindE_Inr_iff)
    show False
    proof (cases "stt = 0")
      case True
      with run w Cons.prems Cons.IH [of "re\<lparr>m_fd_monitor := ep\<rparr>" w] show ?thesis by simp
    next
      case False
      with run w Cons.prems(2) obtain re1 w1 where
        p: "poll_gateways (m_gateways re) (re\<lparr>m_fd_monitor := ep\<rparr>) w = Inr (re1, w1)"
        and "run_loop answers re1 w1 = Inr result"
        by (auto simp: bindE_Inr_iff)
      moreover from poll_gateways_keeps [OF p] have "m_gateways re1 = m_gateways re"
        by (simp add: only_adds_def)
      moreover from poll_gateways_status [OF p] Cons.prems have "m_req_engine_stt re1 = RUN" by simp
      ultimately show ?thesis using Cons.IH [of re1 w1] Cons.prems(1) by simp
    qed
  qed
qed simp

lemma engine_round:
  assumes "m_req_engine_stt re = RUN" and "m_events (m_fd_monitor re) = [old]"
    and "m_max_events (m_fd_monitor re) = 1"
    and "m_gateways re = gs @ g # hs" and "\<forall>g' \<in> set gs. GetFd g' w \<noteq> fd" and "GetFd g w = fd"
    and "Read g w = Inr (key, args, stop, w')" and "\<forall>g' \<in> set hs. GetFd g' w' \<noteq> fd"
    and "Factory_Create (m_factory re) key args = Inr task"
  shows "run_loop (Inr (fd # more_ready) # answers) re w =
      run_loop answers (re\<lparr>m_fd_monitor := (m_fd_monitor re)\<lparr>m_events := [fd]\<rparr>,
        m_req_engine_stt := (if stop then Status_STOP else RUN),
        m_thread_pool := m_thread_pool re @ [Push (UserTask MEDIUM task)]\<rparr>) w' \<and>
    run_loop (Inr [] # answers) re w = run_loop answers re w"
proof
  let ?ep = "(m_fd_monitor re)\<lparr>m_events := [fd]\<rparr>"
  let ?re = "re\<lparr>m_fd_monitor := ?ep\<rparr>"
  let ?re1 = "(if stop then RequestEngine_Stop ?re else ?re)
      \<lparr>m_thread_pool := m_thread_pool re @ [Push (UserTask MEDIUM task)]\<rparr>"
  have ep: "Epoll_WaitTimeOut (Inr (fd # more_ready)) (m_fd_monitor re) = Inr (1, ?ep)"
    using assms(2,3) by (simp add: Epoll_WaitTimeOut_def epoll_wait_def overwrite_def)
  have m: "m_events (m_fd_monitor ?re) ! 0 = fd" "m_events (m_fd_monitor ?re1) ! 0 = fd"
    by (simp_all add: RequestEngine_Stop_def)
  have "poll_gateways gs ?re w = Inr (?re, w)"
    using assms(5) by (intro poll_gateways_other) simp_all
  moreover have "serve_gateway g ?re w = Inr (?re1, w')"
    using assms(7,9) by (simp add: serve_gateway_eq)
  moreover have "poll_gateways hs ?re1 w' = Inr (?re1, w')"
    using assms(8) by (intro poll_gateways_other) (simp_all add: RequestEngine_Stop_def)
  ultimately have "poll_gateways (m_gateways re) ?re w = Inr (?re1, w')"
    using assms(6) by (simp add: assms(4) poll_gateways_append Epoll_index_def)
  moreover have "?re1 = re\<lparr>m_fd_monitor := ?ep, m_req_engine_stt := (if stop then Status_STOP else RUN),
        m_thread_pool := m_thread_pool re @ [Push (UserTask MEDIUM task)]\<rparr>"
    using assms(1) by (cases re) (simp add: RequestEngine_Stop_def)
  ultimately show "run_loop (Inr (fd # more_ready) # answers) re w =
      run_loop answers (re\<lparr>m_fd_monitor := ?ep, m_req_engine_stt := (if stop then Status_STOP else RUN),
        m_thread_pool := m_thread_pool re @ [Push (UserTask MEDIUM task)]\<rparr>) w'"
    using assms(1) ep by simp
  have "re\<lparr>m_fd_monitor := (m_fd_monitor re)\<lparr>m_events := m_events (m_fd_monitor re)\<rparr>\<rparr> = re" by simp
  with assms(1) show "run_loop (Inr [] # answers) re w = run_loop answers re w"
    by (simp add: Epoll_WaitTimeOut_def epoll_wait_def)
qed

text \<open>
  What the gateways of a list read in one round, the descriptor \<open>fd\<close> being ready: in the order of the list,
  each gateway that has the descriptor at its turn, and no other one, reads once and the factory makes a
  task of it.
\<close>

inductive gateways_read ::
  "int \<Rightarrow> ('k \<times> ('a \<Rightarrow> 't)) list \<Rightarrow> ('w, 'k, 'a) GateWay list \<Rightarrow> 'w \<Rightarrow> 't list \<Rightarrow> bool list \<Rightarrow> 'w \<Rightarrow> bool"
  for fd factory where
  no_more: "gateways_read fd factory [] w [] [] w"
| other: "GetFd g w \<noteq> fd \<Longrightarrow> gateways_read fd factory gs w ts stops w' \<Longrightarrow>
    gateways_read fd factory (g # gs) w ts stops w'"
| ready: "GetFd g w = fd \<Longrightarrow> Read g w = Inr (key, args, stop, w1) \<Longrightarrow> Factory_Create factory key args = Inr t \<Longrightarrow>
    gateways_read fd factory gs w1 ts stops w' \<Longrightarrow> gateways_read fd factory (g # gs) w (t # ts) (stop # stops) w'"

inductive_cases gateways_read_Cons: "gateways_read fd factory (g # gs) w ts stops w'"

lemma gateways_read_each_ready:
  assumes "gateways_read fd factory gs w ts stops w'" and "\<forall>g \<in> set gs. \<forall>u v. GetFd g u = GetFd g v"
  shows "length ts = length (filter (\<lambda>g. GetFd g w = fd) gs)"
  using assms
proof (induction rule: gateways_read.induct)
  case (ready g w key args stop w1 t gs ts stops w')
  then have same: "\<forall>g \<in> set gs. GetFd g w1 = GetFd g w" by auto
  then have "filter (\<lambda>g. GetFd g w1 = fd) gs = filter (\<lambda>g. GetFd g w = fd) gs" by (intro filter_cong) auto
  with ready show ?case by auto
qed auto

text \<open>The state of the engine after such a round.\<close>

definition served :: "'t list \<Rightarrow> bool list \<Rightarrow> ('w, 'k, 'a, 't) RequestEngine \<Rightarrow> ('w, 'k, 'a, 't) RequestEngine" where
  "served ts stops re = re\<lparr>m_req_engine_stt := (if True \<in> set stops then Status_STOP else m_req_engine_stt re),
     m_thread_pool := m_thread_pool re @ map (\<lambda>t. Push (UserTask MEDIUM t)) ts\<rparr>"

lemma served_simps [simp]:
  "m_fd_monitor (served ts stops re) = m_fd_monitor re" "m_factory (served ts stops re) = m_factory re"
  "served [] [] re = re"
  by (simp_all add: served_def)

lemma served_step:
  "served ts stops ((if stop then RequestEngine_Stop re else re)
     \<lparr>m_thread_pool := m_thread_pool re @ [Push (UserTask MEDIUM t)]\<rparr>) = served (t # ts) (stop # stops) re"
  by (simp add: served_def RequestEngine_Stop_def)

lemma poll_gateways_served:
  assumes "gateways_read fd (m_factory re) gs w ts stops w'" and "m_events (m_fd_monitor re) = [fd]"
  shows "poll_gateways gs re w = Inr (served ts stops re, w')"
  using assms
proof (induction gs arbitrary: re w ts stops)
  case Nil
  then show ?case by (auto elim: gateways_read.cases)
next
  case (Cons g gs)
  have fd: "Epoll_index (m_fd_monitor re) 0 = Inr fd" using Cons.prems(2) by (simp add: Epoll_index_def)
  from Cons.prems(1) consider (skip) "GetFd g w \<noteq> fd" "gateways_read fd (m_factory re) gs w ts stops w'"
    | (ready) key args stop w1 t ts' stops' where "ts = t # ts'" "stops = stop # stops'" "GetFd g w = fd"
        "Read g w = Inr (key, args, stop, w1)" "Factory_Create (m_factory re) key args = Inr t"
        "gateways_read fd (m_factory re) gs w1 ts' stops' w'"
    by (rule gateways_read_Cons)
  then show ?case
  proof cases
    case skip
    with Cons.IH [OF skip(2) Cons.prems(2)] fd show ?thesis by simp
  next
    case ready
    let ?re = "(if stop then RequestEngine_Stop re else re)
      \<lparr>m_thread_pool := m_thread_pool re @ [Push (UserTask MEDIUM t)]\<rparr>"
    have "serve_gateway g re w = Inr (?re, w1)" using ready by (simp add: serve_gateway_eq)
    moreover have "m_factory ?re = m_factory re" "m_fd_monitor ?re = m_fd_monitor re"
      by (simp_all add: RequestEngine_Stop_def)
    with Cons.IH [of ?re w1 ts' stops'] ready(6) Cons.prems(2)
    have "poll_gateways gs ?re w1 = Inr (served ts' stops' ?re, w')" by simp
    ultimately show ?thesis using fd ready by (simp add: served_step)
  qed
qed

section \<open>Properties\<close>

text \<open>
  C28: one round of the main loop, with any number of gateways: when the kernel reports a descriptor, each
  gateway that has it is read once, in the order of the gateways, and the tasks, made by the factory from what
  they read, go to the thread pool in this order with the priority \<open>MEDIUM\<close>; the loop goes on unless one
  of the gateways has stopped the engine, behind the round.  Where the gateways keep their descriptors
  there are as many tasks as gateways with this descriptor.  A round that times out changes nothing.
\<close>

theorem engine_serves_ready_gateway:
  assumes "m_req_engine_stt re = RUN" and "m_events (m_fd_monitor re) = [old]"
    and "m_max_events (m_fd_monitor re) = 1"
    and "gateways_read fd (m_factory re) (m_gateways re) w tasks stops w'"
  shows "run_loop (Inr (fd # more_ready) # answers) re w =
      run_loop answers (re\<lparr>m_fd_monitor := (m_fd_monitor re)\<lparr>m_events := [fd]\<rparr>,
        m_req_engine_stt := (if True \<in> set stops then Status_STOP else RUN),
        m_thread_pool := m_thread_pool re @ map (\<lambda>task. Push (UserTask MEDIUM task)) tasks\<rparr>) w' \<and>
    ((\<forall>g \<in> set (m_gateways re). \<forall>u v. GetFd g u = GetFd g v) \<longrightarrow>
      length tasks = length (filter (\<lambda>g. GetFd g w = fd) (m_gateways re))) \<and>
    run_loop (Inr [] # answers) re w = run_loop answers re w"
proof (intro conjI)
  let ?ep = "(m_fd_monitor re)\<lparr>m_events := [fd]\<rparr>"
  have ep: "Epoll_WaitTimeOut (Inr (fd # more_ready)) (m_fd_monitor re) = Inr (1, ?ep)"
    using assms(2,3) by (simp add: Epoll_WaitTimeOut_def epoll_wait_def overwrite_def)
  have poll: "poll_gateways (m_gateways re) (re\<lparr>m_fd_monitor := ?ep\<rparr>) w =
      Inr (served tasks stops (re\<lparr>m_fd_monitor := ?ep\<rparr>), w')"
    using assms(4) by (intro poll_gateways_served) simp_all
  show "run_loop (Inr (fd # more_ready) # answers) re w =
      run_loop answers (re\<lparr>m_fd_monitor := ?ep,
        m_req_engine_stt := (if True \<in> set stops then Status_STOP else RUN),
        m_thread_pool := m_thread_pool re @ map (\<lambda>task. Push (UserTask MEDIUM task)) tasks\<rparr>) w'"
    using assms(1) ep poll by (simp add: served_def)
  show "(\<forall>g \<in> set (m_gateways re). \<forall>u v. GetFd g u = GetFd g v) \<longrightarrow>
      length tasks = length (filter (\<lambda>g. GetFd g w = fd) (m_gateways re))"
    using gateways_read_each_ready [OF assms(4)] by blast
  show "run_loop (Inr [] # answers) re w = run_loop answers re w"
    using assms(1) by (simp add: Epoll_WaitTimeOut_def epoll_wait_def)
qed

text \<open>
  An engine with three gateways on a counter: the first reads it, the other two have the same descriptor, and one of them
  stops the engine.
\<close>

definition ex_engine :: "(nat, nat, nat, nat) RequestEngine" where
  "ex_engine = \<lparr>m_req_engine_stt = RUN,
     m_fd_monitor = \<lparr>m_events = [0], m_max_events = 1, m_epoll_fd = 3, interest = [4, 5]\<rparr>,
     m_thread_pool = [], m_factory = [(1, \<lambda>n. n)],
     m_gateways = [\<lparr>GetFd = (\<lambda>w. 4), Read = (\<lambda>w. Inr (1, w, False, Suc w))\<rparr>,
                   \<lparr>GetFd = (\<lambda>w. 5), Read = (\<lambda>w. Inr (1, w, True, Suc w))\<rparr>,
                   \<lparr>GetFd = (\<lambda>w. 5), Read = (\<lambda>w. Inr (1, w, False, w))\<rparr>]\<rparr>"

theorem engine_serves_ready_gateway_witness:
  "run_loop [Inr [5]] ex_engine 7 = run_loop [] (ex_engine
      \<lparr>m_fd_monitor := (m_fd_monitor ex_engine)\<lparr>m_events := [5]\<rparr>, m_req_engine_stt := Status_STOP,
       m_thread_pool := [Push (UserTask MEDIUM 7), Push (UserTask MEDIUM 8)]\<rparr>) 8"
proof -
  have "gateways_read 5 (m_factory ex_engine) (m_gateways ex_engine) 7 [7, 8] [True, False] 8"
    unfolding ex_engine_def
    by (simp, rule gateways_read.other, simp, rule gateways_read.ready [where key = 1], simp_all add: Factory_Create_def,
        rule gateways_read.ready [where key = 1], simp_all add: Factory_Create_def, rule gateways_read.no_more)
  from engine_serves_ready_gateway [OF _ _ _ this, of 0 "[]" "[]"] show ?thesis by (simp add: ex_engine_def)
qed

text \<open>
  The main loop returns only after a gateway asked for it in the loop: with gateways whose \<open>Read\<close>
  never stops the engine it does not return, whatever the kernel reports, and a call of \<open>Stop\<close> before
  \<open>Run\<close> has no effect.
\<close>

theorem engine_runs_until_asked:
  assumes "\<forall>g \<in> set (m_gateways re). never_stops g"
  shows "RequestEngine_Run answers re w \<noteq> Inr result \<and>
    RequestEngine_Run answers (RequestEngine_Stop re) w \<noteq> Inr result"
  using assms run_loop_never_returns [of "re\<lparr>m_req_engine_stt := RUN\<rparr>" answers w result]
  by (simp add: RequestEngine_Run_def RequestEngine_Stop_def)

theorem engine_runs_until_asked_witness:
  "RequestEngine_Run [Inr [4], Inr [], Inr [9]]
     (RequestEngine_Stop (ex_engine\<lparr>m_gateways := take 1 (m_gateways ex_engine)\<rparr>)) 7 \<noteq>
   Inr (ex_engine, [], 7)"
  using engine_runs_until_asked [of "ex_engine\<lparr>m_gateways := take 1 (m_gateways ex_engine)\<rparr>"
      "[Inr [4], Inr [], Inr [9]]" 7 "(ex_engine, [], 7)"]
  by (simp add: ex_engine_def never_stops_def)

end
