(* ===== verification/Programs.thy ===== *)
theory Programs
  imports Pipeline Handshake Request_Engine Pool_Runs
begin

text \<open>
  The two programs: the master (release/greencloud.0.5.cpp) and the slave (release/slave.cpp).  Each
  builds its driver, its storage and the request engine, runs the main loop, and turns what ends the
  loop into an exit status.  What the configuration file holds and what the system answers are
  arguments.  The tasks the engine hands to the thread pool are run by the workers, with
  \<open>master_Execute\<close> and \<open>slave_Execute\<close>.
\<close>

section \<open>Signals\<close>

text \<open>
  The functions of the slave as far as \<open>main\<close> can see them, which is whether they throw; the set, the mask
  and the handlers they leave behind are those of \<open>Signal_Setup\<close>, where \<open>MainThreadSetSignals_erase\<close>
  relates the two.
\<close>

datatype sig_call = Sigfillset | Sigdelset string | Sigprocmask | Sigemptyset | Sigaddset string | Sigaction string

definition SigAdd :: "(sig_call \<Rightarrow> int) \<Rightarrow> string \<Rightarrow> unit res" where
  "SigAdd sys sig =
     (if sys (Sigaddset sig) \<noteq> 0 then Inl (Runtime_Error ''SigAdd() - fail to set signals'') else Inr ())"

definition set_Sigaction :: "(sig_call \<Rightarrow> int) \<Rightarrow> string \<Rightarrow> unit res" where
  "set_Sigaction sys sig =
     (if sys (Sigaction sig) \<noteq> 0 then Inl (Runtime_Error ''Sigaction() fail to set signals'') else Inr ())"

definition SigEmpty :: "(sig_call \<Rightarrow> int) \<Rightarrow> unit res" where
  "SigEmpty sys =
     (if sys Sigemptyset \<noteq> 0 then Inl (Runtime_Error ''SigEmpty() fail to set signals'') else Inr ())"

definition SetSigMask :: "(sig_call \<Rightarrow> int) \<Rightarrow> unit res" where
  "SetSigMask sys =
     (if sys Sigfillset + sys (Sigdelset ''SIGINT'') + sys (Sigdelset ''SIGTERM'') + sys Sigprocmask \<noteq> 0
      then Inl (Runtime_Error ''SetSigMask() fail to set signals'') else Inr ())"

definition MainThreadSetSignals :: "(sig_call \<Rightarrow> int) \<Rightarrow> unit res" where
  "MainThreadSetSignals sys =
     bindE (SetSigMask sys) (\<lambda>_. bindE (SigEmpty sys) (\<lambda>_.
     bindE (SigAdd sys ''SIGINT'') (\<lambda>_. bindE (SigAdd sys ''SIGTERM'') (\<lambda>_.
     bindE (set_Sigaction sys ''SIGINT'') (\<lambda>_. set_Sigaction sys ''SIGTERM'')))))"

section \<open>How main ends\<close>

text \<open>
  The handlers of \<open>main\<close>: \<open>EINTR\<close> from the monitor disconnects the driver, every other error of the
  monitor is dropped, a \<open>std::runtime_error\<close> gives the status 2, and everything else goes on (\<open>Inl\<close>).
\<close>

definition EINTR :: int where "EINTR = 4"
definition SUCCESS :: int where "SUCCESS = 0"
definition ARGUMENTS :: int where "ARGUMENTS = 1"
definition EXCEPTION :: int where "EXCEPTION = 2"
definition CONVTER_TO_MB :: "64 word" where "CONVTER_TO_MB = 1024 * 1024"

fun is_runtime_error :: "fault \<Rightarrow> bool" where
  "is_runtime_error (Runtime_Error msg) = True"
| "is_runtime_error (NBDBadMagic m) = True"
| "is_runtime_error (SemError e) = True"
| "is_runtime_error (SemTimeOut e) = True"
| "is_runtime_error (EpollError e) = True"
| "is_runtime_error _ = False"

definition main_handlers :: "unit res \<Rightarrow> 'a res \<Rightarrow> int res" where
  "main_handlers disconnect r =
     (case r of
        Inr _ \<Rightarrow> Inr SUCCESS
      | Inl (EpollError e) \<Rightarrow> if EINTR = e then bindE disconnect (\<lambda>_. Inr SUCCESS) else Inr SUCCESS
      | Inl f \<Rightarrow> if is_runtime_error f then Inl (Exit EXCEPTION) else Inl f)"

section \<open>Setting up an engine\<close>

definition add_tasks :: "('k \<times> ('a \<Rightarrow> 't)) list \<Rightarrow> ('w, 'k, 'a, 't) RequestEngine \<Rightarrow> ('w, 'k, 'a, 't) RequestEngine" where
  "add_tasks kfs re = fold (\<lambda>(k, f). RequestEngine_AddTask k f) kfs re"

fun add_gateways ::
  "(int \<Rightarrow> int option) \<Rightarrow> 'w \<Rightarrow> ('w, 'k, 'a) GateWay list \<Rightarrow> ('w, 'k, 'a, 't) RequestEngine \<Rightarrow>
   ('w, 'k, 'a, 't) RequestEngine res" where
  "add_gateways epoll_ctl w [] re = Inr re"
| "add_gateways epoll_ctl w (g # gs) re =
     bindE (RequestEngine_AddGateWay (epoll_ctl (GetFd g w)) w g re) (add_gateways epoll_ctl w gs)"

section \<open>The master\<close>

text \<open>
  What the gateways of the master share: the master itself, the bytes of the kernel not read yet, the
  results of reading from the standard input and the datagrams that wait at each socket.
\<close>

record master_world =
  mw :: master
  mw_in :: "byte list"
  mw_stdin :: "byte list option list"
  mw_dgrams :: "int \<Rightarrow> recv_result list"

definition stdin_gateway :: "(master_world, FactoryKey, TaskInfo) GateWay" where
  "stdin_gateway =
     \<lparr>GetFd = (\<lambda>w. 0),
      Read = (\<lambda>w. case mw_stdin w of
          [] \<Rightarrow> Inl Would_Block
        | x # xs \<Rightarrow> bindE (StdinGateWay_Read x) (\<lambda>(key, info, stop).
            Inr (key, info, stop, w\<lparr>mw_stdin := xs\<rparr>)))\<rparr>"

definition nbd_gateway :: "nbd_abi \<Rightarrow> (master_world, FactoryKey, TaskInfo) GateWay" where
  "nbd_gateway abi =
     \<lparr>GetFd = (\<lambda>w. NBDDriverProxy_GetReqFd (ms_driver (mw w))),
      Read = (\<lambda>w. bindE (NBDDriverProxy_ReceiveRequest abi (ms_ios (mw w)) (mw_in w)) (\<lambda>(data, ios, inp).
        bindE (DriverProxyGateWay_Read data) (\<lambda>(key, info, stop).
        Inr (key, info, stop, w\<lparr>mw := (mw w)\<lparr>ms_ios := ios\<rparr>, mw_in := inp\<rparr>))))\<rparr>"

definition slave_gateway :: "int \<Rightarrow> (master_world, FactoryKey, TaskInfo) GateWay" where
  "slave_gateway sock =
     \<lparr>GetFd = (\<lambda>w. sock),
      Read = (\<lambda>w. case mw_dgrams w sock of
          [] \<Rightarrow> Inl Would_Block
        | x # xs \<Rightarrow> bindE (SlaveGateway_Read (ms_storage (mw w)) x) (\<lambda>(key, info, storage).
            Inr (key, info, False, w\<lparr>mw := (mw w)\<lparr>ms_storage := storage\<rparr>,
                                     mw_dgrams := (mw_dgrams w)(sock := xs)\<rparr>)))\<rparr>"

type_synonym master_engine = "(master_world, FactoryKey, TaskInfo, master_task) RequestEngine"

text \<open>\<open>ReleaseResources\<close> destroys the engine, which the pointer of the \<open>Handleton\<close> still names.\<close>

definition RunGreenCloude ::
  "nbd_abi \<Rightarrow> nat \<Rightarrow> int + int \<Rightarrow> (int \<Rightarrow> int option) \<Rightarrow> (int + int list) list \<Rightarrow> master_world \<Rightarrow>
   (master_engine \<times> master_world) res" where
  "RunGreenCloude abi threads epoll_create epoll_ctl answers w =
     bindE (RequestEngine_ctor epoll_create) (\<lambda>req_eng.
     bindE (add_gateways epoll_ctl w [stdin_gateway, nbd_gateway abi] (add_tasks master_creators req_eng)) (\<lambda>req_eng.
     bindE (GetAllFds (ms_storage (mw w))) (\<lambda>fds.
     bindE (add_gateways epoll_ctl w (map slave_gateway fds) req_eng) (\<lambda>req_eng.
     bindE (RequestEngine_Run answers req_eng w) (\<lambda>(req_eng, _, w).
     Inr (RequestEngine_dtor threads req_eng, w))))))"

text \<open>What the system and the configuration give to the programs.\<close>

record program_env =
  pe_ac :: int
  pe_storage_size :: "64 word"
  pe_num_of_slaves :: "64 word"
  pe_num_of_threads :: "64 word"
  pe_ioctl :: "nbd_call \<Rightarrow> bool"
  pe_socket_pair :: "(int \<times> int) option"
  pe_device_fd :: int
  pe_slaves :: "nat \<Rightarrow> slave_env"
  pe_sys :: "sig_call \<Rightarrow> int"
  pe_epoll_create :: "int + int"
  pe_epoll_ctl :: "int \<Rightarrow> int option"

definition master_main ::
  "nbd_abi \<Rightarrow> program_env \<Rightarrow> (int + int list) list \<Rightarrow> (master \<Rightarrow> master_world) \<Rightarrow> io list \<Rightarrow> int res" where
  "master_main abi pe answers world ios =
     (if pe_ac pe = 1 then Inl (Exit ARGUMENTS)
      else
        let storage_size = pe_storage_size pe * CONVTER_TO_MB in
        case NBDDriverProxy_ctor (pe_ioctl pe) (pe_socket_pair pe) (pe_device_fd pe) storage_size of
          Inl f \<Rightarrow> main_handlers (Inl Null_Deref) (Inl f :: unit res)
        | Inr (driver, calls) \<Rightarrow>
            main_handlers (bindE (NBDDriverProxy_Disconnect (pe_ioctl pe) driver) (\<lambda>_. Inr ()))
              (bindE (CloudStorage_ctor (pe_slaves pe) (pe_num_of_slaves pe) storage_size) (\<lambda>storage.
               bindE (MainThreadSetSignals (pe_sys pe)) (\<lambda>_.
               RunGreenCloude abi (unat (pe_num_of_threads pe)) (pe_epoll_create pe) (pe_epoll_ctl pe) answers
                 (world \<lparr>ms_storage = storage, ms_driver = driver, ms_ios = ios, ms_out = [],
                         ms_sent = [], ms_calls = calls\<rparr>)))))"

section \<open>The slave\<close>

record slave_world =
  sw :: slave
  sw_dgrams :: "recv_result list"

definition master_gateway :: "(slave_world, FactoryKey, TaskInfo) GateWay" where
  "master_gateway =
     \<lparr>GetFd = (\<lambda>w. SlaveDriverProxy_GetReqFd (sl_driver (sw w))),
      Read = (\<lambda>w. case sw_dgrams w of
          [] \<Rightarrow> Inl Would_Block
        | x # xs \<Rightarrow> bindE (SlaveDriverProxy_ReceiveRequest (sl_driver (sw w)) x) (\<lambda>(drv, data).
            bindE (DriverProxyGateWay_Read data) (\<lambda>(key, info, stop).
            Inr (key, info, stop, w\<lparr>sw := (sw w)\<lparr>sl_driver := drv\<rparr>, sw_dgrams := xs\<rparr>))))\<rparr>"

type_synonym slave_engine = "(slave_world, FactoryKey, TaskInfo, slave_task) RequestEngine"

definition RunSlave ::
  "int + int \<Rightarrow> (int \<Rightarrow> int option) \<Rightarrow> (int + int list) list \<Rightarrow> slave_world \<Rightarrow> (slave_engine \<times> slave_world) res" where
  "RunSlave epoll_create epoll_ctl answers w =
     bindE (RequestEngine_ctor epoll_create) (\<lambda>req_eng.
     bindE (add_gateways epoll_ctl w [master_gateway] (add_tasks slave_creators req_eng)) (\<lambda>req_eng.
     bindE (slave_hello (sw w)) (\<lambda>sl.
     bindE (RequestEngine_Run answers req_eng (w\<lparr>sw := sl\<rparr>)) (\<lambda>(req_eng, _, w). Inr (req_eng, w)))))"

definition slave_main ::
  "program_env \<Rightarrow> int \<Rightarrow> 32 word option \<Rightarrow> 16 word \<Rightarrow> bool \<Rightarrow> byte list \<Rightarrow> (int + int list) list \<Rightarrow>
   recv_result list \<Rightarrow> int res" where
  "slave_main pe sockfd ip port mmap_ok file answers dgrams =
     (if pe_storage_size pe = 0 then Inl (Exit ARGUMENTS)
      else
        let driver = SlaveDriverProxy_ctor sockfd ip port;
            storage = MmapStorage_ctor mmap_ok file (pe_storage_size pe * CONVTER_TO_MB)
        in main_handlers (Inr ())
             (bindE (MainThreadSetSignals (pe_sys pe)) (\<lambda>_.
              RunSlave (pe_epoll_create pe) (pe_epoll_ctl pe) answers
                \<lparr>sw = \<lparr>sl_storage = storage, sl_driver = driver, sl_sent = []\<rparr>, sw_dgrams = dgrams\<rparr>)))"

section \<open>Engines after their set-up\<close>

lemma add_tasks_simps [simp]:
  "m_factory (add_tasks kfs re) = add_creators kfs (m_factory re)"
  "m_gateways (add_tasks kfs re) = m_gateways re" "m_fd_monitor (add_tasks kfs re) = m_fd_monitor re"
  "m_thread_pool (add_tasks kfs re) = m_thread_pool re"
  by (induction kfs arbitrary: re) (auto simp: add_tasks_def add_creators_def RequestEngine_AddTask_def)

lemma add_gateways_ok:
  "(\<And>fd. epoll_ctl fd = None) \<Longrightarrow>
   \<exists>re'. add_gateways epoll_ctl w gs re = Inr re' \<and> m_gateways re' = m_gateways re @ gs \<and>
     m_factory re' = m_factory re \<and> m_thread_pool re' = m_thread_pool re \<and>
     m_events (m_fd_monitor re') = m_events (m_fd_monitor re) \<and>
     m_max_events (m_fd_monitor re') = m_max_events (m_fd_monitor re)"
proof (induction gs arbitrary: re)
  case (Cons g gs)
  have "RequestEngine_AddGateWay (epoll_ctl (GetFd g w)) w g re = Inr (re
      \<lparr>m_fd_monitor := (m_fd_monitor re)\<lparr>interest := interest (m_fd_monitor re) @ [GetFd g w]\<rparr>,
       m_gateways := m_gateways re @ [g]\<rparr>)"
    using Cons.prems by (simp add: RequestEngine_AddGateWay_def Epoll_Add_def)
  with Cons.IH [OF Cons.prems, of "re
      \<lparr>m_fd_monitor := (m_fd_monitor re)\<lparr>interest := interest (m_fd_monitor re) @ [GetFd g w]\<rparr>,
       m_gateways := m_gateways re @ [g]\<rparr>"] show ?case by auto
qed simp

lemma RequestEngine_ctor_ok:
  "RequestEngine_ctor (Inr ep) = Inr \<lparr>m_req_engine_stt = INIT,
     m_fd_monitor = \<lparr>m_events = [0], m_max_events = 1, m_epoll_fd = ep, interest = []\<rparr>,
     m_thread_pool = [], m_factory = [], m_gateways = []\<rparr>"
  by (simp add: RequestEngine_ctor_def Epoll_ctor_def MAX_EVENTS_TO_WAKE_def)

text \<open>A round of an engine in which the first gateway reads something or fails to.\<close>

lemma run_first_gateway:
  assumes "m_gateways re = g # gs" and "GetFd g w = fd"
    and "m_events (m_fd_monitor re) = [old]" and "m_max_events (m_fd_monitor re) = 1"
    and "serve_gateway g (re\<lparr>m_req_engine_stt := RUN, m_fd_monitor := (m_fd_monitor re)\<lparr>m_events := [fd]\<rparr>\<rparr>) w = Inl f"
  shows "RequestEngine_Run (Inr (fd # more_ready) # answers) re w = Inl f"
proof -
  have "Epoll_WaitTimeOut (Inr (fd # more_ready)) (m_fd_monitor re) =
      Inr (1, (m_fd_monitor re)\<lparr>m_events := [fd]\<rparr>)"
    using assms(3,4) by (simp add: Epoll_WaitTimeOut_def epoll_wait_def overwrite_def)
  with assms(1,2,5) show ?thesis by (simp add: RequestEngine_Run_def Epoll_index_def)
qed

section \<open>Properties\<close>

text \<open>
  C29: a \<open>q\<close> on the standard input ends the main loop of the master in that round, whatever the kernel
  reports after it; no request of the kernel or reply of a slave was read.  The one task handed to the
  thread pool is \<open>STDINExit\<close>; the destructor of the engine then stops the pool, and there is a run of the
  pool after which that task, which disconnects the driver, is never executed.
\<close>

theorem master_quits_on_q:
  assumes "\<And>fd. epoll_ctl fd = None" and "GetAllFds (ms_storage (mw w)) = Inr fds"
    and "0 \<notin> set fds" and "m_req_fd (ms_driver (mw w)) \<noteq> 0"
    and "mw_stdin w = Some (of_char (CHR ''q'') # bytes) # xs"
  shows "\<exists>re. RunGreenCloude abi threads (Inr ep) epoll_ctl (Inr [0] # answers) w =
      Inr (re, w\<lparr>mw_stdin := xs\<rparr>) \<and>
    m_thread_pool re = Push (UserTask MEDIUM (STDINExit (TaskInfo None))) # Stop_ops (CheackNum threads) \<and>
    (\<exists>s0. pool_reaches (ThreadPool_ctor threads (m_thread_pool re)) s0 \<and>
      (\<forall>s. pool_reaches s0 s \<longrightarrow> executed s = []))"
proof -
  let ?re0 = "add_tasks master_creators \<lparr>m_req_engine_stt = INIT,
     m_fd_monitor = \<lparr>m_events = [0], m_max_events = 1, m_epoll_fd = ep, interest = []\<rparr>,
     m_thread_pool = [], m_factory = [], m_gateways = []\<rparr> :: master_engine"
  obtain re1 where re1: "add_gateways epoll_ctl w [stdin_gateway, nbd_gateway abi] ?re0 = Inr re1"
    "m_gateways re1 = [stdin_gateway, nbd_gateway abi]" "m_factory re1 = master_factory"
    "m_thread_pool re1 = []" "m_events (m_fd_monitor re1) = [0]" "m_max_events (m_fd_monitor re1) = 1"
    using add_gateways_ok [of epoll_ctl w "[stdin_gateway, nbd_gateway abi]" ?re0] assms(1)
    by (auto simp: master_factory_def simp del: add_gateways.simps)
  obtain re2 where re2: "add_gateways epoll_ctl w (map slave_gateway fds) re1 = Inr re2"
    "m_gateways re2 = stdin_gateway # nbd_gateway abi # map slave_gateway fds"
    "m_factory re2 = master_factory" "m_thread_pool re2 = []"
    "m_events (m_fd_monitor re2) = [0]" "m_max_events (m_fd_monitor re2) = 1"
    using add_gateways_ok [of epoll_ctl w "map slave_gateway fds" re1] assms(1) re1 by auto
  let ?re2 = "re2\<lparr>m_req_engine_stt := RUN\<rparr>" and ?w = "w\<lparr>mw_stdin := xs\<rparr>"
  let ?exit = "UserTask MEDIUM (STDINExit (TaskInfo None))"
  have read: "Read stdin_gateway w = Inr (Q_EXIT, TaskInfo None, True, ?w)"
    using assms(5) by (simp add: stdin_gateway_def StdinGateWay_Read_def byte_at_def
        StdinGateWay_BUFF_SIZE_def overwrite_def take_Cons')
  have fds: "\<forall>g \<in> set (nbd_gateway abi # map slave_gateway fds). GetFd g ?w \<noteq> 0"
    using assms(3,4) by (auto simp: nbd_gateway_def slave_gateway_def NBDDriverProxy_GetReqFd_def)
  have create: "Factory_Create (m_factory ?re2) Q_EXIT (TaskInfo None) = Inr (STDINExit (TaskInfo None))"
    by (simp add: re2(3))
  have "run_loop (Inr [0] # answers) ?re2 w = run_loop answers (?re2
      \<lparr>m_fd_monitor := (m_fd_monitor ?re2)\<lparr>m_events := [0]\<rparr>, m_req_engine_stt := (if True then Status_STOP else RUN),
       m_thread_pool := m_thread_pool ?re2 @ [Push (UserTask MEDIUM (STDINExit (TaskInfo None)))]\<rparr>) ?w"
    using engine_round [of ?re2 0 "[]" stdin_gateway "nbd_gateway abi # map slave_gateway fds" w 0
        Q_EXIT "TaskInfo None" True ?w "STDINExit (TaskInfo None)" "[]" answers]
      re2 read fds create by (simp add: stdin_gateway_def)
  moreover have "RunGreenCloude abi threads (Inr ep) epoll_ctl (Inr [0] # answers) w =
      bindE (run_loop (Inr [0] # answers) ?re2 w) (\<lambda>(req_eng, _, w). Inr (RequestEngine_dtor threads req_eng, w))"
    by (simp only: RunGreenCloude_def RequestEngine_ctor_ok bindE_simps re1(1) assms(2) re2(1)
        RequestEngine_Run_def)
  ultimately have "\<exists>re. RunGreenCloude abi threads (Inr ep) epoll_ctl (Inr [0] # answers) w = Inr (re, ?w) \<and>
      m_thread_pool re = Push ?exit # Stop_ops (CheackNum threads)"
    by (simp add: re2(4) RequestEngine_dtor_def ThreadPool_dtor_ops_def del: run_loop.simps(2)
        add: run_loop_stopped)
  moreover have "ThreadPool_ctor threads (Push ?exit # Stop_ops (CheackNum threads)) = stopping_pool threads [?exit]"
    by (simp add: stopping_pool_def)
  moreover have "\<exists>s0. pool_reaches (stopping_pool threads [?exit]) s0 \<and> (\<forall>s. pool_reaches s0 s \<longrightarrow> executed s = [])"
    by (rule stop_overtakes) simp
  ultimately show ?thesis by (metis (no_types, lifting))
qed

text \<open>A master whose driver uses the descriptor 5 and whose only slave the descriptor 3.\<close>

definition ex_world :: "byte list \<Rightarrow> master_world" where
  "ex_world line =
     \<lparr>mw = \<lparr>ms_storage = one_slave \<lparr>sin_port = 1, sin_addr = 2\<rparr>,
             ms_driver = \<lparr>m_req_fd = 5, m_nbd_fd = 6, m_file_fd = 7, m_connected = ON\<rparr>,
             ms_ios = [], ms_out = [], ms_sent = [], ms_calls = []\<rparr>,
      mw_in = [], mw_stdin = [Some line], mw_dgrams = (\<lambda>_. [])\<rparr>"

theorem master_quits_on_q_witness:
  "\<exists>re. RunGreenCloude packed_abi 2 (Inr 8) (\<lambda>_. None) [Inr [0], Inl 4] (ex_world [113, 10]) =
      Inr (re, (ex_world [113, 10])\<lparr>mw_stdin := []\<rparr>) \<and>
    m_thread_pool re = Push (UserTask MEDIUM (STDINExit (TaskInfo None))) # Stop_ops (CheackNum 2) \<and>
    (\<exists>s0. pool_reaches (ThreadPool_ctor 2 (m_thread_pool re)) s0 \<and>
      (\<forall>s. pool_reaches s0 s \<longrightarrow> executed s = []))"
  by (rule master_quits_on_q [where fds = "[3]" and bytes = "[10]"])
     (simp_all add: ex_world_def GetAllFds_def)

text \<open>
  C33: one datagram with an operation a slave does not know ends the whole program: the exception
  \<open>Badkey\<close> passes all handlers of its \<open>main\<close>, whatever else is waiting.
\<close>

theorem unknown_operation_ends_slave:
  assumes "pe_storage_size pe \<noteq> 0" and "\<And>c. pe_sys pe c = 0" and "pe_epoll_create pe = Inr ep"
    and "\<And>fd. pe_epoll_ctl pe fd = None"
    and "t \<noteq> 0" and "t \<notin> {48, 49, 50}"
    and "dgrams = Recv addr (message BUFF_SIZE (request_text off len req_id t) []) # more_dgrams"
  shows "slave_main pe sockfd ip port mmap_ok file (Inr [sockfd] # answers) dgrams = Inl Badkey"
proof -
  let ?drv = "SlaveDriverProxy_ctor sockfd ip port"
  let ?sl = "\<lparr>sl_storage = MmapStorage_ctor mmap_ok file (pe_storage_size pe * CONVTER_TO_MB),
      sl_driver = ?drv, sl_sent = []\<rparr>"
  let ?w = "\<lparr>sw = ?sl, sw_dgrams = dgrams\<rparr>"
  let ?re0 = "add_tasks slave_creators \<lparr>m_req_engine_stt = INIT,
     m_fd_monitor = \<lparr>m_events = [0], m_max_events = 1, m_epoll_fd = ep, interest = []\<rparr>,
     m_thread_pool = [], m_factory = [], m_gateways = []\<rparr> :: slave_engine"
  obtain re1 where re1: "add_gateways (pe_epoll_ctl pe) ?w [master_gateway] ?re0 = Inr re1"
    "m_gateways re1 = [master_gateway]" "m_factory re1 = slave_factory"
    "m_events (m_fd_monitor re1) = [0]" "m_max_events (m_fd_monitor re1) = 1"
    using add_gateways_ok [of "pe_epoll_ctl pe" ?w "[master_gateway]" ?re0] assms(4)
    by (auto simp: slave_factory_def simp del: add_gateways.simps)
  obtain sl where sl: "slave_hello ?sl = Inr sl" "sl_driver sl = ?drv"
    by (simp add: slave_hello_sent)
  let ?w1 = "?w\<lparr>sw := sl\<rparr>"
  from unknown_key [OF assms(6)] have key: "FactoryKey_of_char t \<noteq> WRITE"
    "FactoryKey_of_char t \<notin> {READ, WRITE, DISCONNECT}" by auto
  have serve: "serve_gateway master_gateway re ?w1 = Inl Badkey" if "m_factory re = slave_factory" for re :: slave_engine
    using key that by (simp add: serve_gateway_eq master_gateway_def assms(7) sl(2)
        ReceiveRequest_no_payload DriverProxyGateWay_Read_def parsed_request_def Factory_Create_slave)
  have fd: "GetFd master_gateway ?w1 = sockfd"
    by (simp add: master_gateway_def sl(2) SlaveDriverProxy_GetReqFd_def SlaveDriverProxy_ctor_def InitSocket_def)
  have "RequestEngine_Run (Inr (sockfd # []) # answers) re1 ?w1 = Inl Badkey"
    by (rule run_first_gateway [OF re1(2) fd re1(4,5) serve]) (simp add: re1(3))
  moreover have "MainThreadSetSignals (pe_sys pe) = Inr ()"
    using assms(2) by (simp add: MainThreadSetSignals_def SetSigMask_def SigEmpty_def SigAdd_def set_Sigaction_def)
  ultimately show ?thesis
    using assms(1)
    by (simp only: slave_main_def if_False Let_def bindE_simps RunSlave_def assms(3) RequestEngine_ctor_ok
        re1(1) sl(1) slave_world.simps)
       (simp add: main_handlers_def)
qed

text \<open>What a slave with a disk of one megabyte gets from a system that does not fail.\<close>

definition ex_program :: program_env where
  "ex_program = \<lparr>pe_ac = 2, pe_storage_size = 1, pe_num_of_slaves = 1, pe_num_of_threads = 2, pe_ioctl = (\<lambda>_. True),
     pe_socket_pair = Some (5, 6), pe_device_fd = 7,
     pe_slaves = (\<lambda>_. \<lparr>socket_result = 3, bind_result = (\<lambda>_. 0), datagrams = []\<rparr>),
     pe_sys = (\<lambda>_. 0), pe_epoll_create = Inr 8, pe_epoll_ctl = (\<lambda>_. None)\<rparr>"

theorem unknown_operation_ends_slave_witness:
  "slave_main ex_program 4 None 6666 True [] [Inr [4], Inr [4]]
     [Recv \<lparr>sin_port = 3, sin_addr = 4\<rparr> (message BUFF_SIZE (request_text 0 0 1 51) [])] = Inl Badkey"
  by (rule unknown_operation_ends_slave [where t = 51 and off = 0 and len = 0 and req_id = 1])
     (simp_all add: ex_program_def)

end
