(* ===== verification/Old_Storages.thy ===== *)
theory Old_Storages
  imports Mmap_Storage
begin

text \<open>
  The storages of the earlier versions: \<open>DiskStorage\<close> (disk_storage.hpp, disk_storage.cpp), a file behind a
  \<open>std::fstream\<close>, and \<open>MemoryStorage\<close> (memory_storage.hpp, memory_storage.cpp), a vector.  \<open>DiskStorage\<close>
  provides the \<open>storage\<close> contract until its stream has failed once; \<open>MemoryStorage\<close> does not provide it.
\<close>

section \<open>DiskStorage\<close>

text \<open>
  The stream is its file and whether \<open>failbit\<close> is set.  \<open>seekp\<close> takes a signed position; \<open>read\<close> sets
  \<open>failbit\<close> when the file ends first; a stream with \<open>failbit\<close> does nothing any more.
\<close>

record DiskStorage =
  m_file :: "cell list"
  failbit :: bool

definition zero_fill :: "cell list \<Rightarrow> nat \<Rightarrow> cell list" where
  "zero_fill file n = file @ replicate (n - length file) (Some 0)"

definition fstream_write :: "64 word \<Rightarrow> cell list \<Rightarrow> nat \<Rightarrow> DiskStorage \<Rightarrow> DiskStorage res" where
  "fstream_write pos src n st =
     (if failbit st then Inr st
      else if sint pos < 0 then Inr (st\<lparr>failbit := True\<rparr>)
      else if length src < n then Inl OutOfBounds
      else Inr (st\<lparr>m_file := overwrite (zero_fill (m_file st) (unat pos + n)) (unat pos) (take n src)\<rparr>))"

definition fstream_read :: "64 word \<Rightarrow> cell list \<Rightarrow> nat \<Rightarrow> DiskStorage \<Rightarrow> (cell list \<times> DiskStorage) res" where
  "fstream_read pos dest n st =
     (if failbit st then Inr (dest, st)
      else if sint pos < 0 then Inr (dest, st\<lparr>failbit := True\<rparr>)
      else
        let got = take n (drop (unat pos) (m_file st))
        in bindE (store_at dest 0 got) (\<lambda>dest'.
           Inr (dest', if length got < n then st\<lparr>failbit := True\<rparr> else st)))"

definition DiskStorage_ctor :: "bool \<Rightarrow> 64 word \<Rightarrow> DiskStorage res" where
  "DiskStorage_ctor open_ok sz = fstream_write sz [Some 0] 1 \<lparr>m_file = [], failbit = \<not> open_ok\<rparr>"

definition DiskStorage_Write :: "DiskStorage \<Rightarrow> DriverData \<Rightarrow> (DiskStorage \<times> DriverData) res" where
  "DiskStorage_Write st data =
     bindE (val (m_offset data)) (\<lambda>off. bindE (val (m_len data)) (\<lambda>len.
     bindE (fstream_write off (vmem (m_buff data)) (unat len) st) (\<lambda>st'. Inr (st', data))))"

definition DiskStorage_Read :: "DiskStorage \<Rightarrow> DriverData \<Rightarrow> (DiskStorage \<times> DriverData) res" where
  "DiskStorage_Read st data =
     bindE (val (m_len data)) (\<lambda>len.
     let buff = vec_reserve (unat len) (m_buff data) in
     bindE (val (m_offset data)) (\<lambda>off.
     bindE (fstream_read off (vmem buff) (unat len) st) (\<lambda>(mem, st').
     Inr (st', data\<lparr>m_buff := buff\<lparr>vmem := mem\<rparr>\<rparr>))))"

definition disk_good :: "DiskStorage \<Rightarrow> bool" where
  "disk_good st \<longleftrightarrow> \<not> failbit st \<and> length (m_file st) < 2 ^ 63"

lemma sint_nonneg_64:
  assumes "unat (w :: 64 word) < 2 ^ 63" shows "\<not> sint w < 0"
proof -
  from assms have "int (unat w) < int (2 ^ 63)" by (simp only: of_nat_less_iff)
  then have u: "uint w < 2 ^ 63" by simp
  moreover have "- (2 ^ 63) \<le> uint w" by (rule order_trans [OF _ uint_ge_0]) simp
  ultimately have "sint w = uint w" by (simp add: sint_uint signed_take_bit_int_eq_self)
  then show ?thesis by (simp add: not_less)
qed

lemma DiskStorage_Write_ok:
  assumes "disk_good st" and w: "write_request (length (m_file st)) d"
  shows "DiskStorage_Write st d = Inr (st\<lparr>m_file := spec_write (write_of d) (m_file st)\<rparr>, d)"
proof -
  from w obtain off len where d: "m_offset d = Some off" "m_len d = Some len"
    by (auto simp: write_request_def)
  with assms have "unat off < 2 ^ 63" by (simp add: write_request_def disk_good_def)
  with assms d sint_nonneg_64 [of off] show ?thesis
    by (simp add: DiskStorage_Write_def fstream_write_def write_request_def disk_good_def zero_fill_def
        spec_write_def write_of_def)
qed

lemma DiskStorage_Read_ok:
  assumes "disk_good st" and r: "read_request (length (m_file st)) d"
  shows "DiskStorage_Read st d =
    (let b = vec_reserve (unat (the (m_len d))) (m_buff d);
         off = unat (the (m_offset d)); n = unat (the (m_len d))
     in Inr (st, d\<lparr>m_buff := b\<lparr>vmem := overwrite (vmem b) 0 (stored_at (m_file st) off n)\<rparr>\<rparr>))"
proof -
  from r obtain off len where d: "m_offset d = Some off" "m_len d = Some len"
    by (auto simp: read_request_def)
  with assms have "unat off < 2 ^ 63" by (simp add: read_request_def disk_good_def)
  with assms d sint_nonneg_64 [of off] length_vec_reserve [of "unat len" "m_buff d"] show ?thesis
    by (simp add: DiskStorage_Read_def fstream_read_def read_request_def disk_good_def stored_at_def Let_def)
qed

interpretation disk: storage DiskStorage_Write DiskStorage_Read m_file disk_good
proof (unfold_locales, goal_cases)
  case (1 s d)
  have "length (spec_write (write_of d) (m_file s)) = length (m_file s)"
    using in_bounds_write_of [OF 1(2)] by (simp add: spec_write_def in_bounds_def)
  with 1 show ?case by (auto simp: DiskStorage_Write_ok disk_good_def)
next
  case (2 s d)
  have "unat (the (m_len d)) \<le> length (vmem (vec_reserve (unat (the (m_len d))) (m_buff d)))"
    by (rule length_vec_reserve)
  with 2 show ?case
    by (auto simp: DiskStorage_Read_ok Let_def payload_def stored_at_def overwrite_def
        read_request_def vec_reserve_def)
qed

section \<open>MemoryStorage\<close>

text \<open>
  \<open>std::copy\<close> moves the elements of the vector of the request, \<open>m_buff.begin()\<close> to \<open>m_buff.end()\<close>,
  which are the first \<open>vsize\<close> cells of its storage.
\<close>

type_synonym MemoryStorage = "cell list"

definition MemoryStorage_ctor :: "64 word \<Rightarrow> MemoryStorage" where
  "MemoryStorage_ctor sz = replicate (unat sz) (Some 0)"

definition MemoryStorage_Write :: "MemoryStorage \<Rightarrow> DriverData \<Rightarrow> (MemoryStorage \<times> DriverData) res" where
  "MemoryStorage_Write m_disk data =
     bindE (val (m_offset data)) (\<lambda>off.
     bindE (store_at m_disk (unat off) (take (vsize (m_buff data)) (vmem (m_buff data)))) (\<lambda>disk.
     Inr (disk, data)))"

definition MemoryStorage_Read :: "MemoryStorage \<Rightarrow> DriverData \<Rightarrow> (MemoryStorage \<times> DriverData) res" where
  "MemoryStorage_Read m_disk data =
     bindE (val (m_offset data)) (\<lambda>off. bindE (val (m_len data)) (\<lambda>len.
     if length m_disk < unat off + unat len then Inl OutOfBounds
     else
       let buff = vec_reserve (unat len) (m_buff data)
       in bindE (store_at (vmem buff) 0 (take (unat len) (drop (unat off) m_disk))) (\<lambda>mem.
          Inr (m_disk, data\<lparr>m_buff := buff\<lparr>vmem := mem\<rparr>\<rparr>))))"

section \<open>Properties\<close>

text \<open>
  One read that is not empty and goes past the end of the file ends the use of a \<open>DiskStorage\<close>: it returns normally,
  and after it every write is dropped and every read leaves its buffer as it was, without any error.
\<close>

theorem disk_read_past_end:
  assumes "disk_good st" and "m_offset d = Some off" and "m_len d = Some len"
    and "length (m_file st) < unat off + unat len" and "len \<noteq> 0"
  shows "\<exists>st' d'. DiskStorage_Read st d = Inr (st', d') \<and> m_file st' = m_file st \<and>
    (\<forall>e. m_offset e \<noteq> None \<and> m_len e \<noteq> None \<longrightarrow> DiskStorage_Write st' e = Inr (st', e)) \<and>
    (\<forall>e. m_offset e \<noteq> None \<and> m_len e \<noteq> None \<longrightarrow>
       DiskStorage_Read st' e = Inr (st', e\<lparr>m_buff := vec_reserve (unat (the (m_len e))) (m_buff e)\<rparr>))"
proof -
  let ?b = "vec_reserve (unat len) (m_buff d)"
  let ?got = "take (unat len) (drop (unat off) (m_file st))"
  have failed: "DiskStorage_Write (st\<lparr>failbit := True\<rparr>) e = Inr (st\<lparr>failbit := True\<rparr>, e)"
    "DiskStorage_Read (st\<lparr>failbit := True\<rparr>) e =
       Inr (st\<lparr>failbit := True\<rparr>, e\<lparr>m_buff := vec_reserve (unat (the (m_len e))) (m_buff e)\<rparr>)"
    if "m_offset e \<noteq> None" "m_len e \<noteq> None" for e
    using that by (auto simp: DiskStorage_Write_def fstream_write_def DiskStorage_Read_def
        fstream_read_def Let_def)
  have pos: "0 < unat len" using assms(5) by (simp add: unat_gt_0)
  have "unat len \<le> length (vmem ?b)" by (rule length_vec_reserve)
  then have "\<exists>mem. fstream_read off (vmem ?b) (unat len) st = Inr (mem, st\<lparr>failbit := True\<rparr>)"
    using assms(1,4,5) pos by (auto simp: fstream_read_def disk_good_def Let_def min_def)
  then obtain mem where "fstream_read off (vmem ?b) (unat len) st = Inr (mem, st\<lparr>failbit := True\<rparr>)" ..
  then have "DiskStorage_Read st d = Inr (st\<lparr>failbit := True\<rparr>, d\<lparr>m_buff := ?b\<lparr>vmem := mem\<rparr>\<rparr>)"
    using assms(2,3) by (simp add: DiskStorage_Read_def Let_def)
  with failed show ?thesis
    by (intro exI [of _ "st\<lparr>failbit := True\<rparr>"] exI [of _ "d\<lparr>m_buff := ?b\<lparr>vmem := mem\<rparr>\<rparr>"]) simp
qed

theorem disk_read_past_end_witness:
  "\<exists>st st' d'. DiskStorage_ctor True 4 = Inr st \<and>
    DiskStorage_Read st (write_data 3 [0, 0, 0]) = Inr (st', d') \<and>
    DiskStorage_Write st' (write_data 0 [1]) = Inr (st', write_data 0 [1])"
proof -
  have st: "DiskStorage_ctor True 4 = Inr \<lparr>m_file = replicate 5 (Some 0), failbit = False\<rparr>"
    by code_simp
  have "\<exists>st' d'. DiskStorage_Read \<lparr>m_file = replicate 5 (Some 0), failbit = False\<rparr> (write_data 3 [0, 0, 0]) =
      Inr (st', d') \<and> m_file st' = m_file \<lparr>m_file = replicate 5 (Some 0), failbit = False\<rparr> \<and>
    (\<forall>e. m_offset e \<noteq> None \<and> m_len e \<noteq> None \<longrightarrow> DiskStorage_Write st' e = Inr (st', e)) \<and>
    (\<forall>e. m_offset e \<noteq> None \<and> m_len e \<noteq> None \<longrightarrow>
       DiskStorage_Read st' e = Inr (st', e\<lparr>m_buff := vec_reserve (unat (the (m_len e))) (m_buff e)\<rparr>))"
    by (rule disk_read_past_end [where off = 3 and len = 3])
       (simp_all add: disk_good_def write_data_def)
  moreover have "m_offset (write_data 0 [1]) \<noteq> None \<and> m_len (write_data 0 [1]) \<noteq> None"
    by (simp add: write_data_def)
  ultimately show ?thesis unfolding st by blast
qed

text \<open>
  A \<open>MemoryStorage\<close> drops the writes of the drivers: they fill the buffer behind \<open>reserve()\<close>, so
  that its size is 0 and nothing is copied; a read after any such writes delivers zeros.
\<close>

theorem memory_drops_writes:
  assumes "\<forall>d \<in> set ds. vsize (m_buff d) = 0 \<and> (\<exists>off. m_offset d = Some off \<and> unat off \<le> unat sz)"
    and "read_request (unat sz) e"
  shows "\<exists>e'. run_writes MemoryStorage_Write (MemoryStorage_ctor sz) ds = Inr (MemoryStorage_ctor sz) \<and>
    MemoryStorage_Read (MemoryStorage_ctor sz) e = Inr (MemoryStorage_ctor sz, e') \<and>
    payload e' = replicate (unat (the (m_len e))) (Some 0)"
proof -
  have "run_writes MemoryStorage_Write (MemoryStorage_ctor sz) ds = Inr (MemoryStorage_ctor sz)"
    using assms(1)
    by (induction ds) (auto simp: MemoryStorage_Write_def MemoryStorage_ctor_def)
  moreover from assms(2) obtain off len where e: "m_offset e = Some off" "m_len e = Some len"
    by (auto simp: read_request_def)
  let ?b = "vec_reserve (unat len) (m_buff e)"
  have "unat len \<le> length (vmem ?b)" by (rule length_vec_reserve)
  with assms(2) e have "MemoryStorage_Read (MemoryStorage_ctor sz) e = Inr (MemoryStorage_ctor sz,
      e\<lparr>m_buff := ?b\<lparr>vmem := overwrite (vmem ?b) 0 (replicate (unat len) (Some 0))\<rparr>\<rparr>)"
    by (simp add: MemoryStorage_Read_def MemoryStorage_ctor_def read_request_def Let_def min_def
        not_less)
  moreover have "payload (e\<lparr>m_buff := ?b\<lparr>vmem := overwrite (vmem ?b) 0 (replicate (unat len) (Some 0))\<rparr>\<rparr>) =
      replicate (unat (the (m_len e))) (Some 0)"
    by (simp add: payload_def e overwrite_def)
  ultimately show ?thesis by blast
qed

theorem memory_drops_writes_witness:
  "\<exists>e'. run_writes MemoryStorage_Write (MemoryStorage_ctor 8) [write_data 1 [5, 6], write_data 2 [7]] =
      Inr (MemoryStorage_ctor 8) \<and>
    MemoryStorage_Read (MemoryStorage_ctor 8) (write_data 1 [5, 6]) = Inr (MemoryStorage_ctor 8, e') \<and>
    payload e' = replicate (unat (the (m_len (write_data 1 [5, 6])))) (Some 0)"
  by (rule memory_drops_writes) (simp_all add: write_data_def read_request_def)

end
