(* ===== verification/Logger.thy ===== *)
theory Logger
  imports C_Memory
begin

text \<open>
  \<open>Logger\<close> (logger.hpp, logger.cpp): the log file it chooses and the lines it writes into it.  A line is
  built in a heap buffer of fixed length by \<open>AddStr\<close>, whose arithmetic on \<open>size_t\<close> is kept at 64 bits.
  The time, the id of the process, the name of the thread and the file system are arguments.
\<close>

section \<open>Levels and columns\<close>

datatype Loglvl = LOG_ERROR | LOG_INFO | LOG_DEBUG

fun lvl_value :: "Loglvl \<Rightarrow> nat" where
  "lvl_value LOG_ERROR = 0"
| "lvl_value LOG_INFO = 1"
| "lvl_value LOG_DEBUG = 2"

instantiation Loglvl :: linorder
begin

definition less_eq_Loglvl :: "Loglvl \<Rightarrow> Loglvl \<Rightarrow> bool" where
  "less_eq_Loglvl a b \<longleftrightarrow> lvl_value a \<le> lvl_value b"

definition less_Loglvl :: "Loglvl \<Rightarrow> Loglvl \<Rightarrow> bool" where
  "less_Loglvl a b \<longleftrightarrow> lvl_value a < lvl_value b"

instance
proof
  fix a b :: Loglvl
  show "a \<le> b \<Longrightarrow> b \<le> a \<Longrightarrow> a = b"
    by (cases a; cases b) (simp_all add: less_eq_Loglvl_def)
qed (auto simp: less_eq_Loglvl_def less_Loglvl_def)

end

fun lvl_str :: "Loglvl \<Rightarrow> byte list" where
  "lvl_str LOG_ERROR = bytes_of ''Error''"
| "lvl_str LOG_INFO = bytes_of ''Info''"
| "lvl_str LOG_DEBUG = bytes_of ''Debug''"

definition DATE_LEN :: "64 word" where "DATE_LEN = 27"
definition ID_LEN :: "64 word" where "ID_LEN = 8"
definition FILENAME_LEN :: "64 word" where "FILENAME_LEN = 29"
definition LINE_LEN :: "64 word" where "LINE_LEN = 6"
definition TYPE_LEN :: "64 word" where "TYPE_LEN = 7"
definition BASIC_LINE_LEN :: "64 word" where
  "BASIC_LINE_LEN = DATE_LEN + ID_LEN + FILENAME_LEN + LINE_LEN + TYPE_LEN + 1"

section \<open>Building a line\<close>

text \<open>\<open>run\<close> and \<open>dest\<close> are positions in the buffer \<open>mem\<close>; \<open>src\<close> is what a pointer points at.\<close>

function FillSpace :: "cell list \<Rightarrow> nat \<Rightarrow> 64 word \<Rightarrow> (cell list \<times> nat) res" where
  "FillSpace mem run i =
     (if i \<noteq> 0
      then bindE (store_at mem run [Some 32]) (\<lambda>mem. FillSpace mem (run + 1) (i - 1))
      else Inr (mem, run))"
  by pat_completeness auto
termination by (relation "measure (\<lambda>(_, _, i). unat i)") (simp_all add: measure_unat)

fun copy_chars :: "cell list \<Rightarrow> nat \<Rightarrow> cell list \<Rightarrow> 64 word \<Rightarrow> (cell list \<times> nat \<times> 64 word) res" where
  "copy_chars mem dest [] i = Inl OutOfBounds"
| "copy_chars mem dest (None # src) i = Inl Indeterminate"
| "copy_chars mem dest (Some b # src) i =
     (if b \<noteq> 0
      then bindE (store_at mem dest [Some b]) (\<lambda>mem. copy_chars mem (dest + 1) src (i + 1))
      else Inr (mem, dest, i))"

lemma unat_inc:
  fixes i :: "64 word"
  assumes "unat i < unat (len :: 64 word)"
  shows "unat (i + 1) = unat i + 1"
proof -
  from assms unsigned_less [of len, where ?'a = nat] have "unat i + 1 < 2 ^ 64" by simp
  then show ?thesis by (simp add: unat_word_ariths)
qed

function pad_to :: "cell list \<Rightarrow> nat \<Rightarrow> 64 word \<Rightarrow> 64 word \<Rightarrow> (cell list \<times> nat \<times> 64 word) res" where
  "pad_to mem dest i len =
     (if i < len
      then bindE (store_at mem dest [Some 32]) (\<lambda>mem. pad_to mem (dest + 1) (i + 1) len)
      else Inr (mem, dest, i))"
  by pat_completeness auto
termination
proof (relation "measure (\<lambda>(_, _, i, len). unat len - unat i)")
  fix i len :: "64 word" and mem v :: "cell list" and dest :: nat
  assume "i < len"
  then have "unat i < unat len" by (simp add: word_less_nat_alt)
  moreover from this have "unat (i + 1) = unat i + 1" by (rule unat_inc)
  ultimately show "((v, dest + 1, i + 1, len), (mem, dest, i, len)) \<in> measure (\<lambda>(_, _, i, len). unat len - unat i)"
    by simp
qed simp

definition AddStr :: "cell list \<Rightarrow> nat \<Rightarrow> cell list \<Rightarrow> 64 word \<Rightarrow> (cell list \<times> nat) res" where
  "AddStr mem dest src len =
     bindE (copy_chars mem dest src 0) (\<lambda>(mem, dest, i).
     bindE (pad_to mem dest i len) (\<lambda>(mem, dest, i).
     FillSpace mem dest (len - i)))"

text \<open>The first newline of the time is replaced by a zero byte.\<close>

fun cut_newline :: "cell list \<Rightarrow> cell list res" where
  "cut_newline [] = Inl OutOfBounds"
| "cut_newline (None # cs) = Inl Indeterminate"
| "cut_newline (Some b # cs) =
     (if b = 0 then Inr (Some b # cs)
      else if b = 10 then Inr (Some 0 # cs)
      else bindE (cut_newline cs) (\<lambda>cs. Inr (Some b # cs)))"

definition EditLine ::
  "cell list \<Rightarrow> int \<Rightarrow> cell list \<Rightarrow> cell list \<Rightarrow> int \<Rightarrow> byte list \<Rightarrow> cell list res" where
  "EditLine ret pid time_str file_name line lvl =
     bindE (cut_newline time_str) (\<lambda>time_str.
     bindE (AddStr ret 0 time_str DATE_LEN) (\<lambda>(ret, run).
     bindE (AddStr ret run (map Some (dec_int pid) @ [Some 0]) ID_LEN) (\<lambda>(ret, run).
     bindE (AddStr ret run file_name FILENAME_LEN) (\<lambda>(ret, run).
     bindE (AddStr ret run (map Some (dec_int line) @ [Some 0]) LINE_LEN) (\<lambda>(ret, run).
     bindE (AddStr ret run (map Some lvl @ [Some 0]) TYPE_LEN) (\<lambda>(ret, run). Inr ret))))))"

fun find_slash :: "cell list \<Rightarrow> cell list res" where
  "find_slash [] = Inl OutOfBounds"
| "find_slash (None # cs) = Inl Indeterminate"
| "find_slash (Some b # cs) = (if b \<noteq> 0 \<and> b \<noteq> 47 then find_slash cs else Inr (Some b # cs))"

definition GetFileNameFromFullName :: "cell list \<Rightarrow> cell list res" where
  "GetFileNameFromFullName full_name =
     bindE (find_slash full_name) (\<lambda>file. bindE (deref file) (\<lambda>b.
     Inr (if b \<noteq> 0 then tl file else full_name)))"

section \<open>The logger\<close>

record Logger =
  log_name :: "byte list"
  log_file :: "byte list"
  m_lvl :: Loglvl

text \<open>
  The search for the first number whose file does not exist; it does not end when all files of
  \<open>size_t\<close> numbers exist.
\<close>

partial_function (option) next_free :: "(byte list \<Rightarrow> bool) \<Rightarrow> byte list \<Rightarrow> 64 word \<Rightarrow> 64 word option" where
  "next_free IsFileExists path num =
     (if IsFileExists (path @ dec (unat num)) then next_free IsFileExists path (num + 1) else Some num)"

definition TAB_LEN :: string where "TAB_LEN = ''      ''"

definition log_header :: "byte list" where
  "log_header = bytes_of (''Data & Time                '' @ ''ID'' @ TAB_LEN @
     ''Source File'' @ TAB_LEN @ TAB_LEN @ TAB_LEN @ ''Line'' @ ''  '' @ ''Type'' @ ''   '' @
     ''ThreadId'' @ TAB_LEN @ ''   '' @ ''Massage'') @ [10]"

definition Logger_ctor ::
  "(byte list \<Rightarrow> bool) \<Rightarrow> (byte list \<Rightarrow> bool) \<Rightarrow> byte list \<Rightarrow> Loglvl \<Rightarrow> bool \<Rightarrow> Logger res option" where
  "Logger_ctor IsFileExists is_open path lvl overwrite_file =
     map_option (\<lambda>num.
         let file_name = path @ dec (unat num) in
         if \<not> is_open file_name then Inl (Runtime_Error ''fail to open fail'')
         else Inr \<lparr>log_name = file_name, log_file = log_header, m_lvl = lvl\<rparr>)
       (if \<not> overwrite_file then next_free IsFileExists path 1 else Some 1)"

definition Logger_Write ::
  "int \<Rightarrow> cell list \<Rightarrow> byte list \<Rightarrow> Logger \<Rightarrow> Loglvl \<Rightarrow> byte list \<Rightarrow> cell list \<Rightarrow> int \<Rightarrow> Logger res" where
  "Logger_Write pid time_str th_str log lvl msg src_file line =
     (if lvl \<le> m_lvl log
      then
        let full_line = (replicate (unat BASIC_LINE_LEN) None)[unat BASIC_LINE_LEN - 1 := Some 0] in
        bindE (GetFileNameFromFullName src_file) (\<lambda>file.
        bindE (EditLine full_line pid time_str file line (lvl_str lvl)) (\<lambda>full_line.
        bindE (c_str full_line) (\<lambda>text.
        Inr (log\<lparr>log_file := log_file log @ text @ th_str @ bytes_of ''  '' @ msg @ [10]\<rparr>))))
      else Inr log)"

section \<open>Filling the columns\<close>

declare FillSpace.simps [simp del] pad_to.simps [simp del]

lemma overwrite_snoc:
  "i < length xs \<Longrightarrow> overwrite (overwrite xs i [y]) (Suc i) ys = overwrite xs i (y # ys)"
  using overwrite_append [of i xs "Suc i" "[y]" ys] by simp

lemma unat_dec:
  assumes "Suc n = unat (i :: 64 word)" shows "i \<noteq> 0" and "n = unat (i - 1)"
proof -
  show "i \<noteq> 0" using assms by auto
  then show "n = unat (i - 1)" using assms by (simp add: unat_minus_one)
qed

lemma FillSpace_ok:
  "run + unat i \<le> length mem \<Longrightarrow>
   FillSpace mem run i = Inr (overwrite mem run (replicate (unat i) (Some 32)), run + unat i)"
proof (induction "unat i" arbitrary: mem run i)
  case 0
  then have "i = 0" by (simp add: unat_eq_zero)
  then show ?case by (subst FillSpace.simps) simp
next
  case (Suc n)
  note i = unat_dec [OF Suc.hyps(2)]
  have "FillSpace (overwrite mem run [Some 32]) (Suc run) (i - 1) =
      Inr (overwrite (overwrite mem run [Some 32]) (Suc run) (replicate n (Some 32)), Suc run + n)"
    unfolding i(2) by (rule Suc.hyps(1) [OF i(2)]) (use Suc i in simp)
  with i(1) Suc.prems show ?case
    by (subst FillSpace.simps) (simp add: overwrite_snoc flip: Suc.hyps(2))
qed

lemma FillSpace_over:
  "length mem < run + unat i \<Longrightarrow> run \<le> length mem \<Longrightarrow> FillSpace mem run i = Inl OutOfBounds"
proof (induction "unat i" arbitrary: mem run i)
  case (Suc n)
  note i = unat_dec [OF Suc.hyps(2)]
  show ?case
  proof (cases "run < length mem")
    case True
    then have "FillSpace (overwrite mem run [Some 32]) (Suc run) (i - 1) = Inl OutOfBounds"
      by (intro Suc.hyps(1) [OF i(2)]) (use Suc i in simp_all)
    with i(1) True show ?thesis by (subst FillSpace.simps) simp
  qed (use i(1) Suc.prems in \<open>subst FillSpace.simps, simp add: store_at_def\<close>)
qed simp

lemma pad_to_ok:
  "dest + (unat len - unat i) \<le> length mem \<Longrightarrow>
   pad_to mem dest i len =
     Inr (overwrite mem dest (replicate (unat len - unat i) (Some 32)), dest + (unat len - unat i),
          if i < len then len else i)"
proof (induction "unat len - unat i" arbitrary: mem dest i)
  case 0
  then have "\<not> i < len" by (simp add: word_less_nat_alt)
  with 0 show ?case by (subst pad_to.simps) simp
next
  case (Suc n)
  then have lt: "unat i < unat len" by simp
  then have inc: "unat (i + 1) = unat i + 1" by (rule unat_inc)
  with Suc have n: "n = unat len - unat (i + 1)" by simp
  have last: "(if i + 1 < len then len else i + 1) = len"
    using inc lt by (auto simp: word_less_nat_alt word_unat_eq_iff)
  have "pad_to (overwrite mem dest [Some 32]) (Suc dest) (i + 1) len =
      Inr (overwrite (overwrite mem dest [Some 32]) (Suc dest) (replicate n (Some 32)), Suc dest + n, len)"
    using Suc.hyps(1) [OF n, of "Suc dest" "overwrite mem dest [Some 32]"] Suc n last by simp
  with lt Suc.prems show ?case
    by (subst pad_to.simps) (simp add: overwrite_snoc word_less_nat_alt flip: Suc.hyps(2))
qed

lemma copy_chars_ok:
  "0 \<notin> set s \<Longrightarrow> dest + length s \<le> length mem \<Longrightarrow>
   copy_chars mem dest (map Some s @ Some 0 # rest) i =
     Inr (overwrite mem dest (map Some s), dest + length s, i + of_nat (length s))"
  by (induction s arbitrary: mem dest i) (auto simp: overwrite_append)

lemma copy_chars_over:
  "0 \<notin> set s \<Longrightarrow> length mem < dest + length s \<Longrightarrow> dest \<le> length mem \<Longrightarrow>
   copy_chars mem dest (map Some s @ Some 0 # rest) i = Inl OutOfBounds"
proof (induction s arbitrary: mem dest i)
  case (Cons b s)
  then show ?case by (cases "dest < length mem") (auto simp: store_at_def)
qed simp

text \<open>A column: the text, filled up with spaces.\<close>

definition column :: "nat \<Rightarrow> byte list \<Rightarrow> byte list" where
  "column n s = s @ replicate (n - length s) 32"

lemma length_column [simp]: "length s \<le> n \<Longrightarrow> length (column n s) = n"
  by (simp add: column_def)

lemma AddStr_fits:
  assumes "0 \<notin> set s" and "length s \<le> unat len" and "dest + unat len \<le> length mem"
  shows "AddStr mem dest (map Some s @ Some 0 # rest) len =
    Inr (overwrite mem dest (map Some (column (unat len) s)), dest + unat len)"
proof -
  have u: "unat (of_nat (length s) :: 64 word) = length s"
    using assms(2) unsigned_less [of len, where ?'a = nat] by (simp add: unat_of_nat)
  have l: "(if of_nat (length s) < len then len else of_nat (length s)) = len"
    using assms(2) u by (auto simp: word_less_nat_alt word_unat_eq_iff)
  have f: "FillSpace m d 0 = Inr (m, d)" for m d by (subst FillSpace.simps) simp
  show ?thesis
    using assms by (simp add: AddStr_def copy_chars_ok pad_to_ok u l f overwrite_append column_def)
qed

lemma AddStr_too_long:
  assumes "0 \<notin> set s" and "unat len < length s" and "length mem < 2 ^ 63" and "unat len < 2 ^ 63"
    and "dest \<le> length mem"
  shows "AddStr mem dest (map Some s @ Some 0 # rest) len = Inl OutOfBounds"
proof (cases "dest + length s \<le> length mem")
  case True
  let ?i = "of_nat (length s) :: 64 word"
  have u: "unat ?i = length s" using True assms(3) by (simp add: unat_of_nat)
  then have p: "pad_to m d ?i len = Inr (m, d, ?i)" for m d
    using assms(2) by (subst pad_to.simps) (simp add: word_less_nat_alt)
  have "unat (len - ?i) = 2 ^ 64 + unat len - length s"
    using assms(2) u by (simp add: unat_sub_if_size word_size)
  then have "length mem < dest + length s + unat (len - ?i)" using assms(3) True by simp
  with True assms(1) show ?thesis
    by (simp add: AddStr_def copy_chars_ok p FillSpace_over)
qed (use assms in \<open>simp add: AddStr_def copy_chars_over\<close>)

lemma AddStr_eq:
  assumes "0 \<notin> set s" and "length mem < 2 ^ 63" and "unat len < 2 ^ 63" and "dest + unat len \<le> length mem"
  shows "AddStr mem dest (map Some s @ Some 0 # rest) len =
    (if length s \<le> unat len
     then Inr (overwrite mem dest (map Some (column (unat len) s)), dest + unat len)
     else Inl OutOfBounds)"
  using assms by (simp add: AddStr_fits AddStr_too_long)

lemma cut_newline_text:
  "10 \<notin> set s \<Longrightarrow> 0 \<notin> set s \<Longrightarrow> cut_newline (map Some s @ Some 10 # rest) = Inr (map Some s @ Some 0 # rest)"
  by (induction s) auto

section \<open>The whole line\<close>

definition base_name :: "byte list \<Rightarrow> byte list" where
  "base_name f = (if 47 \<in> set f then tl (dropWhile (\<lambda>b. b \<noteq> 47) f) else f)"

lemma set_dropWhile_D: "x \<in> set (dropWhile P xs) \<Longrightarrow> x \<in> set xs"
  by (induction xs) (auto split: if_splits)

lemma base_name_no_nul: "0 \<notin> set f \<Longrightarrow> 0 \<notin> set (base_name f)"
proof -
  assume f: "0 \<notin> set f"
  have "set (tl xs) \<subseteq> set xs" for xs :: "byte list" by (cases xs) auto
  then have "0 \<in> set (tl (dropWhile (\<lambda>b. b \<noteq> 47) f)) \<Longrightarrow> 0 \<in> set f" by (blast dest: set_dropWhile_D)
  with f show ?thesis by (auto simp: base_name_def)
qed

lemma find_slash_text:
  "0 \<notin> set f \<Longrightarrow> find_slash (map Some f @ Some 0 # rest) =
     Inr (map Some (dropWhile (\<lambda>b. b \<noteq> 47) f) @ Some 0 # rest)"
  by (induction f) auto

lemma GetFileName_text:
  assumes "0 \<notin> set f"
  shows "GetFileNameFromFullName (map Some f @ Some 0 # rest) = Inr (map Some (base_name f) @ Some 0 # rest)"
proof (cases "dropWhile (\<lambda>b. b \<noteq> 47) f")
  case Nil
  then have "47 \<notin> set f" by auto
  with Nil assms show ?thesis
    by (simp add: GetFileNameFromFullName_def find_slash_text base_name_def del: dropWhile_eq_Nil_conv)
next
  case (Cons b bs)
  then have "b = 47" using hd_dropWhile [of "\<lambda>b. b \<noteq> 47" f] by simp
  with Cons have "47 \<in> set f" by (metis list.set_intros(1) set_dropWhile_D)
  with Cons \<open>b = 47\<close> assms show ?thesis
    by (simp add: GetFileNameFromFullName_def find_slash_text base_name_def)
qed

definition log_fits :: "byte list \<Rightarrow> int \<Rightarrow> byte list \<Rightarrow> int \<Rightarrow> bool" where
  "log_fits time pid file line \<longleftrightarrow> length time \<le> 27 \<and> length (dec_int pid) \<le> 8 \<and>
     length file \<le> 29 \<and> length (dec_int line) \<le> 6"

definition log_columns :: "byte list \<Rightarrow> int \<Rightarrow> byte list \<Rightarrow> int \<Rightarrow> Loglvl \<Rightarrow> byte list" where
  "log_columns time pid file line lvl =
     column 27 time @ column 8 (dec_int pid) @ column 29 file @ column 6 (dec_int line) @ column 7 (lvl_str lvl)"

lemma lvl_str_text: "0 \<notin> set (lvl_str lvl)" "length (lvl_str lvl) \<le> 7"
  by (cases lvl; simp add: bytes_of_def)+

lemma column_no_nul: "0 \<notin> set s \<Longrightarrow> 0 \<notin> set (column n s)"
  by (auto simp: column_def)

lemma EditLine_text:
  assumes "length mem = 78" and "0 \<notin> set time" and "10 \<notin> set time" and "0 \<notin> set file"
  shows "EditLine mem pid (map Some time @ [Some 10, Some 0]) (map Some file @ [Some 0]) line (lvl_str lvl) =
    (if log_fits time pid file line
     then Inr (overwrite mem 0 (map Some (log_columns time pid file line lvl))) else Inl OutOfBounds)"
  using assms lvl_str_text [of lvl]
  by (simp add: EditLine_def cut_newline_text AddStr_eq log_fits_def log_columns_def overwrite_append
      DATE_LEN_def ID_LEN_def FILENAME_LEN_def LINE_LEN_def TYPE_LEN_def)

section \<open>Properties\<close>

text \<open>
  C39: \<open>Write\<close> appends one line of five columns, the name of the thread and the message, or nothing for
  a level the logger does not write; but when the file name behind the first slash is longer than its
  column (or the time, the process or the line is), the subtraction in \<open>AddStr\<close> wraps around and spaces
  are stored past the end of the buffer.
\<close>

theorem logger_write:
  assumes "0 \<notin> set time" and "10 \<notin> set time" and "0 \<notin> set src"
  shows "Logger_Write pid (map Some time @ [Some 10, Some 0]) th_str log lvl msg (map Some src @ [Some 0]) line =
    (if \<not> lvl \<le> m_lvl log then Inr log
     else if log_fits time pid (base_name src) line
     then Inr (log\<lparr>log_file := log_file log @ log_columns time pid (base_name src) line lvl @ th_str @
            bytes_of ''  '' @ msg @ [10]\<rparr>)
     else Inl OutOfBounds)"
proof (cases "lvl \<le> m_lvl log \<and> log_fits time pid (base_name src) line")
  case True
  let ?line = "log_columns time pid (base_name src) line lvl"
  let ?mem = "(replicate 78 None)[77 := Some 0] :: cell list"
  have "length ?line = 77"
    using True lvl_str_text [of lvl] by (simp add: log_columns_def log_fits_def)
  moreover have "drop 77 ?mem = [Some 0]" by (simp add: drop_update_swap)
  ultimately have "overwrite ?mem 0 (map Some ?line) = map Some ?line @ Some 0 # []"
    by (simp add: overwrite_def)
  moreover have "0 \<notin> set ?line"
    using assms base_name_no_nul [OF assms(3)] lvl_str_text [of lvl]
    by (simp add: log_columns_def column_no_nul)
  ultimately have "c_str (overwrite ?mem 0 (map Some ?line)) = Inr ?line"
    using c_str_text [of ?line "[]"] by simp
  with True assms base_name_no_nul [OF assms(3)] show ?thesis
    by (simp add: Logger_Write_def GetFileName_text EditLine_text BASIC_LINE_LEN_def DATE_LEN_def
        ID_LEN_def FILENAME_LEN_def LINE_LEN_def TYPE_LEN_def)
next
  case False
  with assms base_name_no_nul [OF assms(3)] show ?thesis
    by (auto simp: Logger_Write_def GetFileName_text EditLine_text BASIC_LINE_LEN_def DATE_LEN_def
        ID_LEN_def FILENAME_LEN_def LINE_LEN_def TYPE_LEN_def)
qed

text \<open>A logger at the level \<open>LOG_INFO\<close> whose source file has a short name, and one with a long path.\<close>

theorem logger_write_witness:
  "Logger_Write 7 (map Some [77, 111] @ [Some 10, Some 0]) [49] \<lparr>log_name = [108, 49], log_file = [], m_lvl = LOG_INFO\<rparr>
       LOG_ERROR [104, 105] (map Some [115, 47, 97] @ [Some 0]) 35 =
     Inr \<lparr>log_name = [108, 49],
       log_file = log_columns [77, 111] 7 [97] 35 LOG_ERROR @ [49, 32, 32, 104, 105, 10], m_lvl = LOG_INFO\<rparr> \<and>
   Logger_Write 7 (map Some [77, 111] @ [Some 10, Some 0]) [49] \<lparr>log_name = [108, 49], log_file = [], m_lvl = LOG_INFO\<rparr>
       LOG_ERROR [104, 105] (map Some (47 # replicate 30 97) @ [Some 0]) 35 = Inl OutOfBounds"
proof -
  have "log_fits [77, 111] 7 (base_name [115, 47, 97]) 35" and "\<not> log_fits [77, 111] 7 (base_name (47 # replicate 30 97)) 35"
    by code_simp+
  then show ?thesis
    using logger_write [of "[77, 111]" "[115, 47, 97]" 7 "[49]"
        "\<lparr>log_name = [108, 49], log_file = [], m_lvl = LOG_INFO\<rparr>" LOG_ERROR "[104, 105]" 35]
      logger_write [of "[77, 111]" "47 # replicate 30 97" 7 "[49]"
        "\<lparr>log_name = [108, 49], log_file = [], m_lvl = LOG_INFO\<rparr>" LOG_ERROR "[104, 105]" 35]
    by (simp add: less_eq_Loglvl_def base_name_def bytes_of_def)
qed

text \<open>
  A logger that must not overwrite opens the first number whose file does not exist, and the
  search ends when there is one; a logger that may overwrite always takes the number 1.
\<close>

theorem logger_file_number:
  assumes "1 \<le> k" and "k < 2 ^ 64" and "\<not> exists (path @ dec k)"
    and "\<forall>j. 1 \<le> j \<and> j < k \<longrightarrow> exists (path @ dec j)" and "is_open (path @ dec k)" and "is_open (path @ dec 1)"
  shows "Logger_ctor exists is_open path lvl False =
      Some (Inr \<lparr>log_name = path @ dec k, log_file = log_header, m_lvl = lvl\<rparr>) \<and>
    Logger_ctor exists is_open path lvl True =
      Some (Inr \<lparr>log_name = path @ dec 1, log_file = log_header, m_lvl = lvl\<rparr>)"
proof -
  have u: "unat (of_nat n :: 64 word) = n" if "n \<le> k" for n
    using that assms(2) by (simp add: unat_of_nat)
  have "next_free exists path (of_nat (k - d)) = Some (of_nat k)" if "d < k" for d
    using that
  proof (induction d)
    case 0
    then show ?case using assms(3) u [of k] by (subst next_free.simps) simp
  next
    case (Suc d)
    let ?j = "k - Suc d"
    have "exists (path @ dec ?j)" using assms(4) Suc.prems by simp
    moreover have "of_nat ?j + 1 = (of_nat (k - d) :: 64 word)"
      using Suc.prems by (metis Suc_diff_Suc Suc_lessD of_nat_Suc add.commute)
    ultimately show ?case using Suc u [of ?j] by (subst next_free.simps) simp
  qed
  from this [of "k - 1"] have "next_free exists path 1 = Some (of_nat k)" using assms(1) by simp
  with u [of k] assms(5,6) show ?thesis by (simp add: Logger_ctor_def)
qed

theorem logger_file_number_witness:
  "Logger_ctor (\<lambda>f. f \<in> {[108, 49], [108, 50]}) (\<lambda>_. True) [108] LOG_DEBUG False =
      Some (Inr \<lparr>log_name = [108] @ dec 3, log_file = log_header, m_lvl = LOG_DEBUG\<rparr>) \<and>
    Logger_ctor (\<lambda>f. f \<in> {[108, 49], [108, 50]}) (\<lambda>_. True) [108] LOG_DEBUG True =
      Some (Inr \<lparr>log_name = [108] @ dec 1, log_file = log_header, m_lvl = LOG_DEBUG\<rparr>)"
proof (rule logger_file_number)
  have "j = 1 \<or> j = 2" if "1 \<le> j \<and> j < 3" for j :: nat using that by auto
  moreover have "dec 1 = [49]" "dec 2 = [50]" by code_simp+
  ultimately show "\<forall>j. 1 \<le> j \<and> j < 3 \<longrightarrow> [108] @ dec j \<in> {[108, 49], [108, 50]}" by auto
  have "dec 3 = [51]" by code_simp
  then show "[108] @ dec 3 \<notin> {[108, 49], [108, 50]}" by simp
qed simp_all

end
