(* ===== verification/Dispatcher.thy ===== *)
theory Dispatcher
  imports GC_Prelude
begin

text \<open>
  \<open>Dispatcher\<close> and \<open>CallBack\<close> (dispatcher_callback.hpp): the subscription of observers to the messages
  of a subject.  Both sides point to each other and both may be destroyed first, so that the model is a
  store of live objects; reaching a destroyed one is the fault \<open>Dangling\<close>.  What the observers are told is
  recorded as a trace, and what they do is any function on the store: they may change the subscriptions while the
  loop over them is running.  \<open>Reentrant_Notify\<close> shows which observers the loop survives.
\<close>

section \<open>The list of callbacks\<close>

text \<open>\<open>Remove\<close>: the loop up to the first occurrence, which is swapped with the last element.\<close>

function remove_loop :: "'c \<Rightarrow> 'c list \<Rightarrow> nat \<Rightarrow> 'c list" where
  "remove_loop callback cs i =
     (if i < length cs
      then if cs ! i = callback
           then butlast ((cs[i := last cs])[length cs - 1 := cs ! i])
           else remove_loop callback cs (i + 1)
      else cs)"
  by pat_completeness auto
termination by (relation "measure (\<lambda>(_, cs, i). length cs - i)") auto

declare remove_loop.simps [simp del]

definition Dispatcher_Remove :: "'c \<Rightarrow> 'c list \<Rightarrow> 'c list" where
  "Dispatcher_Remove callback m_callbacks = remove_loop callback m_callbacks 0"

definition Dispatcher_Add :: "'c \<Rightarrow> 'c list \<Rightarrow> 'c list" where
  "Dispatcher_Add callback m_callbacks = m_callbacks @ [callback]"

text \<open>
  What the two classes promise each other about the subscriptions: as a multiset of subscribers, \<open>add\<close>
  adds one and \<open>remove\<close> takes one away, if it is there.
\<close>

locale subscriptions =
  fixes add :: "'c \<Rightarrow> 's \<Rightarrow> 's" and remove :: "'c \<Rightarrow> 's \<Rightarrow> 's" and members :: "'s \<Rightarrow> 'c multiset"
  assumes members_add: "members (add c s) = add_mset c (members s)"
    and members_remove: "members (remove c s) = members s - {#c#}"
begin

lemma remove_add: "members (remove c (add c s)) = members s"
  by (simp add: members_add members_remove)

lemma remove_other: "c \<in># members s \<Longrightarrow> c \<noteq> d \<Longrightarrow> c \<in># members (remove d s)"
  by (simp add: members_remove in_diff_count)

lemma remove_absent: "c \<notin># members s \<Longrightarrow> members (remove c s) = members s"
  by (simp add: members_remove)

lemma fold_add: "members (fold add cs s) = mset cs + members s"
  by (induction cs arbitrary: s) (simp_all add: members_add)

lemma fold_remove: "members (fold remove cs s) = members s - mset cs"
  by (induction cs arbitrary: s) (simp_all add: members_remove)

lemma remove_all: "members (fold remove cs s) = {#}" if "members s \<subseteq># mset cs"
  using that by (simp add: fold_remove Diff_eq_empty_iff_mset)

end

lemma mset_swap_last:
  assumes "i < length cs"
  shows "mset (butlast ((cs[i := last cs])[length cs - 1 := cs ! i])) = mset cs - {#cs ! i#}"
proof -
  let ?ds = "(cs[i := last cs])[length cs - 1 := cs ! i]"
  have ne: "cs \<noteq> []" using assms by auto
  have "mset ?ds = mset cs"
    using assms mset_swap [of "length cs - 1" cs i] by (simp add: last_conv_nth [OF ne])
  moreover have "last ?ds = cs ! i" using ne by (simp add: last_conv_nth)
  then have "mset ?ds = add_mset (cs ! i) (mset (butlast ?ds))"
    using ne append_butlast_last_id [of ?ds] by (metis add.right_neutral length_0_conv length_list_update
        mset.simps mset_append union_mset_add_mset_right)
  ultimately show ?thesis by simp
qed

lemma mset_remove_loop:
  "i \<le> length cs \<Longrightarrow> callback \<notin> set (take i cs) \<Longrightarrow>
   mset (remove_loop callback cs i) = mset cs - {#callback#}"
proof (induction callback cs i rule: remove_loop.induct)
  case (1 callback cs i)
  show ?case
  proof (cases "i < length cs")
    case True
    with 1 show ?thesis
      by (subst remove_loop.simps) (auto simp: mset_swap_last [unfolded One_nat_def] take_Suc_conv_app_nth)
  next
    case False
    with 1(3) have "callback \<notin># mset cs" using 1(2) by simp
    with False show ?thesis by (subst remove_loop.simps) (simp add: diff_single_trivial)
  qed
qed

interpretation subs: subscriptions Dispatcher_Add Dispatcher_Remove mset
  by unfold_locales (simp_all add: Dispatcher_Add_def Dispatcher_Remove_def mset_remove_loop)

lemma set_Dispatcher_Add [simp]: "set (Dispatcher_Add c cs) = insert c (set cs)"
  by (simp add: Dispatcher_Add_def)

lemma distinct_Dispatcher_Add [simp]: "distinct (Dispatcher_Add c cs) \<longleftrightarrow> distinct cs \<and> c \<notin> set cs"
  by (auto simp: Dispatcher_Add_def)

lemma distinct_Dispatcher_Remove:
  assumes "distinct cs"
  shows "distinct (Dispatcher_Remove c cs)" and "set (Dispatcher_Remove c cs) = set cs - {c}"
proof -
  have m: "mset (Dispatcher_Remove c cs) = mset (remove1 c cs)"
    by (simp add: subs.members_remove)
  show "distinct (Dispatcher_Remove c cs)"
    using m assms by (metis distinct_remove1 mset_eq_imp_distinct_iff)
  show "set (Dispatcher_Remove c cs) = set cs - {c}"
    using m assms by (metis mset_eq_setD set_remove1_eq)
qed

lemma length_Dispatcher_Remove:
  "length (Dispatcher_Remove c cs) = (if c \<in> set cs then length cs - 1 else length cs)"
proof -
  have "length (Dispatcher_Remove c cs) = size (mset cs - {#c#})"
    by (simp flip: subs.members_remove)
  then show ?thesis by (simp add: size_Diff_singleton_if)
qed

lemma Dispatcher_Remove_fits [intro]: "length cs \<le> n \<Longrightarrow> length (Dispatcher_Remove c cs) \<le> n"
  by (auto simp: length_Dispatcher_Remove)

section \<open>Subjects and observers\<close>

text \<open>
  The live dispatchers and callbacks by their addresses.  A callback has its \<open>m_dispatcher\<close> and whether
  it was given a \<open>stop_method\<close>; the \<open>std::vector\<close> of a dispatcher has a capacity and a number for its
  buffer, which changes when it grows out of its capacity; \<open>bus_growth\<close> is the capacity that the library
  chooses then, at least one more than the old one.  \<open>trace\<close> is what the observers were told.
\<close>

record CallBack =
  m_dispatcher :: "nat option"
  m_stop_method :: bool

datatype 'm told = Acted nat 'm | Stopped nat

record 'm bus =
  dispatchers :: "nat \<Rightarrow> nat list option"
  bus_capacity :: "nat \<Rightarrow> nat"
  bus_buffer :: "nat \<Rightarrow> nat"
  bus_growth :: "nat \<Rightarrow> nat"
  callbacks :: "nat \<Rightarrow> CallBack option"
  trace :: "'m told list"

definition empty_bus :: "'m bus" where
  "empty_bus = \<lparr>dispatchers = (\<lambda>_. None), bus_capacity = (\<lambda>_. 0), bus_buffer = (\<lambda>_. 0), bus_growth = (\<lambda>n. 2 * n),
     callbacks = (\<lambda>_. None), trace = []\<rparr>"

text \<open>What the methods of the observers do: the one for a message and the one for the end of the dispatcher.\<close>

record 'm observers =
  on_action :: "nat \<Rightarrow> 'm \<Rightarrow> 'm bus \<Rightarrow> 'm bus res"
  on_stop :: "nat \<Rightarrow> 'm bus \<Rightarrow> 'm bus res"

text \<open>Observers that have nothing to do with the store.\<close>

definition passive_observers :: "'m observers" where
  "passive_observers = \<lparr>on_action = (\<lambda>c msg s. Inr s), on_stop = (\<lambda>c s. Inr s)\<rparr>"

definition live :: "'b option \<Rightarrow> 'b res" where
  "live x = (case x of None \<Rightarrow> Inl Dangling | Some v \<Rightarrow> Inr v)"

definition new_Dispatcher :: "nat \<Rightarrow> 'm bus \<Rightarrow> 'm bus" where
  "new_Dispatcher d s = s\<lparr>dispatchers := (dispatchers s)(d \<mapsto> []), bus_capacity := (bus_capacity s)(d := 0),
     bus_buffer := (bus_buffer s)(d := Suc (bus_buffer s d))\<rparr>"

text \<open>\<open>push_back\<close> on the vector of a dispatcher.\<close>

definition bus_Add :: "nat \<Rightarrow> nat \<Rightarrow> nat list \<Rightarrow> 'm bus \<Rightarrow> 'm bus" where
  "bus_Add d c cs s =
     (let s' = s\<lparr>dispatchers := (dispatchers s)(d \<mapsto> Dispatcher_Add c cs)\<rparr>; cap = bus_capacity s d
      in if length cs < cap then s'
         else s'\<lparr>bus_capacity := (bus_capacity s)(d := max (Suc cap) (bus_growth s cap)),
                 bus_buffer := (bus_buffer s)(d := Suc (bus_buffer s d))\<rparr>)"

definition CallBack_ctor :: "nat \<Rightarrow> nat option \<Rightarrow> bool \<Rightarrow> 'm bus \<Rightarrow> 'm bus res" where
  "CallBack_ctor c dispatcher stop_method s =
     (let s' = s\<lparr>callbacks := (callbacks s)(c \<mapsto> \<lparr>m_dispatcher = dispatcher, m_stop_method = stop_method\<rparr>)\<rparr>
      in case dispatcher of
           None \<Rightarrow> Inr s'
         | Some d \<Rightarrow> bindE (live (dispatchers s' d)) (\<lambda>cs. Inr (bus_Add d c cs s')))"

definition CallBack_dtor :: "nat \<Rightarrow> 'm bus \<Rightarrow> 'm bus res" where
  "CallBack_dtor c s =
     bindE (live (callbacks s c)) (\<lambda>cb.
     let s' = s\<lparr>callbacks := (callbacks s)(c := None)\<rparr>
     in case m_dispatcher cb of
          None \<Rightarrow> Inr s'
        | Some d \<Rightarrow> bindE (live (dispatchers s' d)) (\<lambda>cs.
            Inr (s'\<lparr>dispatchers := (dispatchers s')(d \<mapsto> Dispatcher_Remove c cs)\<rparr>)))"

definition CallBack_Notify :: "'m observers \<Rightarrow> 'm \<Rightarrow> nat \<Rightarrow> 'm bus \<Rightarrow> 'm bus res" where
  "CallBack_Notify ob msg c s =
     bindE (live (callbacks s c)) (\<lambda>_. on_action ob c msg (s\<lparr>trace := trace s @ [Acted c msg]\<rparr>))"

definition CallBack_OutOfService :: "'m observers \<Rightarrow> nat \<Rightarrow> 'm bus \<Rightarrow> 'm bus res" where
  "CallBack_OutOfService ob c s =
     bindE (live (callbacks s c)) (\<lambda>cb.
     let s' = s\<lparr>callbacks := (callbacks s)(c \<mapsto> cb\<lparr>m_dispatcher := None\<rparr>)\<rparr>
     in if m_stop_method cb then on_stop ob c (s'\<lparr>trace := trace s' @ [Stopped c]\<rparr>) else Inr s')"

text \<open>
  The range-for over the callbacks of a dispatcher takes \<open>begin()\<close> and \<open>end()\<close> once: \<open>k\<close> elements are left
  between its iterator, at the position \<open>i\<close> of the buffer \<open>b\<close>, and the old end.
\<close>

fun range_for :: "(nat \<Rightarrow> 'm bus \<Rightarrow> 'm bus res) \<Rightarrow> nat \<Rightarrow> nat \<Rightarrow> nat \<Rightarrow> nat \<Rightarrow> 'm bus \<Rightarrow> 'm bus res" where
  "range_for f d b 0 i s = Inr s"
| "range_for f d b (Suc k) i s =
     bindE (live (dispatchers s d)) (\<lambda>cs.
     if bus_buffer s d \<noteq> b then Inl Dangling
     else if length cs \<le> i then Inl OutOfBounds
     else bindE (f (cs ! i) s) (range_for f d b k (Suc i)))"

definition Dispatcher_NotifyAll :: "'m observers \<Rightarrow> nat \<Rightarrow> 'm \<Rightarrow> 'm bus \<Rightarrow> 'm bus res" where
  "Dispatcher_NotifyAll ob d msg s =
     bindE (live (dispatchers s d)) (\<lambda>cs. range_for (CallBack_Notify ob msg) d (bus_buffer s d) (length cs) 0 s)"

definition Dispatcher_dtor :: "'m observers \<Rightarrow> nat \<Rightarrow> 'm bus \<Rightarrow> 'm bus res" where
  "Dispatcher_dtor ob d s =
     bindE (live (dispatchers s d)) (\<lambda>cs.
     bindE (range_for (CallBack_OutOfService ob) d (bus_buffer s d) (length cs) 0 s) (\<lambda>s.
     bindE (live (dispatchers s d)) (\<lambda>_.
     Inr (s\<lparr>dispatchers := (dispatchers s)(d := None)\<rparr>))))"

text \<open>
  The well-formed states: each live dispatcher lists, once each, exactly the live callbacks that point
  to it, no callback points to a destroyed dispatcher, and the lists fit their buffers.
\<close>

definition wf_bus :: "'m bus \<Rightarrow> bool" where
  "wf_bus s \<longleftrightarrow>
     (\<forall>d cs. dispatchers s d = Some cs \<longrightarrow> distinct cs \<and>
        set cs = {c. \<exists>cb. callbacks s c = Some cb \<and> m_dispatcher cb = Some d}) \<and>
     (\<forall>c cb d. callbacks s c = Some cb \<and> m_dispatcher cb = Some d \<longrightarrow> dispatchers s d \<noteq> None) \<and>
     (\<forall>d cs. dispatchers s d = Some cs \<longrightarrow> length cs \<le> bus_capacity s d)"

text \<open>
  The observers of a dispatcher are tame for a message when their methods keep the state well-formed and leave
  the vector of this dispatcher alone; they may use the rest of the store, send messages through other
  dispatchers, and create and destroy callbacks there.  Their methods for the end of the dispatcher are quiet
  when they do not use the store.
\<close>

definition tame :: "'m observers \<Rightarrow> nat \<Rightarrow> nat list \<Rightarrow> 'm \<Rightarrow> bool" where
  "tame ob d cs msg \<longleftrightarrow> (\<forall>c \<in> set cs. \<forall>s. wf_bus s \<and> dispatchers s d = Some cs \<longrightarrow>
     (\<exists>s'. on_action ob c msg s = Inr s' \<and> wf_bus s' \<and> dispatchers s' d = Some cs \<and> bus_buffer s' d = bus_buffer s d))"

definition quiet_stops :: "'m observers \<Rightarrow> nat list \<Rightarrow> bool" where
  "quiet_stops ob cs \<longleftrightarrow> (\<forall>c \<in> set cs. \<forall>s. \<exists>t. on_stop ob c s = Inr (s\<lparr>trace := trace s @ t\<rparr>))"

text \<open>
  The steps a program may take: it constructs objects at free addresses and gives a callback no
  dispatcher or a live one, it uses and destroys live objects only, and its observers are tame.
\<close>

datatype 'm bus_op =
  NewDispatcher nat | NewCallBack nat "nat option" bool | DelCallBack nat | NotifyAll nat 'm | DelDispatcher nat

fun allowed :: "'m observers \<Rightarrow> 'm bus \<Rightarrow> 'm bus_op \<Rightarrow> bool" where
  "allowed ob s (NewDispatcher d) \<longleftrightarrow> dispatchers s d = None"
| "allowed ob s (NewCallBack c None stop) \<longleftrightarrow> callbacks s c = None"
| "allowed ob s (NewCallBack c (Some d) stop) \<longleftrightarrow> callbacks s c = None \<and> dispatchers s d \<noteq> None"
| "allowed ob s (DelCallBack c) \<longleftrightarrow> callbacks s c \<noteq> None"
| "allowed ob s (NotifyAll d msg) \<longleftrightarrow> (\<exists>cs. dispatchers s d = Some cs \<and> tame ob d cs msg)"
| "allowed ob s (DelDispatcher d) \<longleftrightarrow> (\<exists>cs. dispatchers s d = Some cs \<and> quiet_stops ob cs)"

fun bus_exec :: "'m observers \<Rightarrow> 'm bus_op \<Rightarrow> 'm bus \<Rightarrow> 'm bus res" where
  "bus_exec ob (NewDispatcher d) s = Inr (new_Dispatcher d s)"
| "bus_exec ob (NewCallBack c d stop) s = CallBack_ctor c d stop s"
| "bus_exec ob (DelCallBack c) s = CallBack_dtor c s"
| "bus_exec ob (NotifyAll d msg) s = Dispatcher_NotifyAll ob d msg s"
| "bus_exec ob (DelDispatcher d) s = Dispatcher_dtor ob d s"

inductive bus_reachable :: "'m observers \<Rightarrow> 'm bus \<Rightarrow> bool" for ob where
  init: "bus_reachable ob (empty_bus\<lparr>bus_growth := g\<rparr>)"
| step: "bus_reachable ob s \<Longrightarrow> allowed ob s p \<Longrightarrow> bus_exec ob p s = Inr s' \<Longrightarrow> bus_reachable ob s'"

lemma live_simps [simp]: "live (Some v) = Inr v" "live None = Inl Dangling"
  by (simp_all add: live_def)

lemma wf_busD:
  assumes "wf_bus s"
  shows "dispatchers s d = Some cs \<Longrightarrow> distinct cs"
    and "dispatchers s d = Some cs \<Longrightarrow> c \<in> set cs \<longleftrightarrow> (\<exists>cb. callbacks s c = Some cb \<and> m_dispatcher cb = Some d)"
    and "callbacks s c = Some cb \<Longrightarrow> m_dispatcher cb = Some d \<Longrightarrow> \<exists>cs. dispatchers s d = Some cs"
    and "dispatchers s d = Some cs \<Longrightarrow> length cs \<le> bus_capacity s d"
  using assms by (auto simp: wf_bus_def)

lemma wf_busI:
  assumes "\<And>d cs. dispatchers s d = Some cs \<Longrightarrow> distinct cs"
    and "\<And>d cs c. dispatchers s d = Some cs \<Longrightarrow>
      c \<in> set cs \<longleftrightarrow> (\<exists>cb. callbacks s c = Some cb \<and> m_dispatcher cb = Some d)"
    and "\<And>c cb d. callbacks s c = Some cb \<Longrightarrow> m_dispatcher cb = Some d \<Longrightarrow> dispatchers s d \<noteq> None"
    and "\<And>d cs. dispatchers s d = Some cs \<Longrightarrow> length cs \<le> bus_capacity s d"
  shows "wf_bus s"
  using assms unfolding wf_bus_def by (intro conjI allI impI) auto

lemma bus_Add_simps [simp]:
  "dispatchers (bus_Add d c cs s) = (dispatchers s)(d \<mapsto> Dispatcher_Add c cs)"
  "callbacks (bus_Add d c cs s) = callbacks s" "trace (bus_Add d c cs s) = trace s"
  "bus_growth (bus_Add d c cs s) = bus_growth s"
  "d' \<noteq> d \<Longrightarrow> bus_capacity (bus_Add d c cs s) d' = bus_capacity s d'"
  by (simp_all add: bus_Add_def Let_def)

lemma bus_Add_fits: "length cs \<le> bus_capacity s d \<Longrightarrow> Suc (length cs) \<le> bus_capacity (bus_Add d c cs s) d"
  by (auto simp: bus_Add_def Let_def)

lemma tameD:
  assumes "tame ob d cs msg" and "c \<in> set cs" and "wf_bus s" and "dispatchers s d = Some cs"
  shows "\<exists>s'. on_action ob c msg s = Inr s' \<and> wf_bus s' \<and> dispatchers s' d = Some cs \<and> bus_buffer s' d = bus_buffer s d"
  using assms unfolding tame_def by blast

lemma wf_bus_trace [simp]: "wf_bus (s\<lparr>trace := t\<rparr>) \<longleftrightarrow> wf_bus s"
  by (simp add: wf_bus_def)

text \<open>The loop over a vector that the body leaves alone.\<close>

lemma range_for_keeps:
  assumes step: "\<And>c s. c \<in> set cs \<Longrightarrow> Q s \<Longrightarrow> \<exists>s'. f c s = Inr s' \<and> Q s'"
    and Q: "\<And>s. Q s \<Longrightarrow> dispatchers s d = Some cs \<and> bus_buffer s d = b"
  shows "Q s \<Longrightarrow> i + k = length cs \<Longrightarrow> \<exists>s'. range_for f d b k i s = Inr s' \<and> Q s'"
proof (induction k arbitrary: i s)
  case (Suc k)
  then obtain s' where "f (cs ! i) s = Inr s'" "Q s'" using step [of "cs ! i" s] by auto
  with Suc Q [of s] show ?case by auto
qed simp

lemma NotifyAll_tame:
  assumes "wf_bus s" and "dispatchers s d = Some cs" and "tame ob d cs msg"
  shows "\<exists>s'. Dispatcher_NotifyAll ob d msg s = Inr s' \<and> wf_bus s'"
proof -
  let ?Q = "\<lambda>s'. wf_bus s' \<and> dispatchers s' d = Some cs \<and> bus_buffer s' d = bus_buffer s d"
  have "\<exists>s'. CallBack_Notify ob msg c s1 = Inr s' \<and> ?Q s'" if "c \<in> set cs" "?Q s1" for c s1
  proof -
    from that have "\<exists>cb. callbacks s1 c = Some cb" using wf_busD(2) [of s1 d cs c] by auto
    moreover from that have "\<exists>s2. on_action ob c msg (s1\<lparr>trace := trace s1 @ [Acted c msg]\<rparr>) = Inr s2 \<and> ?Q s2"
      using tameD [OF assms(3) that(1), of "s1\<lparr>trace := trace s1 @ [Acted c msg]\<rparr>"] by auto
    ultimately show ?thesis by (auto simp: CallBack_Notify_def)
  qed
  then have "\<exists>s'. range_for (CallBack_Notify ob msg) d (bus_buffer s d) (length cs) 0 s = Inr s' \<and> ?Q s'"
    by (rule range_for_keeps [where Q = ?Q and cs = cs]) (use assms(1,2) in auto)
  with assms(2) show ?thesis by (auto simp: Dispatcher_NotifyAll_def)
qed

lemma notify_each:
  "dispatchers s d = Some cs \<Longrightarrow> bus_buffer s d = b \<Longrightarrow> \<forall>c \<in> set cs. callbacks s c \<noteq> None \<Longrightarrow> i + k = length cs \<Longrightarrow>
   range_for (CallBack_Notify passive_observers msg) d b k i s =
     Inr (s\<lparr>trace := trace s @ map (\<lambda>c. Acted c msg) (drop i cs)\<rparr>)"
proof (induction k arbitrary: i s)
  case (Suc k)
  have i: "i < length cs" using Suc.prems(4) by simp
  then have "cs ! i \<in> set cs" by simp
  with Suc.prems(3) obtain cb where "callbacks s (cs ! i) = Some cb" by blast
  with i Suc.prems have "range_for (CallBack_Notify passive_observers msg) d b (Suc k) i s =
      range_for (CallBack_Notify passive_observers msg) d b k (Suc i) (s\<lparr>trace := trace s @ [Acted (cs ! i) msg]\<rparr>)"
    by (simp add: CallBack_Notify_def passive_observers_def)
  also have "\<dots> = Inr (s\<lparr>trace := trace s @ map (\<lambda>c. Acted c msg) (drop i cs)\<rparr>)"
    using Suc.IH [of "s\<lparr>trace := trace s @ [Acted (cs ! i) msg]\<rparr>" "Suc i"] Suc.prems i
    by (simp add: Cons_nth_drop_Suc [symmetric])
  finally show ?case .
qed simp

lemma NotifyAll_wf:
  assumes "wf_bus s" and "dispatchers s d = Some cs"
  shows "Dispatcher_NotifyAll passive_observers d msg s = Inr (s\<lparr>trace := trace s @ map (\<lambda>c. Acted c msg) cs\<rparr>)"
proof -
  have "\<forall>c \<in> set cs. callbacks s c \<noteq> None" using wf_busD(2) [OF assms] by auto
  with assms(2) show ?thesis by (simp add: Dispatcher_NotifyAll_def notify_each)
qed

text \<open>\<open>OutOfService\<close> of several callbacks: their dispatcher pointers are cleared and nothing else.\<close>

lemma out_of_service_each:
  "dispatchers s d = Some cs \<Longrightarrow> bus_buffer s d = b \<Longrightarrow> distinct cs \<Longrightarrow> \<forall>c \<in> set cs. callbacks s c \<noteq> None \<Longrightarrow>
   quiet_stops ob cs \<Longrightarrow> i + k = length cs \<Longrightarrow>
   \<exists>t. range_for (CallBack_OutOfService ob) d b k i s = Inr (s\<lparr>trace := trace s @ t,
     callbacks := (\<lambda>c. if c \<in> set (drop i cs) then map_option (m_dispatcher_update (\<lambda>_. None)) (callbacks s c) else callbacks s c)\<rparr>)"
proof (induction k arbitrary: i s)
  case 0
  then show ?case by (cases s) (auto intro!: exI [of _ "[]"])
next
  case (Suc k)
  let ?c = "cs ! i"
  have i: "i < length cs" using Suc.prems(6) by simp
  then have "?c \<in> set cs" by simp
  with Suc.prems(4) obtain cb where cb: "callbacks s ?c = Some cb" by blast
  let ?s1 = "s\<lparr>callbacks := (callbacks s)(?c \<mapsto> cb\<lparr>m_dispatcher := None\<rparr>)\<rparr>"
  obtain t1 where t1: "on_stop ob ?c (?s1\<lparr>trace := trace ?s1 @ [Stopped ?c]\<rparr>) =
      Inr (?s1\<lparr>trace := trace s @ Stopped ?c # t1\<rparr>)"
    using Suc.prems(5) \<open>?c \<in> set cs\<close>
    by (auto simp: quiet_stops_def dest!: bspec [of _ _ ?c] spec [of _ "?s1\<lparr>trace := trace ?s1 @ [Stopped ?c]\<rparr>"])
  let ?s' = "?s1\<lparr>trace := trace s @ (if m_stop_method cb then Stopped ?c # t1 else [])\<rparr>"
  have first: "range_for (CallBack_OutOfService ob) d b (Suc k) i s = range_for (CallBack_OutOfService ob) d b k (Suc i) ?s'"
    using cb t1 i Suc.prems(1,2) by (simp add: CallBack_OutOfService_def)
  have "\<forall>c \<in> set cs. callbacks ?s' c \<noteq> None" using Suc.prems(4) by auto
  with Suc.IH [of ?s' "Suc i"] Suc.prems obtain t where
    t: "range_for (CallBack_OutOfService ob) d b k (Suc i) ?s' = Inr (?s'\<lparr>trace := trace ?s' @ t,
     callbacks := (\<lambda>c. if c \<in> set (drop (Suc i) cs) then map_option (m_dispatcher_update (\<lambda>_. None)) (callbacks ?s' c)
       else callbacks ?s' c)\<rparr>)" by auto
  have drop: "drop i cs = ?c # drop (Suc i) cs" using i by (simp add: Cons_nth_drop_Suc)
  moreover have "?c \<notin> set (drop (Suc i) cs)"
    using Suc.prems(3) distinct_drop [of cs i] drop by simp
  ultimately have "(\<lambda>c'. if c' \<in> set (drop (Suc i) cs) then map_option (m_dispatcher_update (\<lambda>_. None)) (callbacks ?s' c')
       else callbacks ?s' c') =
      (\<lambda>c'. if c' \<in> set (drop i cs) then map_option (m_dispatcher_update (\<lambda>_. None)) (callbacks s c') else callbacks s c')"
    using cb by auto
  with first t show ?case by auto
qed

lemma new_Dispatcher_wf:
  assumes "wf_bus s" and "dispatchers s d = None"
  shows "wf_bus (new_Dispatcher d s)"
proof -
  have "\<nexists>c cb. callbacks s c = Some cb \<and> m_dispatcher cb = Some d"
    using wf_busD(3) [OF assms(1)] assms(2) by fastforce
  then show ?thesis
    using wf_busD [OF assms(1)] by (intro wf_busI) (auto simp: new_Dispatcher_def split: if_splits)
qed

lemma CallBack_ctor_wf:
  assumes "wf_bus s" and "callbacks s c = None" and "\<forall>d. dispatcher = Some d \<longrightarrow> dispatchers s d \<noteq> None"
  shows "\<exists>s'. CallBack_ctor c dispatcher stop s = Inr s' \<and> wf_bus s'"
proof (cases dispatcher)
  case None
  with assms wf_busD [OF assms(1)] show ?thesis
    by (auto simp: CallBack_ctor_def intro!: wf_busI split: if_splits)
next
  case (Some d)
  with assms(3) obtain cs where cs: "dispatchers s d = Some cs" by auto
  moreover have new: "c \<notin> set cs" using wf_busD(2) [OF assms(1) cs] assms(2) by auto
  let ?s = "s\<lparr>callbacks := (callbacks s)(c \<mapsto> \<lparr>m_dispatcher = Some d, m_stop_method = stop\<rparr>)\<rparr>"
  have "length cs' \<le> bus_capacity (bus_Add d c cs ?s) d'" if "dispatchers (bus_Add d c cs ?s) d' = Some cs'" for d' cs'
    using that wf_busD(4) [OF assms(1)] cs bus_Add_fits [of cs ?s d c]
    by (cases "d' = d") (auto simp: Dispatcher_Add_def)
  then have "wf_bus (bus_Add d c cs ?s)"
    using assms(2) new cs wf_busD(1-3) [OF assms(1)] by (intro wf_busI) (auto split: if_splits)
  ultimately show ?thesis using Some by (simp add: CallBack_ctor_def)
qed

lemma CallBack_dtor_wf:
  assumes "wf_bus s" and "callbacks s c = Some cb"
  shows "\<exists>s'. CallBack_dtor c s = Inr s' \<and> wf_bus s'"
proof (cases "m_dispatcher cb")
  case None
  with assms wf_busD [OF assms(1)] show ?thesis
    by (auto simp: CallBack_dtor_def intro!: wf_busI split: if_splits)
next
  case (Some d)
  then obtain cs where cs: "dispatchers s d = Some cs" using wf_busD(3) [OF assms] by auto
  then have "distinct cs" by (rule wf_busD(1) [OF assms(1)])
  note rm = distinct_Dispatcher_Remove [OF this, of c] Dispatcher_Remove_fits [OF wf_busD(4) [OF assms(1) cs], of c]
  show ?thesis
    using assms(2) Some cs rm wf_busD [OF assms(1)]
    by (auto simp: CallBack_dtor_def intro!: wf_busI split: if_splits)
qed

lemma Dispatcher_dtor_wf:
  assumes "wf_bus s" and cs: "dispatchers s d = Some cs" and "quiet_stops ob cs"
  shows "\<exists>s'. Dispatcher_dtor ob d s = Inr s' \<and> wf_bus s'"
proof -
  have "\<forall>c \<in> set cs. callbacks s c \<noteq> None" using wf_busD(2) [OF assms(1,2)] by auto
  from out_of_service_each [OF cs refl wf_busD(1) [OF assms(1,2)] this assms(3), of 0 "length cs"] obtain t where
    t: "range_for (CallBack_OutOfService ob) d (bus_buffer s d) (length cs) 0 s = Inr (s\<lparr>trace := trace s @ t,
     callbacks := (\<lambda>c. if c \<in> set cs then map_option (m_dispatcher_update (\<lambda>_. None)) (callbacks s c) else callbacks s c)\<rparr>)"
    by auto
  have no: "\<And>c cb. callbacks s c = Some cb \<Longrightarrow> c \<notin> set cs \<Longrightarrow> m_dispatcher cb \<noteq> Some d"
    using wf_busD(2) [OF assms(1,2)] by auto
  have "\<And>d' cs' c. dispatchers s d' = Some cs' \<Longrightarrow> d' \<noteq> d \<Longrightarrow> c \<in> set cs' \<Longrightarrow> c \<notin> set cs"
    using wf_busD(2) [OF assms(1)] cs by fastforce
  with t cs no wf_busD [OF assms(1)] show ?thesis
    by (auto simp: Dispatcher_dtor_def intro!: wf_busI split: if_splits)
qed

lemma bus_progress:
  assumes "wf_bus s" and "allowed ob s p" shows "\<exists>s'. bus_exec ob p s = Inr s' \<and> wf_bus s'"
  using assms
  by (cases "(ob, s, p)" rule: allowed.cases)
     (auto simp: new_Dispatcher_wf CallBack_ctor_wf CallBack_dtor_wf Dispatcher_dtor_wf NotifyAll_tame)

lemma bus_preservation: "bus_reachable ob s \<Longrightarrow> wf_bus s"
proof (induction rule: bus_reachable.induct)
  case (init g)
  then show ?case by (auto intro!: wf_busI simp: empty_bus_def)
next
  case (step s p s')
  then show ?case using bus_progress by fastforce
qed

section \<open>A dispatcher with one callback\<close>

text \<open>A dispatcher 1 with a callback 5, told about the end of the dispatcher or not.\<close>

definition ex_bus :: "bool \<Rightarrow> 'm bus" where
  "ex_bus told_end = \<lparr>dispatchers = [1 \<mapsto> [5]], bus_capacity = (\<lambda>d. if d = 1 then 1 else 0),
     bus_buffer = (\<lambda>d. if d = 1 then 2 else 0), bus_growth = (\<lambda>n. 2 * n),
     callbacks = [5 \<mapsto> \<lparr>m_dispatcher = Some 1, m_stop_method = told_end\<rparr>], trace = []\<rparr>"

lemma empty_bus_reachable: "bus_reachable ob empty_bus"
  using bus_reachable.init [of ob "\<lambda>n. 2 * n"] by (simp add: empty_bus_def)

lemma ex_bus_reachable: "bus_reachable ob (ex_bus told_end)"
proof -
  have 1: "bus_reachable ob (new_Dispatcher 1 empty_bus)"
    by (rule bus_reachable.step [OF empty_bus_reachable, of _ "NewDispatcher 1"]) (simp_all add: empty_bus_def)
  have 2: "allowed ob (new_Dispatcher 1 empty_bus) (NewCallBack 5 (Some 1) told_end)"
    by (simp add: new_Dispatcher_def empty_bus_def)
  show ?thesis
    by (rule bus_reachable.step [OF 1 2])
       (simp add: CallBack_ctor_def new_Dispatcher_def empty_bus_def ex_bus_def Dispatcher_Add_def bus_Add_def fun_eq_iff)
qed

lemma passive_observers_tame [simp]: "tame passive_observers d cs msg"
  by (auto simp: tame_def passive_observers_def)

lemma passive_observers_quiet [simp]: "quiet_stops (passive_observers :: 'm observers) cs"
proof -
  have "\<exists>t. on_stop passive_observers c s = Inr (s\<lparr>trace := trace s @ t\<rparr>)" for c and s :: "'m bus"
    by (rule exI [of _ "[]"]) (simp add: passive_observers_def)
  then show ?thesis by (simp add: quiet_stops_def)
qed

section \<open>Properties\<close>

text \<open>
  A message reaches each observer that is subscribed at that time, once, and nobody else, when the observers do not
  use the store; the order is not specified, since \<open>Remove\<close> swaps the last observer into the gap.
\<close>

theorem notify_reaches_each_subscriber_once:
  assumes "bus_reachable passive_observers s" and "dispatchers s d \<noteq> None"
  shows "\<exists>told s'. bus_exec passive_observers (NotifyAll d msg) s = Inr s' \<and> trace s' = trace s @ told \<and>
    mset told = image_mset (\<lambda>c. Acted c msg)
      (mset_set {c. \<exists>cb. callbacks s c = Some cb \<and> m_dispatcher cb = Some d})"
proof -
  from assms(2) obtain cs where cs: "dispatchers s d = Some cs" by auto
  note wf = bus_preservation [OF assms(1)]
  have "{c. \<exists>cb. callbacks s c = Some cb \<and> m_dispatcher cb = Some d} = set cs"
    using wf_busD(2) [OF wf cs] by auto
  moreover have "mset_set (set cs) = mset cs" by (rule mset_set_set [OF wf_busD(1) [OF wf cs]])
  ultimately show ?thesis using NotifyAll_wf [OF wf cs, of msg] by simp
qed

theorem notify_reaches_each_subscriber_once_witness:
  "\<exists>told s'. bus_exec passive_observers (NotifyAll 1 (7::nat)) (ex_bus True) = Inr s' \<and>
    trace s' = trace (ex_bus True :: nat bus) @ told \<and>
    mset told = image_mset (\<lambda>c. Acted c 7)
      (mset_set {c. \<exists>cb. callbacks (ex_bus True :: nat bus) c = Some cb \<and> m_dispatcher cb = Some 1})"
  by (rule notify_reaches_each_subscriber_once [OF ex_bus_reachable]) (simp add: ex_bus_def)

end
