(* ===== verification/Plug_And_Play.thy ===== *)
theory Plug_And_Play
  imports Dispatcher Request_Engine
begin

text \<open>
  \<open>DirMonitor\<close> and \<open>DL_Loader\<close> (plug_and_play.hpp, plug_and_play.cpp): the thread that waits for new
  files in the plugin directory and the observer that loads them.  The answers of \<open>inotify\<close>, \<open>epoll\<close>
  and \<open>dlopen\<close> are arguments.  The destructor of the monitor sets \<open>END_THREAD\<close> where the list of rounds
  ends.
\<close>

section \<open>DL_Loader\<close>

text \<open>\<open>m_fds\<close> keeps a null handle for a library that could not be loaded; \<open>load_errors\<close> are the lines logged.\<close>

record 'h DL_Loader =
  m_fds :: "'h option list"
  load_errors :: "string list"

definition DL_Loader_ctor :: "nat \<Rightarrow> nat \<Rightarrow> string bus \<Rightarrow> ('h DL_Loader \<times> string bus) res" where
  "DL_Loader_ctor c dispatcher s =
     bindE (CallBack_ctor c (Some dispatcher) False s) (\<lambda>s. Inr (\<lparr>m_fds = [], load_errors = []\<rparr>, s))"

definition DL_Loader_LoadLib :: "(string \<Rightarrow> 'h option) \<Rightarrow> string \<Rightarrow> 'h DL_Loader \<Rightarrow> 'h DL_Loader" where
  "DL_Loader_LoadLib dlopen path st =
     (let handle = dlopen path;
          st = (if handle = None
                then st\<lparr>load_errors := load_errors st @ [''LoadLib() - dlopen() fail - '']\<rparr> else st)
      in st\<lparr>m_fds := m_fds st @ [handle]\<rparr>)"

text \<open>The body of the destructor, then the one of \<open>m_callback\<close>.\<close>

definition DL_Loader_dtor ::
  "('h option \<Rightarrow> bool) \<Rightarrow> nat \<Rightarrow> 'h DL_Loader \<Rightarrow> string bus \<Rightarrow> (string list \<times> string bus) res" where
  "DL_Loader_dtor dlclose_fails c st s =
     bindE (CallBack_dtor c s) (\<lambda>s.
     Inr (load_errors st @ map (\<lambda>_. ''~DL_Loader() dlclose() fail - '') (filter dlclose_fails (m_fds st)), s))"

section \<open>DirMonitor\<close>

datatype ThreadStatus = RUNING | DM_INIT | DM_ERROR | END_THREAD | DM_SUCCESS

text \<open>
  What a round of the loop gets: the time-out of the monitor, an error of it, or a descriptor that is
  ready; then \<open>read\<close> stores the events that wait (none when it fails), given by their names.
\<close>

datatype watch = Timed_Out | Wait_Fails int | Readable "string list"

text \<open>
  The loop.  \<open>buf\<close> is the name in the first event of the buffer, \<open>None\<close> before anything was read.
\<close>

fun monitor_loop ::
  "(string \<Rightarrow> 's \<Rightarrow> 's res) \<Rightarrow> string \<Rightarrow> watch list \<Rightarrow> string option \<Rightarrow> string \<Rightarrow> 's \<Rightarrow> 's res" where
  "monitor_loop notify dir_path [] buf full_name s = Inr s"
| "monitor_loop notify dir_path (Timed_Out # ws) buf full_name s =
     monitor_loop notify dir_path ws buf full_name s"
| "monitor_loop notify dir_path (Wait_Fails err # ws) buf full_name s = Inl (EpollError err)"
| "monitor_loop notify dir_path (Readable events # ws) buf full_name s =
     (let buf = (if events = [] then buf else Some (hd events))
      in case buf of
           None \<Rightarrow> Inl Indeterminate
         | Some name \<Rightarrow>
             let full_name = full_name @ dir_path @ ''/'' @ name
             in bindE (notify full_name s) (monitor_loop notify dir_path ws buf full_name))"

text \<open>
  The thread: the states it sets, in order, and what the observers got.  The observer of the program is the
  loader, whose \<open>LoadLib\<close> does not use the dispatcher.  \<open>EpollError\<close> leaves the
  function of the thread, which terminates the program.
\<close>

definition DirMonitor_Monitor ::
  "int + int \<Rightarrow> int \<Rightarrow> int \<Rightarrow> int option \<Rightarrow> string \<Rightarrow> watch list \<Rightarrow> nat \<Rightarrow> string bus \<Rightarrow>
   (ThreadStatus list \<times> string bus) res" where
  "DirMonitor_Monitor epoll_create inotify_init add_watch epoll_ctl dir_path ws dispatcher s =
     bindE (Epoll_ctor epoll_create 1) (\<lambda>monitor.
     let stts = [DM_INIT] @ (if inotify_init < 0 then [DM_ERROR] else []) @ (if add_watch < 0 then [DM_ERROR] else [])
     in bindE (Epoll_Add epoll_ctl inotify_init monitor) (\<lambda>monitor.
        bindE (monitor_loop (Dispatcher_NotifyAll passive_observers dispatcher) dir_path ws None [] s) (\<lambda>s.
        Inr (stts @ [RUNING, DM_SUCCESS], s))))"

section \<open>The names that are sent\<close>

text \<open>The path of a new file, and what is sent for a list of them.\<close>

definition plugin_path :: "string \<Rightarrow> string \<Rightarrow> string" where
  "plugin_path dir name = dir @ ''/'' @ name"

definition sent_paths :: "string \<Rightarrow> string \<Rightarrow> string list \<Rightarrow> string list" where
  "sent_paths full_name dir names =
     map (\<lambda>k. full_name @ concat (map (plugin_path dir) (take (Suc k) names))) [0..<length names]"

lemma sent_paths_Nil [simp]: "sent_paths full_name dir [] = []"
  by (simp add: sent_paths_def)

lemma sent_paths_Cons [simp]:
  "sent_paths full_name dir (n # names) =
     (full_name @ plugin_path dir n) # sent_paths (full_name @ plugin_path dir n) dir names"
  by (simp add: sent_paths_def upt_conv_Cons map_Suc_upt [symmetric] del: upt_Suc)

lemma length_sent_paths [simp]: "length (sent_paths full_name dir names) = length names"
  by (simp add: sent_paths_def)

text \<open>The name that a round makes the monitor use: that of the first event only.\<close>

fun first_names :: "watch list \<Rightarrow> string list" where
  "first_names [] = []"
| "first_names (Readable events # ws) = hd events # first_names ws"
| "first_names (_ # ws) = first_names ws"

definition quiet :: "watch list \<Rightarrow> bool" where
  "quiet ws \<longleftrightarrow> (\<forall>w \<in> set ws. w = Timed_Out \<or> (\<exists>e es. w = Readable (e # es)))"

lemma monitor_loop_sends:
  assumes "wf_bus s" and "dispatchers s d = Some [c]" and "quiet ws"
  shows "monitor_loop (Dispatcher_NotifyAll passive_observers d) dir ws buf full_name s =
    Inr (s\<lparr>trace := trace s @ map (Acted c) (sent_paths full_name dir (first_names ws))\<rparr>)"
  using assms
proof (induction ws arbitrary: buf full_name s)
  case (Cons w ws)
  have q: "quiet ws" using Cons.prems(3) by (simp add: quiet_def)
  consider "w = Timed_Out" | e es where "w = Readable (e # es)" using Cons.prems(3) by (auto simp: quiet_def)
  then show ?case
  proof cases
    case 1
    with Cons.IH [OF Cons.prems(1,2) q] show ?thesis by simp
  next
    case 2
    let ?s = "s\<lparr>trace := trace s @ [Acted c (full_name @ plugin_path dir e)]\<rparr>"
    have "wf_bus ?s" using Cons.prems(1) by simp
    with Cons.prems(2) q have "monitor_loop (Dispatcher_NotifyAll passive_observers d) dir ws (Some e) (full_name @ plugin_path dir e) ?s =
        Inr (?s\<lparr>trace := trace ?s @
          map (Acted c) (sent_paths (full_name @ plugin_path dir e) dir (first_names ws))\<rparr>)"
      by (intro Cons.IH) simp_all
    then show ?thesis using NotifyAll_wf [OF Cons.prems(1,2)] 2
      by (simp add: plugin_path_def Let_def)
  qed
qed simp

text \<open>What the loader does with the messages its callback got.\<close>

definition loader_run :: "(string \<Rightarrow> 'h option) \<Rightarrow> nat \<Rightarrow> string told list \<Rightarrow> 'h DL_Loader \<Rightarrow> 'h DL_Loader" where
  "loader_run dlopen c told st =
     fold (\<lambda>t. case t of Acted c' path \<Rightarrow> if c' = c then DL_Loader_LoadLib dlopen path else id | Stopped _ \<Rightarrow> id) told st"

lemma m_fds_LoadLib [simp]: "m_fds (DL_Loader_LoadLib dlopen path st) = m_fds st @ [dlopen path]"
  by (simp add: DL_Loader_LoadLib_def Let_def)

lemma m_fds_loader_run: "m_fds (loader_run dlopen c (map (Acted c) paths) st) = m_fds st @ map dlopen paths"
  by (induction paths arbitrary: st) (simp_all add: loader_run_def)

lemma later_paths_have_slash:
  assumes "full_name = dir @ ''/'' @ m" and "p \<in> set (sent_paths full_name dir names)"
  shows "\<exists>m. p = dir @ ''/'' @ m \<and> CHR ''/'' \<in> set m"
proof -
  from assms(2) obtain k where "k < length names"
    and p: "p = full_name @ concat (map (plugin_path dir) (take (Suc k) names))"
    by (auto simp: sent_paths_def)
  then have "names \<noteq> []" by auto
  then have "CHR ''/'' \<in> set (concat (map (plugin_path dir) (take (Suc k) names)))"
    by (cases names) (simp_all add: plugin_path_def)
  with assms(1) p show ?thesis
    by (intro exI [of _ "m @ concat (map (plugin_path dir) (take (Suc k) names))"]) simp
qed

section \<open>The status, shared with the destructor\<close>

text \<open>
  The two threads around \<open>m_thread_stt\<close>, statement by statement: the one of \<open>Monitor\<close>, for a directory that
  can be watched or not, and the owner in \<open>~DirMonitor\<close>, which waits for the end of \<open>INIT\<close>, asks the
  thread to end and joins it.
\<close>

datatype monitor_pc = Add_Watch | Set_Running | In_Loop | Set_Success | Thread_Ended

datatype dtor_pc = Spin_Init | Set_End | Join_Thread | Dtor_Done

record dir_monitor =
  m_thread_stt :: ThreadStatus
  monitor_at :: monitor_pc
  dtor_at :: dtor_pc

definition DirMonitor_ctor :: dir_monitor where
  "DirMonitor_ctor = \<lparr>m_thread_stt = DM_INIT, monitor_at = Add_Watch, dtor_at = Spin_Init\<rparr>"

definition SetThreadStatus :: "ThreadStatus \<Rightarrow> dir_monitor \<Rightarrow> dir_monitor" where
  "SetThreadStatus stt s = s\<lparr>m_thread_stt := stt\<rparr>"

definition monitor_step :: "bool \<Rightarrow> dir_monitor \<Rightarrow> dir_monitor" where
  "monitor_step watch_fails s =
     (case monitor_at s of
        Add_Watch \<Rightarrow> (if watch_fails then SetThreadStatus DM_ERROR s else s)\<lparr>monitor_at := Set_Running\<rparr>
      | Set_Running \<Rightarrow> (SetThreadStatus RUNING s)\<lparr>monitor_at := In_Loop\<rparr>
      | In_Loop \<Rightarrow> if m_thread_stt s = RUNING then s else s\<lparr>monitor_at := Set_Success\<rparr>
      | Set_Success \<Rightarrow> (SetThreadStatus DM_SUCCESS s)\<lparr>monitor_at := Thread_Ended\<rparr>
      | Thread_Ended \<Rightarrow> s)"

definition DirMonitor_dtor_step :: "dir_monitor \<Rightarrow> dir_monitor" where
  "DirMonitor_dtor_step s =
     (case dtor_at s of
        Spin_Init \<Rightarrow> if m_thread_stt s = DM_INIT then s else s\<lparr>dtor_at := Set_End\<rparr>
      | Set_End \<Rightarrow> (SetThreadStatus END_THREAD s)\<lparr>dtor_at := Join_Thread\<rparr>
      | Join_Thread \<Rightarrow> if monitor_at s = Thread_Ended then s\<lparr>dtor_at := Dtor_Done\<rparr> else s
      | Dtor_Done \<Rightarrow> s)"

inductive dm_run :: "bool \<Rightarrow> dir_monitor \<Rightarrow> dir_monitor \<Rightarrow> bool" for watch_fails s0 where
  start: "dm_run watch_fails s0 s0"
| monitor: "dm_run watch_fails s0 s \<Longrightarrow> dm_run watch_fails s0 (monitor_step watch_fails s)"
| dtor: "dm_run watch_fails s0 s \<Longrightarrow> dm_run watch_fails s0 (DirMonitor_dtor_step s)"

lemmas dm_steps = monitor_step_def DirMonitor_dtor_step_def SetThreadStatus_def

text \<open>A directory that can be watched: once the owner joins, nobody sets \<open>RUNING\<close> any more.\<close>

lemma dm_invariant:
  assumes "dm_run False DirMonitor_ctor s"
  shows "(monitor_at s \<in> {Add_Watch, Set_Running} \<longrightarrow> m_thread_stt s = DM_INIT \<and> dtor_at s = Spin_Init) \<and>
    (dtor_at s = Join_Thread \<longrightarrow> m_thread_stt s \<in> {END_THREAD, DM_SUCCESS}) \<and>
    (monitor_at s = Set_Success \<and> dtor_at s = Join_Thread \<longrightarrow> m_thread_stt s \<noteq> RUNING)"
  using assms
proof (induction rule: dm_run.induct)
  case start
  then show ?case by (simp add: DirMonitor_ctor_def)
next
  case (monitor s)
  then show ?case by (cases "monitor_at s") (auto simp: dm_steps)
next
  case (dtor s)
  then show ?case by (cases "dtor_at s") (auto simp: dm_steps)
qed

text \<open>The state in which the owner has asked too early and waits for ever.\<close>

lemma dm_stuck:
  assumes "dm_run w \<lparr>m_thread_stt = RUNING, monitor_at = In_Loop, dtor_at = Join_Thread\<rparr> s"
  shows "s = \<lparr>m_thread_stt = RUNING, monitor_at = In_Loop, dtor_at = Join_Thread\<rparr>"
  using assms by (induction rule: dm_run.induct) (simp_all add: dm_steps)

section \<open>Properties\<close>

text \<open>
  Only the first plugin of a run is loaded.  The monitor appends the path of each new file to the
  string it sent before, so that from the second file on the loader is asked for a path that is not in
  the directory; each time it keeps a null handle.  And the state \<open>ERROR\<close> of a directory that cannot be
  watched is overwritten at once.
\<close>

theorem only_first_plugin_loaded:
  assumes "bus_reachable passive_observers s" and "dispatchers s d = Some [c]" and "quiet ws"
    and "\<And>path h. dlopen path = Some h \<Longrightarrow> \<exists>name. path = dir @ ''/'' @ name \<and> CHR ''/'' \<notin> set name"
    and "first_names ws = n # names" and "0 \<le> ino"
  shows "\<exists>told s'. DirMonitor_Monitor (Inr ep) ino wd None dir ws d s =
      Inr ([DM_INIT] @ (if wd < 0 then [DM_ERROR] else []) @ [RUNING, DM_SUCCESS], s') \<and>
    trace s' = trace s @ told \<and>
    m_fds (loader_run dlopen c told \<lparr>m_fds = [], load_errors = []\<rparr>) =
      dlopen (dir @ ''/'' @ n) # replicate (length names) None"
proof -
  let ?told = "map (Acted c) (sent_paths [] dir (first_names ws))"
  note wf = bus_preservation [OF assms(1)]
  have "dlopen p = None" if "p \<in> set (sent_paths (plugin_path dir n) dir names)" for p
  proof -
    from later_paths_have_slash [OF _ that, of n] obtain m where
      m: "p = dir @ ''/'' @ m" "CHR ''/'' \<in> set m" by (auto simp: plugin_path_def)
    show ?thesis
    proof (rule ccontr)
      assume "dlopen p \<noteq> None"
      then obtain name where "p = dir @ ''/'' @ name" "CHR ''/'' \<notin> set name" using assms(4) by blast
      with m show False by simp
    qed
  qed
  then have "map dlopen (sent_paths (plugin_path dir n) dir names) = replicate (length names) None"
    by (intro nth_equalityI) simp_all
  then have "m_fds (loader_run dlopen c ?told \<lparr>m_fds = [], load_errors = []\<rparr>) =
      dlopen (dir @ ''/'' @ n) # replicate (length names) None"
    unfolding m_fds_loader_run assms(5) by (simp add: plugin_path_def)
  moreover have "DirMonitor_Monitor (Inr ep) ino wd None dir ws d s =
      Inr ([DM_INIT] @ (if wd < 0 then [DM_ERROR] else []) @ [RUNING, DM_SUCCESS],
        s\<lparr>trace := trace s @ ?told\<rparr>)"
    using assms(6) by (simp add: DirMonitor_Monitor_def Epoll_ctor_def Epoll_Add_def monitor_loop_sends [OF wf assms(2,3)])
  ultimately show ?thesis
    by (intro exI [of _ ?told] exI [of _ "s\<lparr>trace := trace s @ ?told\<rparr>"]) simp
qed

theorem only_first_plugin_loaded_witness:
  "\<exists>told s'. DirMonitor_Monitor (Inr 4) 5 (-1) None ''p'' [Readable [''a'', ''x''], Timed_Out, Readable [''b'']] 1
        (ex_bus False) =
      Inr ([DM_INIT] @ (if (-1::int) < 0 then [DM_ERROR] else []) @ [RUNING, DM_SUCCESS], s') \<and>
    trace s' = [] @ told \<and>
    m_fds (loader_run (\<lambda>f. if f \<in> {''p/a'', ''p/b''} then Some f else None) 5 told \<lparr>m_fds = [], load_errors = []\<rparr>) =
      [Some ''p/a'', None]"
proof -
  let ?dlopen = "\<lambda>f. if f \<in> {''p/a'', ''p/b''} then Some f else None"
  have "\<exists>name. path = ''p'' @ ''/'' @ name \<and> CHR ''/'' \<notin> set name" if "?dlopen path = Some h" for path h
    using that by (auto split: if_splits)
  from only_first_plugin_loaded [OF ex_bus_reachable [of _ False], where d = 1 and c = 5 and dlopen = ?dlopen and dir = "''p''"
      and ws = "[Readable [''a'', ''x''], Timed_Out, Readable [''b'']]" and n = "''a''" and names = "[''b'']"
      and ino = 5 and wd = "-1" and ep = 4, OF _ _ this]
  show ?thesis by (simp add: quiet_def ex_bus_def)
qed

text \<open>
  The destructor of a \<open>DirMonitor\<close> whose directory can be watched gets the thread to end in two more of
  its steps; but where the watch failed, there is a run in which the destructor takes the state \<open>ERROR\<close> for
  the end of the start-up, its \<open>END_THREAD\<close> is overwritten with \<open>RUNING\<close>, and it never returns.
\<close>

theorem dir_monitor_dtor:
  "(\<forall>s. dm_run False DirMonitor_ctor s \<and> dtor_at s = Join_Thread \<longrightarrow>
      monitor_at (monitor_step False (monitor_step False s)) = Thread_Ended) \<and>
   (\<exists>s. dm_run True DirMonitor_ctor s \<and> (\<forall>s'. dm_run True s s' \<longrightarrow> dtor_at s' = Join_Thread))"
proof (intro conjI allI impI)
  fix s assume "dm_run False DirMonitor_ctor s \<and> dtor_at s = Join_Thread"
  with dm_invariant [of s] show "monitor_at (monitor_step False (monitor_step False s)) = Thread_Ended"
    by (cases "monitor_at s") (auto simp: dm_steps)
next
  let ?run = "dm_run True DirMonitor_ctor"
  have "?run (monitor_step True DirMonitor_ctor)" by (intro dm_run.intros)
  then have "?run (DirMonitor_dtor_step (DirMonitor_dtor_step (monitor_step True DirMonitor_ctor)))"
    by (intro dm_run.dtor)
  then have "?run (monitor_step True (DirMonitor_dtor_step (DirMonitor_dtor_step (monitor_step True DirMonitor_ctor))))"
    by (rule dm_run.monitor)
  moreover have "monitor_step True (DirMonitor_dtor_step (DirMonitor_dtor_step (monitor_step True DirMonitor_ctor))) =
      \<lparr>m_thread_stt = RUNING, monitor_at = In_Loop, dtor_at = Join_Thread\<rparr>"
    by (simp add: dm_steps DirMonitor_ctor_def)
  ultimately show "\<exists>s. ?run s \<and> (\<forall>s'. dm_run True s s' \<longrightarrow> dtor_at s' = Join_Thread)"
    using dm_stuck by (metis dir_monitor.select_convs(3))
qed

theorem dir_monitor_dtor_witness:
  "\<exists>s. dm_run False DirMonitor_ctor s \<and> dtor_at s = Join_Thread \<and>
    monitor_at (monitor_step False (monitor_step False s)) = Thread_Ended"
proof -
  let ?s = "DirMonitor_dtor_step (DirMonitor_dtor_step (monitor_step False (monitor_step False DirMonitor_ctor)))"
  have "dm_run False DirMonitor_ctor ?s" by (intro dm_run.intros)
  moreover have "dtor_at ?s = Join_Thread" by (simp add: dm_steps DirMonitor_ctor_def)
  ultimately show ?thesis using dir_monitor_dtor by blast
qed

end
