(* ===== verification/Handleton.thy ===== *)
theory Handleton
  imports GC_Prelude
begin

text \<open>
  \<open>Handleton\<close> and \<open>Singleton\<close> (handleton.hpp, singleton.hpp): the one instance of a class, made by the
  double-checked locking pattern.  The threads inside \<open>GetInstance\<close> are interleaved statement by
  statement; an address is a number and 0 the null pointer.  The acquire and release order of the
  atomic pointer is taken for granted: a thread that loads the address also sees the object.
\<close>

section \<open>The steps of GetInstance\<close>

datatype get_pc = Start | Want_Lock | Locked | Create | Reset nat | Store nat | Unlock nat | Done nat | Thrown

record handleton =
  s_mutex :: "nat option"
  s_instance :: nat
  s_ptr :: nat
  constructed :: "nat list"
  destroyed :: "nat list"
  pcs :: "nat \<Rightarrow> get_pc"

definition Handleton_init :: handleton where
  "Handleton_init = \<lparr>s_mutex = None, s_instance = 0, s_ptr = 0, constructed = [], destroyed = [], pcs = (\<lambda>_. Start)\<rparr>"

definition goto :: "nat \<Rightarrow> get_pc \<Rightarrow> handleton \<Rightarrow> handleton" where
  "goto t pc s = s\<lparr>pcs := (pcs s)(t := pc)\<rparr>"

text \<open>\<open>std::unique_ptr::reset\<close>: the object the pointer owned is destroyed.\<close>

definition reset_ptr :: "nat \<Rightarrow> handleton \<Rightarrow> handleton" where
  "reset_ptr a s = s\<lparr>s_ptr := a, destroyed := (if s_ptr s = 0 then destroyed s else destroyed s @ [s_ptr s])\<rparr>"

text \<open>
  One step of the thread \<open>t\<close>; \<open>None\<close> when it has to wait or has left the function.  \<open>alloc\<close> is what
  \<open>new T(args...)\<close> gives: a fresh address, or \<open>None\<close> when it throws, which unlocks the mutex.
\<close>

definition get_step :: "nat \<Rightarrow> nat option \<Rightarrow> handleton \<Rightarrow> handleton option" where
  "get_step t alloc s =
     (case pcs s t of
        Start \<Rightarrow> Some (goto t (if s_instance s = 0 then Want_Lock else Done (s_instance s)) s)
      | Want_Lock \<Rightarrow> if s_mutex s = None then Some (goto t Locked (s\<lparr>s_mutex := Some t\<rparr>)) else None
      | Locked \<Rightarrow> Some (goto t (if s_instance s = 0 then Create else Unlock (s_instance s)) s)
      | Create \<Rightarrow>
          (case alloc of
             None \<Rightarrow> Some (goto t Thrown (s\<lparr>s_mutex := None\<rparr>))
           | Some a \<Rightarrow>
               if a \<noteq> 0 \<and> a \<notin> set (constructed s)
               then Some (goto t (Reset a) (s\<lparr>constructed := constructed s @ [a]\<rparr>)) else None)
      | Reset a \<Rightarrow> Some (goto t (Store a) (reset_ptr a s))
      | Store a \<Rightarrow> Some (goto t (Unlock a) (s\<lparr>s_instance := a\<rparr>))
      | Unlock a \<Rightarrow> Some (goto t (Done a) (s\<lparr>s_mutex := None\<rparr>))
      | Done a \<Rightarrow> None
      | Thrown \<Rightarrow> None)"

definition ReleaseResources :: "handleton \<Rightarrow> handleton" where
  "ReleaseResources s = reset_ptr 0 s"

text \<open>\<open>Singleton::GetInstance\<close> is the same function.\<close>

definition Singleton_get_step :: "nat \<Rightarrow> nat option \<Rightarrow> handleton \<Rightarrow> handleton option" where
  "Singleton_get_step = get_step"

inductive get_reaches :: "handleton \<Rightarrow> bool" where
  init: "get_reaches Handleton_init"
| get: "get_reaches s \<Longrightarrow> get_step t alloc s = Some s' \<Longrightarrow> get_reaches s'"

section \<open>The invariant\<close>

definition holds_lock :: "get_pc \<Rightarrow> bool" where
  "holds_lock pc \<longleftrightarrow> pc \<in> {Locked, Create} \<union> range Reset \<union> range Store \<union> range Unlock"

text \<open>
  What a thread knows at its place: before the store there is no instance, and after it everybody
  has the same one.
\<close>

fun knows :: "handleton \<Rightarrow> get_pc \<Rightarrow> bool" where
  "knows s Create \<longleftrightarrow> s_instance s = 0 \<and> constructed s = [] \<and> s_ptr s = 0"
| "knows s (Reset a) \<longleftrightarrow> s_instance s = 0 \<and> constructed s = [a] \<and> s_ptr s = 0 \<and> a \<noteq> 0"
| "knows s (Store a) \<longleftrightarrow> s_instance s = 0 \<and> constructed s = [a] \<and> s_ptr s = a \<and> a \<noteq> 0"
| "knows s (Unlock a) \<longleftrightarrow> s_instance s = a \<and> a \<noteq> 0"
| "knows s (Done a) \<longleftrightarrow> s_instance s = a \<and> a \<noteq> 0"
| "knows s _ \<longleftrightarrow> True"

definition handleton_inv :: "handleton \<Rightarrow> bool" where
  "handleton_inv s \<longleftrightarrow>
     (\<forall>t. holds_lock (pcs s t) \<longleftrightarrow> s_mutex s = Some t) \<and> (\<forall>t. knows s (pcs s t)) \<and> destroyed s = [] \<and>
     (s_instance s = 0 \<longrightarrow>
        (constructed s = [] \<and> s_ptr s = 0) \<or> (\<exists>t a. pcs s t = Reset a \<or> pcs s t = Store a)) \<and>
     (s_instance s \<noteq> 0 \<longrightarrow> constructed s = [s_instance s] \<and> s_ptr s = s_instance s)"

lemma holds_lock_simps [simp]:
  "holds_lock Locked" "holds_lock Create" "holds_lock (Reset a)" "holds_lock (Store a)" "holds_lock (Unlock a)"
  "\<not> holds_lock Start" "\<not> holds_lock Want_Lock" "\<not> holds_lock (Done a)" "\<not> holds_lock Thrown"
  by (auto simp: holds_lock_def)

lemma goto_simps [simp]:
  "pcs (goto t pc s) = (pcs s)(t := pc)" "s_mutex (goto t pc s) = s_mutex s"
  "s_instance (goto t pc s) = s_instance s" "s_ptr (goto t pc s) = s_ptr s"
  "constructed (goto t pc s) = constructed s" "destroyed (goto t pc s) = destroyed s"
  by (simp_all add: goto_def)

lemma knows_cong:
  "s_instance s = s_instance s' \<Longrightarrow> constructed s = constructed s' \<Longrightarrow> s_ptr s = s_ptr s' \<Longrightarrow>
   knows s pc = knows s' pc"
  by (cases pc) simp_all

lemma handleton_invD:
  assumes "handleton_inv s"
  shows "holds_lock (pcs s t) \<longleftrightarrow> s_mutex s = Some t" and "knows s (pcs s t)" and "destroyed s = []"
    and "s_instance s \<noteq> 0 \<Longrightarrow> constructed s = [s_instance s] \<and> s_ptr s = s_instance s"
    and "s_instance s = 0 \<Longrightarrow> \<nexists>t a. pcs s t = Reset a \<or> pcs s t = Store a \<Longrightarrow> constructed s = [] \<and> s_ptr s = 0"
  using assms unfolding handleton_inv_def by blast+

lemma handleton_invI:
  assumes "\<And>u. holds_lock (pcs s u) \<longleftrightarrow> s_mutex s = Some u" and "\<And>u. knows s (pcs s u)" and "destroyed s = []"
    and "s_instance s \<noteq> 0 \<Longrightarrow> constructed s = [s_instance s] \<and> s_ptr s = s_instance s"
    and "s_instance s = 0 \<Longrightarrow> (constructed s = [] \<and> s_ptr s = 0) \<or> (\<exists>u a. pcs s u = Reset a \<or> pcs s u = Store a)"
  shows "handleton_inv s"
proof -
  have A: "\<forall>t. holds_lock (pcs s t) \<longleftrightarrow> s_mutex s = Some t" using assms(1) by (rule allI)
  have B: "\<forall>t. knows s (pcs s t)" using assms(2) by (rule allI)
  show ?thesis
    unfolding handleton_inv_def
    by (rule conjI [OF A conjI [OF B conjI [OF assms(3) conjI [OF impI [OF assms(5)] impI [OF assms(4)]]]]])
qed

text \<open>
  While \<open>t\<close> holds the lock, the others are outside of it; when there is no instance yet, none of them
  is done.
\<close>

lemma others_outside:
  assumes "handleton_inv s" and "holds_lock (pcs s t)" and "u \<noteq> t"
  shows "\<not> holds_lock (pcs s u)" and "s_instance s = 0 \<Longrightarrow> pcs s u \<noteq> Done a"
proof -
  show "\<not> holds_lock (pcs s u)"
    using handleton_invD(1) [OF assms(1), of u] handleton_invD(1) [OF assms(1), of t] assms(2,3) by simp
  show "s_instance s = 0 \<Longrightarrow> pcs s u \<noteq> Done a"
    using handleton_invD(2) [OF assms(1), of u] by (cases "pcs s u") simp_all
qed

lemma others_know:
  assumes "handleton_inv s" and "holds_lock (pcs s t)" and "u \<noteq> t"
    and "s_instance s = 0 \<or> s_instance s' = s_instance s"
  shows "knows s' (pcs s u)"
proof (cases "pcs s u")
  case (Done a)
  with others_outside(2) [OF assms(1-3), of a] handleton_invD(2) [OF assms(1), of u] assms(4)
  show ?thesis by simp
qed (use others_outside(1) [OF assms(1-3)] in simp_all)

text \<open>A step that moves one thread only, and a step of the thread that makes the instance.\<close>

lemma move_inv:
  assumes inv: "handleton_inv s" and pcs: "pcs s' = (pcs s)(t := pc)"
    and same: "s_instance s' = s_instance s" "s_ptr s' = s_ptr s" "constructed s' = constructed s"
      "destroyed s' = destroyed s"
    and no_new: "\<nexists>a. pcs s t = Reset a \<or> pcs s t = Store a"
    and knows: "knows s pc" and lock: "holds_lock pc \<longleftrightarrow> s_mutex s' = Some t"
    and others: "\<And>u. u \<noteq> t \<Longrightarrow> s_mutex s' = Some u \<longleftrightarrow> s_mutex s = Some u"
  shows "handleton_inv s'"
proof (rule handleton_invI)
  show "holds_lock (pcs s' u) \<longleftrightarrow> s_mutex s' = Some u" for u
    using lock others [of u] handleton_invD(1) [OF inv, of u] by (simp add: pcs)
  show "knows s' (pcs s' u)" for u
    using knows handleton_invD(2) [OF inv, of u] knows_cong [OF same(1,3,2)] by (simp add: pcs)
  show "s_instance s' \<noteq> 0 \<Longrightarrow> constructed s' = [s_instance s'] \<and> s_ptr s' = s_instance s'"
    using handleton_invD(4) [OF inv] by (simp add: same)
  show "(constructed s' = [] \<and> s_ptr s' = 0) \<or> (\<exists>u a. pcs s' u = Reset a \<or> pcs s' u = Store a)"
    if "s_instance s' = 0"
  proof (cases "\<exists>u a. pcs s u = Reset a \<or> pcs s u = Store a")
    case True
    then obtain u a where u: "pcs s u = Reset a \<or> pcs s u = Store a" by blast
    with no_new have "u \<noteq> t" by auto
    with u have "pcs s' u = Reset a \<or> pcs s' u = Store a" by (simp add: pcs)
    then show ?thesis by blast
  next
    case False
    then show ?thesis using handleton_invD(5) [OF inv] that by (simp add: same)
  qed
qed (simp add: same handleton_invD(3) [OF inv])

lemma holder_inv:
  assumes inv: "handleton_inv s" and t: "holds_lock (pcs s t)" and "s_instance s = 0"
    and pcs: "pcs s' = (pcs s)(t := pc)" and pc: "holds_lock pc" "knows s' pc"
    and "s_mutex s' = s_mutex s" and "destroyed s' = []"
    and "s_instance s' \<noteq> 0 \<Longrightarrow> constructed s' = [s_instance s'] \<and> s_ptr s' = s_instance s'"
    and last: "s_instance s' = 0 \<Longrightarrow> \<exists>a. pc = Reset a \<or> pc = Store a"
  shows "handleton_inv s'"
proof (rule handleton_invI)
  show "holds_lock (pcs s' u) \<longleftrightarrow> s_mutex s' = Some u" for u
    using pc(1) t handleton_invD(1) [OF inv, of u] assms(7) by (auto simp: pcs)
  show "knows s' (pcs s' u)" for u
    using others_know [OF inv t, of u s'] pc(2) assms(3) by (cases "u = t") (simp_all add: pcs)
  show "(constructed s' = [] \<and> s_ptr s' = 0) \<or> (\<exists>u a. pcs s' u = Reset a \<or> pcs s' u = Store a)"
    if "s_instance s' = 0"
  proof -
    from last [OF that] obtain a where "pcs s' t = Reset a \<or> pcs s' t = Store a" by (auto simp: pcs)
    then show ?thesis by blast
  qed
qed (use assms in simp_all)

lemma get_step_inv:
  assumes inv: "handleton_inv s" and step: "get_step t alloc s = Some s'"
  shows "handleton_inv s'"
proof -
  note D = handleton_invD [OF inv]
  note knows = D(2) [of t] and lock = D(1) [of t]
  show ?thesis
  proof (cases "pcs s t")
    case Start
    with step lock show ?thesis
      by (intro move_inv [OF inv, where t = t and pc = "if s_instance s = 0 then Want_Lock else Done (s_instance s)"])
         (auto simp: get_step_def)
  next
    case Want_Lock
    with step lock show ?thesis
      by (intro move_inv [OF inv, where t = t and pc = Locked]) (auto simp: get_step_def split: if_splits)
  next
    case Locked
    have no: "\<nexists>u a. pcs s u = Reset a \<or> pcs s u = Store a"
      using Locked lock D(1) by (metis get_pc.distinct(34,36) holds_lock_simps(1,3,4) option.inject)
    from Locked step lock D(5) [OF _ no] show ?thesis
      by (intro move_inv [OF inv, where t = t and pc = "if s_instance s = 0 then Create else Unlock (s_instance s)"])
         (auto simp: get_step_def)
  next
    case Create
    show ?thesis
    proof (cases alloc)
      case None
      with Create step lock show ?thesis
        by (intro move_inv [OF inv, where t = t and pc = Thrown]) (auto simp: get_step_def)
    next
      case (Some a)
      with Create step knows D(3) show ?thesis
        by (intro holder_inv [OF inv, where t = t and pc = "Reset a"]) (auto simp: get_step_def split: if_splits)
    qed
  next
    case (Reset a)
    with step knows D(3) show ?thesis
      by (intro holder_inv [OF inv, where t = t and pc = "Store a"]) (auto simp: get_step_def reset_ptr_def)
  next
    case (Store a)
    with step knows D(3) show ?thesis
      by (intro holder_inv [OF inv, where t = t and pc = "Unlock a"]) (auto simp: get_step_def)
  next
    case (Unlock a)
    with step knows lock show ?thesis
      by (intro move_inv [OF inv, where t = t and pc = "Done a"]) (auto simp: get_step_def)
  qed (use step in \<open>simp_all add: get_step_def\<close>)
qed

lemma get_reaches_inv: "get_reaches s \<Longrightarrow> handleton_inv s"
proof (induction rule: get_reaches.induct)
  case init
  show ?case by (simp add: handleton_inv_def Handleton_init_def)
qed (rule get_step_inv)

section \<open>Properties\<close>

text \<open>
  C38: however the threads are interleaved, all of them get the same object, the only one that was ever
  made, and it is alive; but after \<open>ReleaseResources\<close>, which leaves the pointer \<open>s_instance\<close> as it was, the
  next call gets the address of the destroyed object.
\<close>

theorem handleton_single_instance:
  assumes "get_reaches s" and "pcs s t = Done a" and "pcs s u = Done b"
  shows "a = b \<and> a \<noteq> 0 \<and> constructed s = [a] \<and> destroyed s = [] \<and> s_ptr s = a \<and>
    (let r = ReleaseResources s in destroyed r = [a] \<and>
       (\<forall>v alloc. pcs r v = Start \<longrightarrow> (\<exists>r'. get_step v alloc r = Some r' \<and> pcs r' v = Done a)))"
proof -
  note D = handleton_invD [OF get_reaches_inv [OF assms(1)]]
  have a: "s_instance s = a" "a \<noteq> 0" "a = b" using D(2) [of t] D(2) [of u] assms(2,3) by auto
  with D(3,4) have "constructed s = [a]" "destroyed s = []" "s_ptr s = a" by auto
  with a show ?thesis by (simp add: ReleaseResources_def reset_ptr_def get_step_def)
qed

text \<open>Two threads of which the second one waits for the lock while the first one makes the object 9.\<close>

theorem handleton_single_instance_witness:
  "\<exists>s :: handleton. pcs s 0 = Done 9 \<and> pcs s 1 = Done 9 \<and> constructed s = [9] \<and> destroyed s = []"
proof -
  define run where "run = (\<lambda>ts. fold (\<lambda>t s. the (get_step t (Some 9) s)) ts Handleton_init)"
  have step: "get_reaches (run (ts @ [t]))" if "get_reaches (run ts)" "get_step t (Some 9) (run ts) \<noteq> None" for ts t
    using that by (auto simp: run_def intro: get_reaches.get)
  note d = run_def get_step_def Handleton_init_def goto_def reset_ptr_def
  have "get_reaches (run [])" by (simp add: run_def get_reaches.init)
  from step [OF this, of 0] have "get_reaches (run [0])" by (simp add: d)
  from step [OF this, of 1] have "get_reaches (run [0, 1])" by (simp add: d)
  from step [OF this, of 0] have "get_reaches (run [0, 1, 0])" by (simp add: d)
  from step [OF this, of 0] have "get_reaches (run [0, 1, 0, 0])" by (simp add: d)
  from step [OF this, of 0] have "get_reaches (run [0, 1, 0, 0, 0])" by (simp add: d)
  from step [OF this, of 0] have "get_reaches (run [0, 1, 0, 0, 0, 0])" by (simp add: d)
  from step [OF this, of 0] have "get_reaches (run [0, 1, 0, 0, 0, 0, 0])" by (simp add: d)
  from step [OF this, of 0] have "get_reaches (run [0, 1, 0, 0, 0, 0, 0, 0])" by (simp add: d)
  from step [OF this, of 1] have "get_reaches (run [0, 1, 0, 0, 0, 0, 0, 0, 1])" by (simp add: d)
  from step [OF this, of 1] have "get_reaches (run [0, 1, 0, 0, 0, 0, 0, 0, 1, 1])" by (simp add: d)
  from step [OF this, of 1] have r: "get_reaches (run [0, 1, 0, 0, 0, 0, 0, 0, 1, 1, 1])" by (simp add: d)
  have "pcs (run [0, 1, 0, 0, 0, 0, 0, 0, 1, 1, 1]) 0 = Done 9"
    and "pcs (run [0, 1, 0, 0, 0, 0, 0, 0, 1, 1, 1]) 1 = Done 9" by (simp_all add: d)
  moreover from handleton_single_instance [OF r this]
  have "constructed (run [0, 1, 0, 0, 0, 0, 0, 0, 1, 1, 1]) = [9]"
    and "destroyed (run [0, 1, 0, 0, 0, 0, 0, 0, 1, 1, 1]) = []" by (simp_all only: simp_thms)
  ultimately show ?thesis by blast
qed

end
