(* ===== verification/Tools.thy ===== *)
theory Tools
  imports Driver_Data
begin

text \<open>
  Small parts: the text of an \<open>IoctlError\<close> (ioctl_wrapper.cpp), the program that writes the
  skeleton of a header file (create_h_file.cpp) and the class of base.hpp.
\<close>

section \<open>IoctlError\<close>

record IoctlError =
  ie_fd :: int
  ie_errno :: int
  ie_macro :: nat
  ie_flags :: int
  m_error :: "byte list"

definition NO_FLAGS :: int where "NO_FLAGS = -1"

definition IoctlError_ctor :: "int \<Rightarrow> int \<Rightarrow> nat \<Rightarrow> int \<Rightarrow> IoctlError" where
  "IoctlError_ctor fd err m flags =
     \<lparr>ie_fd = fd, ie_errno = err, ie_macro = m, ie_flags = flags, m_error = bytes_of ''-- IoctlError:'' @ [10]\<rparr>"

text \<open>\<open>what()\<close> gives the text and changes the mutable member it is built in.\<close>

definition IoctlError_what :: "IoctlError \<Rightarrow> byte list \<times> IoctlError" where
  "IoctlError_what e =
     (let fd = dec_int (ie_fd e);
          m = dec (ie_macro e);
          flags = (if NO_FLAGS \<noteq> ie_flags e then dec_int (ie_flags e) else bytes_of ''NO_FLAGS'');
          text = m_error e @ bytes_of ''-- fd'' @ [9, 9] @ fd @ 10 # bytes_of ''-- macro'' @ 9 # m @
                 10 # bytes_of ''-- flags'' @ 9 # flags @ [10]
      in (text, e\<lparr>m_error := text\<rparr>))"

text \<open>The text grows with every call: what the second call gives begins with what the first one gave.\<close>

lemma what_grows:
  "\<exists>line. line \<noteq> [] \<and> fst (IoctlError_what e) = m_error e @ line \<and>
     fst (IoctlError_what (snd (IoctlError_what e))) = m_error e @ line @ line"
  by (rule exI [of _ "bytes_of ''-- fd'' @ [9, 9] @ dec_int (ie_fd e) @ 10 # bytes_of ''-- macro'' @
       9 # dec (ie_macro e) @ 10 # bytes_of ''-- flags'' @
       9 # (if NO_FLAGS \<noteq> ie_flags e then dec_int (ie_flags e) else bytes_of ''NO_FLAGS'') @ [10]"])
     (simp add: IoctlError_what_def Let_def)

section \<open>create_h_file\<close>

text \<open>\<open>sizeof\<close> is applied to two pointers, of 8 bytes each, not to the texts.\<close>

definition FILE_LEN :: nat where "FILE_LEN = 8 + 8"
definition NAME_BEGIN :: "cell list" where "NAME_BEGIN = map Some (bytes_of ''./'') @ [Some 0]"
definition NAME_ENDING :: "cell list" where "NAME_ENDING = map Some (bytes_of ''.hpp'') @ [Some 0]"

definition toupper :: "byte \<Rightarrow> byte" where
  "toupper c = (if 97 \<le> c \<and> c \<le> 122 then c - 32 else c)"

definition FillFile :: "byte list \<Rightarrow> byte list \<Rightarrow> byte list" where
  "FillFile upper name =
     (let name = (case name of [] \<Rightarrow> [] | c # cs \<Rightarrow> toupper c # cs) in
      10 # bytes_of ''#ifndef __HRD11_'' @ upper @ bytes_of ''_HPP__'' @ 10 # bytes_of ''#define __HRD11_'' @ upper @
      bytes_of ''_HPP__'' @ [10, 10] @ bytes_of ''namespace hrd11'' @ 10 # bytes_of ''{'' @ [10, 10] @
      bytes_of ''class '' @ name @ [10] @
      bytes_of ''{'' @ 10 # bytes_of ''public:'' @ 10 # bytes_of ''private:'' @ [10, 10] @ bytes_of ''};'' @ [10, 10] @
      bytes_of ''}'' @ 9 # bytes_of ''// end namespace hrd11'' @ [10, 10] @
      bytes_of ''#endif // __HRD11_'' @ upper @ bytes_of ''_HPP__'')"

text \<open>The loop that copies a text from a pointer into the rest of the buffer.\<close>

fun copy_until :: "nat \<Rightarrow> nat \<Rightarrow> cell list \<Rightarrow> cell list \<Rightarrow> (nat \<times> cell list) res" where
  "copy_until i n [] mem = (if i < n then Inl OutOfBounds else Inr (i, mem))"
| "copy_until i n (c # src) mem =
     (if i < n then bindE (store_at mem i [c]) (\<lambda>mem. copy_until (i + 1) n src mem) else Inr (i, mem))"

text \<open>\<open>main\<close>: the exit status and the file it writes.\<close>

definition create_h_main :: "int \<Rightarrow> byte list \<Rightarrow> (int \<times> (byte list \<times> byte list) option) res" where
  "create_h_main ac arg =
     (if ac \<noteq> 2 then Inr (1, None)
      else
        let len = length arg; g_file_name = replicate (len + FILE_LEN) None :: cell list in
        bindE (store_at (replicate (len + FILE_LEN) None) 0 (map (Some \<circ> toupper) (arg @ [0]))) (\<lambda>g_file_name_upper.
        bindE (copy_until 0 2 NAME_BEGIN g_file_name) (\<lambda>(i, g_file_name).
        bindE (store_at g_file_name i (map Some arg)) (\<lambda>g_file_name.
        bindE (copy_until (i + len) (len + FILE_LEN) NAME_ENDING g_file_name) (\<lambda>(_, g_file_name).
        bindE (c_str g_file_name) (\<lambda>file_name.
        bindE (c_str g_file_name_upper) (\<lambda>upper.
        Inr (0, Some (file_name, FillFile upper arg)))))))))"

lemma copy_until_overread:
  "i + length src < n \<Longrightarrow> n \<le> length mem \<Longrightarrow> copy_until i n src mem = Inl OutOfBounds"
  by (induction i n src mem rule: copy_until.induct) simp_all

text \<open>With an argument the program always reads past the end of the text \<open>.hpp\<close>, by 9 bytes.\<close>

lemma create_h_overreads: "create_h_main 2 arg = Inl OutOfBounds"
proof -
  let ?n = "length arg + FILE_LEN"
  let ?mem = "overwrite (overwrite (replicate ?n None) 0 [Some 46]) 1 [Some 47] :: cell list"
  have "copy_until 0 2 NAME_BEGIN (replicate ?n None) = Inr (2, ?mem)"
    by (simp add: NAME_BEGIN_def bytes_of_def FILE_LEN_def numeral_2_eq_2)
  moreover have "copy_until (2 + length arg) ?n NAME_ENDING (overwrite ?mem 2 (map Some arg)) = Inl OutOfBounds"
    by (rule copy_until_overread) (simp_all add: NAME_ENDING_def bytes_of_def FILE_LEN_def)
  ultimately show ?thesis by (simp add: create_h_main_def Let_def FILE_LEN_def)
qed

section \<open>Base\<close>

text \<open>
  The class that the tests put into a \<open>Handleton\<close> (base.hpp).  Its constructor, given the static member
  \<open>m_y\<close>, returns \<open>m_x\<close> and \<open>m_y\<close>; before it \<open>m_x\<close> was never written.
\<close>

definition Base_ctor :: "int \<Rightarrow> (int \<times> int) res" where
  "Base_ctor m_y =
     (let (m_x, m_y) = (if m_y = 48 then (Some m_y, 0) else (None, m_y))
      in bindE (val m_x) (\<lambda>m_x. Inr (m_x + 1, m_y)))"

text \<open>Only the first object of a process gets a value.\<close>

lemma second_Base_indeterminate:
  "Base_ctor 48 = Inr (49, 0)" "bindE (Base_ctor 48) (\<lambda>(_, m_y). Base_ctor m_y) = Inl Indeterminate"
  by (simp_all add: Base_ctor_def)

end
