(* ===== verification/Old_Programs.thy ===== *)
theory Old_Programs
  imports Programs Old_Storages Plug_And_Play
begin

text \<open>
  The earlier versions of the master, release/greencloud.0.1.cpp to release/greencloud.0.4.cpp: one
  thread that does everything (0.1), a detached thread for every request (0.1.5), the thread pool and
  the factory (0.2), the plugins (0.2.5), the request engine (0.3, 0.4).  They use a \<open>DriverProxy\<close> and a
  \<open>Storage\<close> through their abstract classes, which are the record \<open>services\<close> here; the type of the
  requests of that time is read off \<open>m_key\<close>.
\<close>

section \<open>What the loops use\<close>

record ('w, 'd) services =
  GetReqFd :: "'w \<Rightarrow> int"
  ReceiveRequest :: "'w \<Rightarrow> ('d \<times> 'w) res"
  SendReply :: "'d \<Rightarrow> 'w \<Rightarrow> 'w res"
  Disconnect :: "'w \<Rightarrow> 'w res"
  StorageRead :: "'d \<Rightarrow> 'w \<Rightarrow> ('d \<times> 'w) res"
  StorageWrite :: "'d \<Rightarrow> 'w \<Rightarrow> ('d \<times> 'w) res"
  m_type :: "'d \<Rightarrow> FactoryKey res"

definition HundelInputFD :: "byte list option \<Rightarrow> bool res" where
  "HundelInputFD stt =
     (case stt of
        None \<Rightarrow> Inl (Runtime_Error ''HundelInputFD() fail to read from stdin'')
      | Some bytes \<Rightarrow>
          bindE (byte_at (overwrite (replicate 100 None) 0 (map Some (take 100 bytes))) 0) (\<lambda>c.
          Inr (c = of_char (CHR ''q''))))"

text \<open>
  A round of a loop: what the monitor answers and what reading from the standard input would give.
\<close>

type_synonym round = "(int + int list) \<times> byte list option"

text \<open>The part all loops begin with: waiting, and the standard input.  \<open>Inr None\<close> is the descriptor of the driver.\<close>

definition wait_input :: "round \<Rightarrow> Epoll \<Rightarrow> (Epoll \<times> bool option) res" where
  "wait_input r ep =
     bindE (Epoll_Wait (fst r) ep) (\<lambda>(_, ep).
     bindE (Epoll_index ep 0) (\<lambda>fd.
     if fd = 0 then bindE (HundelInputFD (snd r)) (\<lambda>q. Inr (ep, Some q)) else Inr (ep, None)))"

definition open_monitor ::
  "int + int \<Rightarrow> (int \<Rightarrow> int option) \<Rightarrow> ('w, 'd) services \<Rightarrow> 'w \<Rightarrow> Epoll res" where
  "open_monitor epoll_create epoll_ctl sv w =
     bindE (Epoll_ctor epoll_create 1) (\<lambda>ep.
     bindE (Epoll_Add (epoll_ctl 0) 0 ep) (\<lambda>ep.
     Epoll_Add (epoll_ctl (GetReqFd sv w)) (GetReqFd sv w) ep))"

section \<open>Version 0.1\<close>

datatype RunLoop = RunLoop_RUN | RunLoop_STOP

definition v01_ThreadFunc :: "('w, 'd) services \<Rightarrow> 'd \<Rightarrow> 'w \<Rightarrow> (RunLoop \<times> 'w) res" where
  "v01_ThreadFunc sv data w =
     bindE (m_type sv data) (\<lambda>type.
     if type = DISCONNECT then bindE (Disconnect sv w) (\<lambda>w. Inr (RunLoop_STOP, w))
     else
       bindE (if type = READ then StorageRead sv data w
              else if type = WRITE then StorageWrite sv data w
              else Inr (data, w)) (\<lambda>(data, w).
       bindE (SendReply sv data w) (\<lambda>w. Inr (RunLoop_RUN, w))))"

fun v01_loop :: "('w, 'd) services \<Rightarrow> round list \<Rightarrow> RunLoop \<Rightarrow> Epoll \<Rightarrow> 'w \<Rightarrow> 'w res" where
  "v01_loop sv [] s_run_loop ep w = (if s_run_loop = RunLoop_RUN then Inl Would_Block else Inr w)"
| "v01_loop sv (r # rs) s_run_loop ep w =
     (if s_run_loop = RunLoop_RUN
      then bindE (wait_input r ep) (\<lambda>(ep, input).
           case input of
             Some q \<Rightarrow> if q then Disconnect sv w else v01_loop sv rs s_run_loop ep w
           | None \<Rightarrow>
               bindE (ReceiveRequest sv w) (\<lambda>(data, w).
               bindE (v01_ThreadFunc sv data w) (\<lambda>(s_run_loop, w). v01_loop sv rs s_run_loop ep w)))
      else Inr w)"

definition v01_RunGreenCloude ::
  "('w, 'd) services \<Rightarrow> int + int \<Rightarrow> (int \<Rightarrow> int option) \<Rightarrow> round list \<Rightarrow> 'w \<Rightarrow> 'w res" where
  "v01_RunGreenCloude sv epoll_create epoll_ctl rs w =
     bindE (open_monitor epoll_create epoll_ctl sv w) (\<lambda>ep. v01_loop sv rs RunLoop_RUN ep w)"

section \<open>Version 0.1.5\<close>

text \<open>
  Every request is served by a detached thread, in the two steps of \<open>ThreadFunc\<close>: the storage, then the
  reply.  A run is a sequence of rounds of the loop and steps of the threads, in any order.
\<close>

datatype 'd job = ToServe 'd | ToReply 'd | JobEnded

record ('w, 'd) v015 =
  v015_world :: 'w
  v015_monitor :: Epoll
  jobs :: "'d job list"
  in_loop :: bool

definition v015_ThreadFunc_serve :: "('w, 'd) services \<Rightarrow> 'd \<Rightarrow> 'w \<Rightarrow> ('d job \<times> 'w) res" where
  "v015_ThreadFunc_serve sv data w =
     bindE (m_type sv data) (\<lambda>type.
     if type = DISCONNECT then Inr (JobEnded, w)
     else
       bindE (if type = READ then StorageRead sv data w
              else if type = WRITE then StorageWrite sv data w
              else Inr (data, w)) (\<lambda>(data, w). Inr (ToReply data, w)))"

definition v015_ThreadFunc :: "('w, 'd) services \<Rightarrow> 'd job \<Rightarrow> 'w \<Rightarrow> ('d job \<times> 'w) res" where
  "v015_ThreadFunc sv j w =
     (case j of
        ToServe data \<Rightarrow> v015_ThreadFunc_serve sv data w
      | ToReply data \<Rightarrow> bindE (SendReply sv data w) (\<lambda>w. Inr (JobEnded, w))
      | JobEnded \<Rightarrow> Inr (JobEnded, w))"

definition v015_round :: "('w, 'd) services \<Rightarrow> round \<Rightarrow> ('w, 'd) v015 \<Rightarrow> ('w, 'd) v015 res" where
  "v015_round sv r s =
     bindE (wait_input r (v015_monitor s)) (\<lambda>(ep, input).
     let s = s\<lparr>v015_monitor := ep\<rparr>; stop = (\<lambda>s. bindE (Disconnect sv (v015_world s)) (\<lambda>w.
           Inr (s\<lparr>v015_world := w, in_loop := False\<rparr>)))
     in case input of
          Some q \<Rightarrow> if q then stop s else Inr s
        | None \<Rightarrow>
            bindE (ReceiveRequest sv (v015_world s)) (\<lambda>(data, w).
            let s = s\<lparr>v015_world := w\<rparr> in
            bindE (m_type sv data) (\<lambda>type.
            if type = DISCONNECT then stop s else Inr (s\<lparr>jobs := jobs s @ [ToServe data]\<rparr>))))"

definition v015_thread :: "('w, 'd) services \<Rightarrow> nat \<Rightarrow> ('w, 'd) v015 \<Rightarrow> ('w, 'd) v015 res" where
  "v015_thread sv i s =
     bindE (v015_ThreadFunc sv (jobs s ! i) (v015_world s)) (\<lambda>(j, w).
     Inr (s\<lparr>v015_world := w, jobs := (jobs s)[i := j]\<rparr>))"

text \<open>A run, with the rounds of the loop in it.\<close>

inductive v015_run :: "('w, 'd) services \<Rightarrow> ('w, 'd) v015 \<Rightarrow> round list \<Rightarrow> ('w, 'd) v015 \<Rightarrow> bool" for sv s0 where
  start: "v015_run sv s0 [] s0"
| round: "v015_run sv s0 rs s \<Longrightarrow> in_loop s \<Longrightarrow> v015_round sv r s = Inr s' \<Longrightarrow> v015_run sv s0 (rs @ [r]) s'"
| thread: "v015_run sv s0 rs s \<Longrightarrow> i < length (jobs s) \<Longrightarrow> jobs s ! i \<noteq> JobEnded \<Longrightarrow> v015_thread sv i s = Inr s' \<Longrightarrow>
    v015_run sv s0 rs s'"

definition v015_start ::
  "('w, 'd) services \<Rightarrow> int + int \<Rightarrow> (int \<Rightarrow> int option) \<Rightarrow> 'w \<Rightarrow> ('w, 'd) v015 res" where
  "v015_start sv epoll_create epoll_ctl w =
     bindE (open_monitor epoll_create epoll_ctl sv w) (\<lambda>ep.
     Inr \<lparr>v015_world = w, v015_monitor = ep, jobs = [], in_loop = True\<rparr>)"

text \<open>How \<open>RunGreenCloude\<close> may end: by an exception, or with the loop, when threads may still run.\<close>

inductive v015_ends ::
  "('w, 'd) services \<Rightarrow> int + int \<Rightarrow> (int \<Rightarrow> int option) \<Rightarrow> 'w \<Rightarrow> unit res \<Rightarrow> bool"
  for sv epoll_create epoll_ctl w where
  no_monitor: "v015_start sv epoll_create epoll_ctl w = Inl f \<Longrightarrow> v015_ends sv epoll_create epoll_ctl w (Inl f)"
| round_fails: "v015_start sv epoll_create epoll_ctl w = Inr s0 \<Longrightarrow> v015_run sv s0 rs s \<Longrightarrow> in_loop s \<Longrightarrow>
    v015_round sv r s = Inl f \<Longrightarrow> v015_ends sv epoll_create epoll_ctl w (Inl f)"
| loop_left: "v015_start sv epoll_create epoll_ctl w = Inr s0 \<Longrightarrow> v015_run sv s0 rs s \<Longrightarrow> \<not> in_loop s \<Longrightarrow>
    v015_ends sv epoll_create epoll_ctl w (Inr ())"

section \<open>Versions 0.2 and 0.2.5\<close>

text \<open>A task is its key with the request; the tasks registered are those of \<open>AddTasksToFactory\<close>.\<close>

definition v02_creators :: "(FactoryKey \<times> ('d \<Rightarrow> FactoryKey \<times> 'd)) list" where
  "v02_creators = map (\<lambda>k. (k, Pair k)) [READ, WRITE, FLUSH, TRIM, BAD_REQUEST]"

text \<open>The loop adds to what the pool is given; it ends by \<open>q\<close> or a request to disconnect.\<close>

fun v02_loop ::
  "('w, 'd) services \<Rightarrow> (FactoryKey, 'd, FactoryKey \<times> 'd) factory \<Rightarrow> round list \<Rightarrow> Epoll \<Rightarrow> 'w \<Rightarrow>
   (FactoryKey \<times> 'd) main_op list \<Rightarrow> ('w \<times> (FactoryKey \<times> 'd) main_op list) res" where
  "v02_loop sv fac [] ep w pool = Inl Would_Block"
| "v02_loop sv fac (r # rs) ep w pool =
     bindE (wait_input r ep) (\<lambda>(ep, input).
     case input of
       Some q \<Rightarrow> if q then bindE (Disconnect sv w) (\<lambda>w. Inr (w, pool)) else v02_loop sv fac rs ep w pool
     | None \<Rightarrow>
         bindE (ReceiveRequest sv w) (\<lambda>(data, w).
         bindE (m_type sv data) (\<lambda>type.
         if type = DISCONNECT then bindE (Disconnect sv w) (\<lambda>w. Inr (w, pool))
         else bindE (Factory_Create fac type data) (\<lambda>task.
              v02_loop sv fac rs ep w (pool @ AddTask_ops (UserTask MEDIUM task))))))"

text \<open>At the end the destructor of the local pool stops it.\<close>

definition v02_RunGreenCloude ::
  "nat \<Rightarrow> ('w, 'd) services \<Rightarrow> int + int \<Rightarrow> (int \<Rightarrow> int option) \<Rightarrow> round list \<Rightarrow> 'w \<Rightarrow>
   ('w \<times> (FactoryKey \<times> 'd) main_op list) res" where
  "v02_RunGreenCloude threads sv epoll_create epoll_ctl rs w =
     bindE (open_monitor epoll_create epoll_ctl sv w) (\<lambda>ep.
     bindE (v02_loop sv (add_creators v02_creators []) rs ep w []) (\<lambda>(w, pool).
     Inr (w, pool @ ThreadPool_dtor_ops True (CheackNum threads))))"

text \<open>
  Version 0.2.5 has a monitor of the plugin directory and a loader around the loop, which end before
  the pool does; \<open>monitor_thread\<close> is what the thread of the monitor makes of the subscriptions meanwhile.
  The factory, which \<open>ReleaseResources\<close> destroys at the end, is not used after the loop.
\<close>

definition v025_RunGreenCloude ::
  "nat \<Rightarrow> ('w, 'd) services \<Rightarrow> int + int \<Rightarrow> (int \<Rightarrow> int option) \<Rightarrow> round list \<Rightarrow> 'w \<Rightarrow>
   (string bus \<Rightarrow> string bus res) \<Rightarrow> ('h option \<Rightarrow> bool) \<Rightarrow> (string \<Rightarrow> 'h option) \<Rightarrow>
   ('w \<times> (FactoryKey \<times> 'd) main_op list \<times> string list) res" where
  "v025_RunGreenCloude threads sv epoll_create epoll_ctl rs w monitor_thread dlclose_fails dlopen =
     bindE (Epoll_ctor epoll_create 1) (\<lambda>ep.
     bindE (DL_Loader_ctor 0 0 (new_Dispatcher 0 empty_bus)) (\<lambda>(observer, subject).
     bindE (Epoll_Add (epoll_ctl 0) 0 ep) (\<lambda>ep.
     bindE (Epoll_Add (epoll_ctl (GetReqFd sv w)) (GetReqFd sv w) ep) (\<lambda>ep.
     bindE (monitor_thread subject) (\<lambda>subject.
     bindE (v02_loop sv (add_creators v02_creators []) rs ep w []) (\<lambda>(w, pool).
     bindE (DL_Loader_dtor dlclose_fails 0 (loader_run dlopen 0 (trace subject) observer) subject) (\<lambda>(errors, subject).
     bindE (Dispatcher_dtor passive_observers 0 subject) (\<lambda>subject.
     Inr (w, pool @ ThreadPool_dtor_ops True (CheackNum threads), errors)))))))))"

section \<open>Versions 0.3 and 0.4\<close>

text \<open>\<open>AddTasksToReqEngine\<close> of both: the tasks of version 0.5 without the one for the replies of slaves.\<close>

definition v03_creators :: "(FactoryKey \<times> (TaskInfo \<Rightarrow> master_task)) list" where
  "v03_creators =
     [(Q_EXIT, STDINExit), (IGNORE, STDINIgnore), (READ, NBDRead), (WRITE, NBDWrite),
      (DISCONNECT, NBDDisconnect), (FLUSH, NBDFlush), (TRIM, NBDTrim), (BAD_REQUEST, NBDBadRequest)]"

text \<open>\<open>NBDGateWay\<close> of version 0.3 is not among the sources: it is an argument.\<close>

definition v03_RunGreenCloude ::
  "('w, FactoryKey, TaskInfo) GateWay \<Rightarrow> ('w, FactoryKey, TaskInfo) GateWay \<Rightarrow> int + int \<Rightarrow> (int \<Rightarrow> int option) \<Rightarrow>
   (int + int list) list \<Rightarrow> 'w \<Rightarrow> (('w, FactoryKey, TaskInfo, master_task) RequestEngine \<times> 'w) res" where
  "v03_RunGreenCloude stdin nbd epoll_create epoll_ctl answers w =
     bindE (RequestEngine_ctor epoll_create) (\<lambda>req_eng.
     bindE (add_gateways epoll_ctl w [stdin, nbd] (add_tasks v03_creators req_eng)) (\<lambda>req_eng.
     bindE (RequestEngine_Run answers req_eng w) (\<lambda>(req_eng, _, w). Inr (req_eng, w))))"

definition v04_RunGreenCloude ::
  "nat \<Rightarrow> nbd_abi \<Rightarrow> int + int \<Rightarrow> (int \<Rightarrow> int option) \<Rightarrow> (int + int list) list \<Rightarrow> master_world \<Rightarrow>
   (master_engine \<times> master_world) res" where
  "v04_RunGreenCloude threads abi epoll_create epoll_ctl answers w =
     bindE (RequestEngine_ctor epoll_create) (\<lambda>req_eng.
     bindE (add_gateways epoll_ctl w [stdin_gateway, nbd_gateway abi] (add_tasks v03_creators req_eng)) (\<lambda>req_eng.
     bindE (RequestEngine_Run answers req_eng w) (\<lambda>(req_eng, _, w).
     Inr (RequestEngine_dtor threads req_eng, w))))"

section \<open>The services of a driver of the kernel and a storage\<close>

record 'st old_world =
  ow_driver :: NBDDriverProxy
  ow_ios :: "io list"
  ow_in :: "byte list"
  ow_out :: "cell list"
  ow_calls :: "nbd_call list"
  ow_storage :: 'st

definition driver_services ::
  "nbd_abi \<Rightarrow> (nbd_call \<Rightarrow> bool) \<Rightarrow> ('st \<Rightarrow> DriverData \<Rightarrow> ('st \<times> DriverData) res) \<Rightarrow>
   ('st \<Rightarrow> DriverData \<Rightarrow> ('st \<times> DriverData) res) \<Rightarrow> ('st old_world, DriverData) services" where
  "driver_services abi ioctl storage_write storage_read =
     \<lparr>GetReqFd = (\<lambda>w. NBDDriverProxy_GetReqFd (ow_driver w)),
      ReceiveRequest = (\<lambda>w. bindE (NBDDriverProxy_ReceiveRequest abi (ow_ios w) (ow_in w)) (\<lambda>(data, ios, inp).
        Inr (data, w\<lparr>ow_ios := ios, ow_in := inp\<rparr>))),
      SendReply = (\<lambda>data w. bindE (NBDDriverProxy_SendReply abi (ow_ios w) (ow_out w) data) (\<lambda>(ios, out).
        Inr (w\<lparr>ow_ios := ios, ow_out := out\<rparr>))),
      Disconnect = (\<lambda>w. bindE (NBDDriverProxy_Disconnect ioctl (ow_driver w)) (\<lambda>(drv, calls).
        Inr (w\<lparr>ow_driver := drv, ow_calls := ow_calls w @ calls\<rparr>))),
      StorageRead = (\<lambda>data w. bindE (storage_read (ow_storage w) data) (\<lambda>(st, data). Inr (data, w\<lparr>ow_storage := st\<rparr>))),
      StorageWrite = (\<lambda>data w. bindE (storage_write (ow_storage w) data) (\<lambda>(st, data). Inr (data, w\<lparr>ow_storage := st\<rparr>))),
      m_type = (\<lambda>data. val (m_key data))\<rparr>"

section \<open>The programs\<close>

text \<open>
  \<open>main\<close> of the versions 0.1 to 0.3: \<open>number i\<close> is what \<open>std::stoull\<close> makes of the argument \<open>i\<close>, \<open>None\<close> where
  it throws, which no handler catches.
\<close>

definition serve_device ::
  "program_env \<Rightarrow> (64 word \<Rightarrow> 'st res) \<Rightarrow> (NBDDriverProxy \<Rightarrow> nbd_call list \<Rightarrow> 'st \<Rightarrow> 'r res) \<Rightarrow> 64 word \<Rightarrow>
   (NBDDriverProxy \<times> nbd_call list) res \<Rightarrow> int res" where
  "serve_device pe new_storage run storage_size new_driver =
     (case new_driver of
        Inl f \<Rightarrow> main_handlers (Inl Null_Deref) (Inl f :: unit res)
      | Inr (driver, calls) \<Rightarrow>
          main_handlers (bindE (NBDDriverProxy_Disconnect (pe_ioctl pe) driver) (\<lambda>_. Inr ()))
            (bindE (new_storage storage_size) (run driver calls)))"

definition old_main ::
  "(64 word \<Rightarrow> 'st res) \<Rightarrow> (NBDDriverProxy \<Rightarrow> nbd_call list \<Rightarrow> 'st \<Rightarrow> 'r res) \<Rightarrow> program_env \<Rightarrow>
   (nat \<Rightarrow> 64 word option) \<Rightarrow> int res" where
  "old_main new_storage run pe number =
     (case MainThreadSetSignals (pe_sys pe) of
        Inl f \<Rightarrow> main_handlers (Inl Null_Deref) (Inl f :: unit res)
      | Inr _ \<Rightarrow>
          if pe_ac pe = 3 then
            (case number 1 of
               None \<Rightarrow> Inl (Logic_Error ''stoull'')
             | Some sz \<Rightarrow>
                 let storage_size = sz * CONVTER_TO_MB in
                 serve_device pe new_storage run storage_size
                   (NBDDriverProxy_ctor (pe_ioctl pe) (pe_socket_pair pe) (pe_device_fd pe) storage_size))
          else if pe_ac pe = 4 then
            (case (number 1, number 2) of
               (Some blk_size, Some num_of_blocks) \<Rightarrow>
                 serve_device pe new_storage run (blk_size * num_of_blocks)
                   (NBDDriverProxy_ctor_blocks (pe_ioctl pe) (pe_socket_pair pe) (pe_device_fd pe) blk_size num_of_blocks)
             | _ \<Rightarrow> Inl (Logic_Error ''stoull''))
          else Inl (Exit ARGUMENTS))"

definition old_start :: "io list \<Rightarrow> byte list \<Rightarrow> NBDDriverProxy \<Rightarrow> nbd_call list \<Rightarrow> 'st \<Rightarrow> 'st old_world" where
  "old_start ios inp driver calls st =
     \<lparr>ow_driver = driver, ow_ios = ios, ow_in = inp, ow_out = [], ow_calls = calls, ow_storage = st\<rparr>"

definition v01_main ::
  "nbd_abi \<Rightarrow> program_env \<Rightarrow> (nat \<Rightarrow> 64 word option) \<Rightarrow> round list \<Rightarrow> io list \<Rightarrow> byte list \<Rightarrow> int res" where
  "v01_main abi pe number rs ios inp =
     old_main (\<lambda>sz. Inr (MemoryStorage_ctor sz))
       (\<lambda>driver calls st.
          v01_RunGreenCloude (driver_services abi (pe_ioctl pe) MemoryStorage_Write MemoryStorage_Read)
            (pe_epoll_create pe) (pe_epoll_ctl pe) rs (old_start ios inp driver calls st))
       pe number"

text \<open>
  Version 0.1.5: \<open>ended\<close> chooses how \<open>RunGreenCloude\<close> ends from its world, one of the ends that \<open>v015_ends\<close>
  allows.
\<close>

definition v015_main ::
  "bool \<Rightarrow> (DiskStorage old_world \<Rightarrow> unit res) \<Rightarrow> program_env \<Rightarrow> (nat \<Rightarrow> 64 word option) \<Rightarrow> io list \<Rightarrow> byte list \<Rightarrow> int res" where
  "v015_main open_ok ended pe number ios inp =
     old_main (DiskStorage_ctor open_ok)
       (\<lambda>driver calls st. ended (old_start ios inp driver calls st)) pe number"

definition v02_main ::
  "nbd_abi \<Rightarrow> bool \<Rightarrow> nat \<Rightarrow> program_env \<Rightarrow> (nat \<Rightarrow> 64 word option) \<Rightarrow> round list \<Rightarrow> io list \<Rightarrow> byte list \<Rightarrow> int res" where
  "v02_main abi open_ok threads pe number rs ios inp =
     old_main (DiskStorage_ctor open_ok)
       (\<lambda>driver calls st.
          v02_RunGreenCloude threads (driver_services abi (pe_ioctl pe) DiskStorage_Write DiskStorage_Read)
            (pe_epoll_create pe) (pe_epoll_ctl pe) rs (old_start ios inp driver calls st))
       pe number"

definition v025_main ::
  "nbd_abi \<Rightarrow> bool \<Rightarrow> nat \<Rightarrow> program_env \<Rightarrow> (nat \<Rightarrow> 64 word option) \<Rightarrow> round list \<Rightarrow> io list \<Rightarrow> byte list \<Rightarrow>
   (string bus \<Rightarrow> string bus res) \<Rightarrow> ('h option \<Rightarrow> bool) \<Rightarrow> (string \<Rightarrow> 'h option) \<Rightarrow> int res" where
  "v025_main abi open_ok threads pe number rs ios inp monitor_thread dlclose_fails dlopen =
     old_main (DiskStorage_ctor open_ok)
       (\<lambda>driver calls st.
          v025_RunGreenCloude threads (driver_services abi (pe_ioctl pe) DiskStorage_Write DiskStorage_Read)
            (pe_epoll_create pe) (pe_epoll_ctl pe) rs (old_start ios inp driver calls st)
            monitor_thread dlclose_fails dlopen)
       pe number"

definition v03_main ::
  "('w, FactoryKey, TaskInfo) GateWay \<Rightarrow> ('w, FactoryKey, TaskInfo) GateWay \<Rightarrow> (NBDDriverProxy \<Rightarrow> DiskStorage \<Rightarrow> 'w) \<Rightarrow>
   bool \<Rightarrow> program_env \<Rightarrow> (nat \<Rightarrow> 64 word option) \<Rightarrow> (int + int list) list \<Rightarrow> int res" where
  "v03_main stdin nbd world open_ok pe number answers =
     old_main (DiskStorage_ctor open_ok)
       (\<lambda>driver calls st.
          v03_RunGreenCloude stdin nbd (pe_epoll_create pe) (pe_epoll_ctl pe) answers (world driver st))
       pe number"

text \<open>Version 0.4 takes its sizes from the configuration file, in blocks where the size is 0.\<close>

definition v04_main ::
  "program_env \<Rightarrow> 64 word \<Rightarrow> 64 word \<Rightarrow> bool \<Rightarrow> byte list \<Rightarrow>
   (NBDDriverProxy \<Rightarrow> nbd_call list \<Rightarrow> MmapStorage \<Rightarrow> 'r res) \<Rightarrow> int res" where
  "v04_main pe blk_size num_of_blocks mmap_ok file run =
     (case MainThreadSetSignals (pe_sys pe) of
        Inl f \<Rightarrow> main_handlers (Inl Null_Deref) (Inl f :: unit res)
      | Inr _ \<Rightarrow>
          if 1 < pe_ac pe then
            if pe_storage_size pe \<noteq> 0 then
              let storage_size = pe_storage_size pe * CONVTER_TO_MB in
              serve_device pe (\<lambda>sz. Inr (MmapStorage_ctor mmap_ok file sz)) run storage_size
                (NBDDriverProxy_ctor (pe_ioctl pe) (pe_socket_pair pe) (pe_device_fd pe) storage_size)
            else
              serve_device pe (\<lambda>sz. Inr (MmapStorage_ctor mmap_ok file sz)) run (blk_size * num_of_blocks)
                (NBDDriverProxy_ctor_blocks (pe_ioctl pe) (pe_socket_pair pe) (pe_device_fd pe) blk_size num_of_blocks)
          else Inl (Exit ARGUMENTS))"

section \<open>Services that simulate others\<close>

text \<open>
  The services of two programs, with related worlds and requests: whatever the first ones do, the second ones do as well, with
  related results.
\<close>

definition simulates ::
  "('w \<Rightarrow> 'v \<Rightarrow> bool) \<Rightarrow> ('d \<Rightarrow> 'e \<Rightarrow> bool) \<Rightarrow> ('w, 'd) services \<Rightarrow> ('v, 'e) services \<Rightarrow> bool" where
  "simulates R D sv sv' \<longleftrightarrow> (\<forall>w v. R w v \<longrightarrow> GetReqFd sv w = GetReqFd sv' v \<and>
     (\<forall>d w'. ReceiveRequest sv w = Inr (d, w') \<longrightarrow> (\<exists>e v'. ReceiveRequest sv' v = Inr (e, v') \<and> D d e \<and> R w' v')) \<and>
     (\<forall>w'. Disconnect sv w = Inr w' \<longrightarrow> (\<exists>v'. Disconnect sv' v = Inr v' \<and> R w' v')) \<and>
     (\<forall>d e. D d e \<longrightarrow> m_type sv d = m_type sv' e \<and>
       (\<forall>w'. SendReply sv d w = Inr w' \<longrightarrow> (\<exists>v'. SendReply sv' e v = Inr v' \<and> R w' v')) \<and>
       (\<forall>d' w'. m_type sv d = Inr READ \<and> StorageRead sv d w = Inr (d', w') \<longrightarrow>
          (\<exists>e' v'. StorageRead sv' e v = Inr (e', v') \<and> D d' e' \<and> R w' v')) \<and>
       (\<forall>d' w'. m_type sv d = Inr WRITE \<and> StorageWrite sv d w = Inr (d', w') \<longrightarrow>
          (\<exists>e' v'. StorageWrite sv' e v = Inr (e', v') \<and> D d' e' \<and> R w' v'))))"

lemma simulatesD:
  assumes "simulates R D sv sv'" and "R w v"
  shows "GetReqFd sv w = GetReqFd sv' v"
    and "ReceiveRequest sv w = Inr (d, w') \<Longrightarrow> \<exists>e v'. ReceiveRequest sv' v = Inr (e, v') \<and> D d e \<and> R w' v'"
    and "Disconnect sv w = Inr w' \<Longrightarrow> \<exists>v'. Disconnect sv' v = Inr v' \<and> R w' v'"
    and "D d e \<Longrightarrow> m_type sv d = m_type sv' e"
    and "D d e \<Longrightarrow> SendReply sv d w = Inr w' \<Longrightarrow> \<exists>v'. SendReply sv' e v = Inr v' \<and> R w' v'"
    and "D d e \<Longrightarrow> m_type sv d = Inr READ \<Longrightarrow> StorageRead sv d w = Inr (d', w') \<Longrightarrow>
      \<exists>e' v'. StorageRead sv' e v = Inr (e', v') \<and> D d' e' \<and> R w' v'"
    and "D d e \<Longrightarrow> m_type sv d = Inr WRITE \<Longrightarrow> StorageWrite sv d w = Inr (d', w') \<Longrightarrow>
      \<exists>e' v'. StorageWrite sv' e v = Inr (e', v') \<and> D d' e' \<and> R w' v'"
  using assms unfolding simulates_def by blast+

lemma simulates_itself: "simulates (=) (=) sv sv"
  by (simp add: simulates_def)

section \<open>The serial loop as a schedule of the threads\<close>

lemma v015_run_trans: "v015_run sv s1 qs s2 \<Longrightarrow> v015_run sv s0 rs s1 \<Longrightarrow> v015_run sv s0 (rs @ qs) s2"
  by (induction rule: v015_run.induct) (auto intro: v015_run.intros simp flip: append_assoc)

lemma v015_run_round: "in_loop s \<Longrightarrow> v015_round sv r s = Inr s' \<Longrightarrow> v015_run sv s [r] s'"
  using v015_run.round [OF v015_run.start, of s sv r s'] by simp

lemma v015_run_thread:
  "v015_run sv s rs s1 \<Longrightarrow> i < length (jobs s1) \<Longrightarrow> jobs s1 ! i \<noteq> JobEnded \<Longrightarrow> v015_thread sv i s1 = Inr s2 \<Longrightarrow>
   v015_run sv s rs s2"
  by (rule v015_run.thread)

text \<open>A request that does not disconnect is served by a thread at once just as by the serial loop.\<close>

lemma serve_simulated:
  assumes sim: "simulates R D sv sv'" and "R w v" and "D data data'"
    and "v01_ThreadFunc sv data w = Inr (stop, w')" and "m_type sv data = Inr type" and "type \<noteq> DISCONNECT"
  shows "stop = RunLoop_RUN \<and> (\<exists>e v1 v'. v015_ThreadFunc_serve sv' data' v = Inr (ToReply e, v1) \<and>
    SendReply sv' e v1 = Inr v' \<and> R w' v')"
proof -
  note S = simulatesD [OF sim]
  have type': "m_type sv' data' = Inr type" using S(4) [OF assms(2,3)] assms(5) by simp
  from assms(4-6) obtain d1 w1 where
    served: "(if type = READ then StorageRead sv data w else if type = WRITE then StorageWrite sv data w
      else Inr (data, w)) = Inr (d1, w1)"
    and reply: "SendReply sv d1 w1 = Inr w'" and stop: "stop = RunLoop_RUN"
    by (auto simp: v01_ThreadFunc_def bindE_Inr_iff)
  have "\<exists>e v1. (if type = READ then StorageRead sv' data' v else if type = WRITE then StorageWrite sv' data' v
      else Inr (data', v)) = Inr (e, v1) \<and> D d1 e \<and> R w1 v1"
    using served S(6,7) [OF assms(2,3)] assms(2,3,5) by (auto split: if_splits)
  then obtain e v1 where e: "(if type = READ then StorageRead sv' data' v else if type = WRITE then StorageWrite sv' data' v
      else Inr (data', v)) = Inr (e, v1)" "D d1 e" "R w1 v1" by blast
  moreover from S(5) [OF e(3,2) reply] obtain v' where "SendReply sv' e v1 = Inr v'" "R w' v'" by blast
  ultimately show ?thesis using type' assms(6) stop by (auto simp: v015_ThreadFunc_serve_def)
qed

lemma thread_at_once:
  assumes "v015_ThreadFunc_serve sv data (v015_world s) = Inr (ToReply e, v1)" and "SendReply sv e v1 = Inr v'"
  shows "v015_run sv (s\<lparr>jobs := jobs s @ [ToServe data]\<rparr>) [] (s\<lparr>v015_world := v', jobs := jobs s @ [JobEnded]\<rparr>)"
proof -
  let ?i = "length (jobs s)" and ?s = "s\<lparr>jobs := jobs s @ [ToServe data]\<rparr>"
  have "v015_thread sv ?i ?s = Inr (s\<lparr>v015_world := v1, jobs := jobs s @ [ToReply e]\<rparr>)"
    using assms(1) by (simp add: v015_thread_def v015_ThreadFunc_def)
  then have 1: "v015_run sv ?s [] (s\<lparr>v015_world := v1, jobs := jobs s @ [ToReply e]\<rparr>)"
    by (intro v015_run.thread [OF v015_run.start, where i = ?i]) simp_all
  have "v015_thread sv ?i (s\<lparr>v015_world := v1, jobs := jobs s @ [ToReply e]\<rparr>) =
      Inr (s\<lparr>v015_world := v', jobs := jobs s @ [JobEnded]\<rparr>)"
    using assms(2) by (simp add: v015_thread_def v015_ThreadFunc_def)
  then show ?thesis by (intro v015_run.thread [OF 1, where i = ?i]) simp_all
qed

lemma v01_loop_stopped: "v01_loop sv rs RunLoop_STOP ep w = Inr w"
  by (cases rs) simp_all

lemma serial_schedule:
  assumes sim: "simulates R D sv sv'"
  shows "v01_loop sv rs RunLoop_RUN ep w = Inr w' \<Longrightarrow> R w (v015_world s) \<Longrightarrow> v015_monitor s = ep \<Longrightarrow> in_loop s \<Longrightarrow>
    \<forall>j \<in> set (jobs s). j = JobEnded \<Longrightarrow>
    \<exists>used rest s'. rs = used @ rest \<and> v015_run sv' s used s' \<and> R w' (v015_world s') \<and> \<not> in_loop s' \<and>
      (\<forall>j \<in> set (jobs s'). j = JobEnded)"
proof (induction rs arbitrary: ep w s)
  case (Cons r rs)
  note S = simulatesD [OF sim Cons.prems(2)]
  from Cons.prems obtain ep' input where wait: "wait_input r ep = Inr (ep', input)" by (auto simp: bindE_Inr_iff)
  let ?s = "s\<lparr>v015_monitor := ep'\<rparr>"
  have last: ?case if "v015_round sv' r s = Inr s1" "R w' (v015_world s1)" "\<not> in_loop s1" "jobs s1 = jobs s" for s1
    using v015_run_round [OF Cons.prems(4) that(1)] that(2-4) Cons.prems(5)
    by (intro exI [of _ "[r]"] exI [of _ rs] exI [of _ s1]) simp
  have go_on: ?case if "v015_run sv' s [r] s1" "v01_loop sv rs RunLoop_RUN ep' w1 = Inr w'" "R w1 (v015_world s1)"
    "v015_monitor s1 = ep'" "in_loop s1" "\<forall>j \<in> set (jobs s1). j = JobEnded" for s1 w1
  proof -
    from Cons.IH [OF that(2-6)] obtain used rest s' where "rs = used @ rest" "v015_run sv' s1 used s'"
      "R w' (v015_world s')" "\<not> in_loop s'" "\<forall>j \<in> set (jobs s'). j = JobEnded" by blast
    with v015_run_trans [OF this(2) that(1)] show ?thesis by (intro exI [of _ "r # used"] exI [of _ rest] exI [of _ s']) simp
  qed
  show ?case
  proof (cases input)
    case (Some q)
    show ?thesis
    proof (cases q)
      case True
      with Some wait Cons.prems(1) have "Disconnect sv w = Inr w'" by simp
      from S(3) [OF this] obtain v' where v': "Disconnect sv' (v015_world s) = Inr v'" "R w' v'" by blast
      with True Some wait Cons.prems(3) show ?thesis
        by (intro last [of "?s\<lparr>v015_world := v', in_loop := False\<rparr>"]) (simp_all add: v015_round_def Let_def)
    next
      case False
      with Some wait Cons.prems have "v015_round sv' r s = Inr ?s" "v01_loop sv rs RunLoop_RUN ep' w = Inr w'"
        by (simp_all add: v015_round_def Let_def)
      with Cons.prems v015_run_round [OF Cons.prems(4)] show ?thesis by (intro go_on [of ?s w]) simp_all
    qed
  next
    case None
    with wait Cons.prems(1) obtain data w1 stop w2 where recv: "ReceiveRequest sv w = Inr (data, w1)"
      and serve: "v01_ThreadFunc sv data w1 = Inr (stop, w2)" and rest: "v01_loop sv rs stop ep' w2 = Inr w'"
      by (auto simp: bindE_Inr_iff)
    from S(2) [OF recv] obtain data' v1 where recv': "ReceiveRequest sv' (v015_world s) = Inr (data', v1)"
      and D: "D data data'" and R: "R w1 v1" by blast
    note S1 = simulatesD [OF sim R]
    from serve obtain type where type: "m_type sv data = Inr type" by (auto simp: v01_ThreadFunc_def bindE_Inr_iff)
    then have type': "m_type sv' data' = Inr type" using S1(4) [OF D] by simp
    let ?s1 = "?s\<lparr>v015_world := v1\<rparr>"
    show ?thesis
    proof (cases "type = DISCONNECT")
      case True
      with serve type rest have "Disconnect sv w1 = Inr w'"
        by (auto simp: v01_ThreadFunc_def bindE_Inr_iff v01_loop_stopped)
      from S1(3) [OF this] obtain v' where "Disconnect sv' v1 = Inr v'" "R w' v'" by blast
      with None wait Cons.prems(3) recv' type' True show ?thesis
        by (intro last [of "?s\<lparr>v015_world := v', in_loop := False\<rparr>"]) (simp_all add: v015_round_def Let_def)
    next
      case False
      from serve_simulated [OF sim R D serve type False] obtain e v2 v' where stop: "stop = RunLoop_RUN"
        and e: "v015_ThreadFunc_serve sv' data' v1 = Inr (ToReply e, v2)" "SendReply sv' e v2 = Inr v'" "R w2 v'" by blast
      have "v015_round sv' r s = Inr (?s1\<lparr>jobs := jobs ?s1 @ [ToServe data']\<rparr>)"
        using None wait Cons.prems(3) recv' type' False by (simp add: v015_round_def Let_def)
      note one = v015_run_round [OF Cons.prems(4) this]
      let ?s2 = "?s1\<lparr>v015_world := v', jobs := jobs ?s1 @ [JobEnded]\<rparr>"
      have "v015_run sv' (?s1\<lparr>jobs := jobs ?s1 @ [ToServe data']\<rparr>) [] ?s2"
        using e by (intro thread_at_once) simp_all
      from v015_run_trans [OF this one] have "v015_run sv' s [r] ?s2" by simp
      then show ?thesis by (rule go_on [of ?s2 w2]) (use rest stop e(3) Cons.prems(4,5) in auto)
    qed
  qed
qed simp

lemma serial_run:
  assumes "simulates R D sv sv'" and "R w v" and "v01_RunGreenCloude sv epoll_create epoll_ctl rs w = Inr w'"
  shows "\<exists>used rest s0 s. rs = used @ rest \<and> v015_start sv' epoll_create epoll_ctl v = Inr s0 \<and> v015_run sv' s0 used s \<and>
    R w' (v015_world s) \<and> \<not> in_loop s \<and> (\<forall>j \<in> set (jobs s). j = JobEnded)"
proof -
  from assms(3) obtain ep where ep: "open_monitor epoll_create epoll_ctl sv w = Inr ep"
    and loop: "v01_loop sv rs RunLoop_RUN ep w = Inr w'"
    by (auto simp: v01_RunGreenCloude_def bindE_Inr_iff)
  have "open_monitor epoll_create epoll_ctl sv' v = Inr ep"
    using ep simulatesD(1) [OF assms(1,2)] by (simp add: open_monitor_def)
  moreover from serial_schedule [OF assms(1) loop, of "\<lparr>v015_world = v, v015_monitor = ep, jobs = [], in_loop = True\<rparr>"] assms(2)
  obtain used rest s where "rs = used @ rest" "R w' (v015_world s)" "\<not> in_loop s" "\<forall>j \<in> set (jobs s). j = JobEnded"
    "v015_run sv' \<lparr>v015_world = v, v015_monitor = ep, jobs = [], in_loop = True\<rparr> used s" by auto
  ultimately show ?thesis by (auto simp: v015_start_def)
qed

text \<open>Where the serial version ends normally, the threaded one may, too.\<close>

lemma serial_end_possible:
  assumes "v01_RunGreenCloude sv epoll_create epoll_ctl rs w = Inr w'"
  shows "v015_ends sv epoll_create epoll_ctl w (Inr ())"
  using serial_run [OF simulates_itself refl assms] by (auto intro: v015_ends.loop_left)

section \<open>The storages of the two versions\<close>

















section \<open>Requests that are received and then dropped\<close>

fun receive_all :: "('w, 'd) services \<Rightarrow> nat \<Rightarrow> 'w \<Rightarrow> ('d list \<times> 'w) res" where
  "receive_all sv 0 w = Inr ([], w)"
| "receive_all sv (Suc n) w =
     bindE (ReceiveRequest sv w) (\<lambda>(d, w). bindE (receive_all sv n w) (\<lambda>(ds, w). Inr (d # ds, w)))"

definition v02_task :: "('w, 'd) services \<Rightarrow> 'd \<Rightarrow> (FactoryKey \<times> 'd) TPTask" where
  "v02_task sv d = UserTask MEDIUM (case m_type sv d of Inr k \<Rightarrow> (k, d) | Inl _ \<Rightarrow> (IGNORE, d))"

lemma v02_create:
  "k \<in> {READ, WRITE, FLUSH, TRIM, BAD_REQUEST} \<Longrightarrow> Factory_Create (add_creators v02_creators []) k d = Inr (k, d)"
  by (auto simp: Factory_Create_def add_creators_def v02_creators_def Factory_Add_def Let_def)

lemma wait_input_ready:
  assumes "length (m_events ep) = 1" and "m_max_events ep = 1"
  shows "wait_input (Inr [fd], stt) ep =
    (if fd = 0 then bindE (HundelInputFD stt) (\<lambda>q. Inr (ep\<lparr>m_events := [fd]\<rparr>, Some q))
     else Inr (ep\<lparr>m_events := [fd]\<rparr>, None))"
proof -
  from assms(1) obtain e where "m_events ep = [e]" by (auto simp: length_Suc_conv)
  with assms(2) show ?thesis
    by (simp add: wait_input_def Epoll_Wait_def epoll_wait_def Epoll_index_def overwrite_def)
qed

lemma HundelInputFD_q: "HundelInputFD (Some (of_char (CHR ''q'') # bytes)) = Inr True"
  by (simp add: HundelInputFD_def byte_at_def overwrite_def take_Cons')

lemma v02_loop_requests:
  assumes "receive_all sv n w = Inr (ds, w1)" and "fd \<noteq> 0"
    and "\<forall>d \<in> set ds. \<exists>k \<in> {READ, WRITE, FLUSH, TRIM, BAD_REQUEST}. m_type sv d = Inr k"
    and "length (m_events ep) = 1" and "m_max_events ep = 1"
  shows "\<exists>ep'. length (m_events ep') = 1 \<and> m_max_events ep' = 1 \<and>
    v02_loop sv (add_creators v02_creators []) (replicate n (Inr [fd], None) @ rs) ep w pool =
    v02_loop sv (add_creators v02_creators []) rs ep' w1 (pool @ map (\<lambda>d. Push (v02_task sv d)) ds)"
  using assms
proof (induction n arbitrary: w ds ep pool)
  case (Suc n)
  then obtain d w' ds' where d: "ReceiveRequest sv w = Inr (d, w')" "receive_all sv n w' = Inr (ds', w1)" "ds = d # ds'"
    by (auto simp: bindE_Inr_iff)
  with Suc.prems(3) obtain k where k: "k \<in> {READ, WRITE, FLUSH, TRIM, BAD_REQUEST}" "m_type sv d = Inr k" by auto
  let ?ep = "ep\<lparr>m_events := [fd]\<rparr>"
  have "v02_loop sv (add_creators v02_creators []) (replicate (Suc n) (Inr [fd], None) @ rs) ep w pool =
      v02_loop sv (add_creators v02_creators []) (replicate n (Inr [fd], None) @ rs) ?ep w' (pool @ [Push (v02_task sv d)])"
    using wait_input_ready [OF Suc.prems(4,5), of fd None] Suc.prems(2) d(1) k v02_create [OF k(1), of d]
    by (auto simp: v02_task_def AddTask_ops_def)
  moreover obtain ep' where "length (m_events ep') = 1" "m_max_events ep' = 1"
    "v02_loop sv (add_creators v02_creators []) (replicate n (Inr [fd], None) @ rs) ?ep w' (pool @ [Push (v02_task sv d)]) =
     v02_loop sv (add_creators v02_creators []) rs ep' w1 ((pool @ [Push (v02_task sv d)]) @ map (\<lambda>d. Push (v02_task sv d)) ds')"
    using Suc.IH [OF d(2) Suc.prems(2), of ?ep "pool @ [Push (v02_task sv d)]"] Suc.prems(3,5) d(3) by auto
  ultimately show ?case using d(3) by auto
qed auto

section \<open>Properties\<close>











text \<open>A driver at the descriptor 4 whose requests are numbers, answered by their number.\<close>

definition ex_services :: "(nat list \<times> nat list, nat) services" where
  "ex_services =
     \<lparr>GetReqFd = (\<lambda>_. 4),
      ReceiveRequest = (\<lambda>(rq, rp). case rq of [] \<Rightarrow> Inl Would_Block | d # ds \<Rightarrow> Inr (d, (ds, rp))),
      SendReply = (\<lambda>d (rq, rp). Inr (rq, rp @ [d])), Disconnect = Inr,
      StorageRead = (\<lambda>d w. Inr (d, w)), StorageWrite = (\<lambda>d w. Inr (d, w)),
      m_type = (\<lambda>d. Inr (if d = 0 then DISCONNECT else READ))\<rparr>"

text \<open>
  In version 0.2 a \<open>q\<close> may leave requests of the kernel without a reply: whatever number of them was
  received and handed to the pool before, there is a run of the pool, which is stopped when the main
  loop has ended, in which none of them is ever executed.
\<close>

theorem v02_quit_drops_requests:
  assumes "\<And>fd. epoll_ctl fd = None" and "fd \<noteq> 0" and "receive_all sv n w = Inr (ds, w1)"
    and "\<forall>d \<in> set ds. \<exists>k \<in> {READ, WRITE, FLUSH, TRIM, BAD_REQUEST}. m_type sv d = Inr k"
    and "Disconnect sv w1 = Inr w2"
  shows "\<exists>pool. v02_RunGreenCloude threads sv (Inr ep) epoll_ctl
      (replicate n (Inr [fd], None) @ [(Inr [0], Some (of_char (CHR ''q'') # bytes))]) w = Inr (w2, pool) \<and>
    pool = map (\<lambda>d. Push (v02_task sv d)) ds @ Stop_ops (CheackNum threads) \<and>
    (\<exists>s0. pool_reaches (ThreadPool_ctor threads pool) s0 \<and> (\<forall>s. pool_reaches s0 s \<longrightarrow> executed s = []))"
proof -
  let ?quit = "(Inr [0], Some (of_char (CHR ''q'') # bytes)) :: round"
  let ?ts = "map (v02_task sv) ds"
  obtain ep0 where mon: "open_monitor (Inr ep) epoll_ctl sv w = Inr ep0"
    and ep0: "length (m_events ep0) = 1" "m_max_events ep0 = 1"
    using assms(1) by (simp add: open_monitor_def Epoll_ctor_def Epoll_Add_def)
  obtain ep1 where ep1: "length (m_events ep1) = 1" "m_max_events ep1 = 1"
    and loop: "v02_loop sv (add_creators v02_creators []) (replicate n (Inr [fd], None) @ [?quit]) ep0 w [] =
      v02_loop sv (add_creators v02_creators []) [?quit] ep1 w1 (map Push ?ts)"
    using v02_loop_requests [OF assms(3,2,4) ep0, of "[?quit]" "[]"] by (auto simp: comp_def)
  have "v02_loop sv (add_creators v02_creators []) [?quit] ep1 w1 (map Push ?ts) = Inr (w2, map Push ?ts)"
    using wait_input_ready [OF ep1, of 0] HundelInputFD_q [of bytes] assms(5) by simp
  with mon loop have "v02_RunGreenCloude threads sv (Inr ep) epoll_ctl (replicate n (Inr [fd], None) @ [?quit]) w =
      Inr (w2, map Push ?ts @ Stop_ops (CheackNum threads))"
    by (simp add: v02_RunGreenCloude_def ThreadPool_dtor_ops_def)
  moreover have "\<exists>s0. pool_reaches (stopping_pool threads ?ts) s0 \<and> (\<forall>s. pool_reaches s0 s \<longrightarrow> executed s = [])"
    by (rule stop_overtakes) (auto simp: v02_task_def)
  ultimately show ?thesis by (simp add: stopping_pool_def comp_def)
qed

theorem v02_quit_drops_requests_witness:
  "\<exists>pool. v02_RunGreenCloude 2 ex_services (Inr 3) (\<lambda>_. None)
      (replicate 2 (Inr [4], None) @ [(Inr [0], Some (of_char (CHR ''q'') # [10]))]) ([7, 8], []) = Inr (([], []), pool) \<and>
    pool = map (\<lambda>d. Push (v02_task ex_services d)) [7, 8] @ Stop_ops (CheackNum 2) \<and>
    (\<exists>s0. pool_reaches (ThreadPool_ctor 2 pool) s0 \<and> (\<forall>s. pool_reaches s0 s \<longrightarrow> executed s = []))"
  by (rule v02_quit_drops_requests [where ?w1.0 = "([], [])"])
     (simp_all add: ex_services_def numeral_2_eq_2)

end
