(* ===== verification/Critical_Section.thy ===== *)
theory Critical_Section
  imports GC_Prelude
begin

text \<open>
  The sections of the program that several tasks may enter and that a \<open>std::lock_guard\<close> protects
  (\<open>NBDDriverProxy::SendReply\<close>, the two operations of \<open>DiskStorage\<close>).  A section is a program \<open>act\<close>
  that goes on step by step from a control point \<open>'c\<close> on the shared state \<open>'s\<close> and ends with a result
  \<open>'r\<close>; what the system does in a step is the input \<open>'x\<close>.  The clients run in any interleaving.
  Whatever the section is, with the lock the effect is that of running the clients one after another.
\<close>

section \<open>Clients of a guarded section\<close>

type_synonym ('x, 'c, 's, 'r) action = "'x \<Rightarrow> 'c \<Rightarrow> 's \<Rightarrow> ('c + 'r) \<times> 's"

datatype ('c, 'r) client = Before 'c | Inside 'c | After 'r

record ('s, 'c, 'r) guarded =
  holder :: "nat option"
  clients :: "('c, 'r) client list"
  shared :: 's

definition guarded_init :: "'c list \<Rightarrow> 's \<Rightarrow> ('s, 'c, 'r) guarded" where
  "guarded_init cs s = \<lparr>holder = None, clients = map Before cs, shared = s\<rparr>"

text \<open>
  One step of the client \<open>i\<close>: the constructor of the \<open>lock_guard\<close>, which waits while another client
  holds the mutex, a step of the section, or its last step, with which the destructor of the
  \<open>lock_guard\<close> releases the mutex, by a return or by an exception.
\<close>

definition guarded_step :: "('x, 'c, 's, 'r) action \<Rightarrow> nat \<Rightarrow> 'x \<Rightarrow> ('s, 'c, 'r) guarded \<Rightarrow> ('s, 'c, 'r) guarded" where
  "guarded_step act i x g =
     (if i < length (clients g)
      then case clients g ! i of
          Before c \<Rightarrow>
            if holder g = None then g\<lparr>holder := Some i, clients := (clients g)[i := Inside c]\<rparr> else g
        | Inside c \<Rightarrow>
            (case act x c (shared g) of
               (Inl c', s) \<Rightarrow> g\<lparr>clients := (clients g)[i := Inside c'], shared := s\<rparr>
             | (Inr r, s) \<Rightarrow> g\<lparr>holder := None, clients := (clients g)[i := After r], shared := s\<rparr>)
        | After r \<Rightarrow> g
      else g)"

fun guarded_run :: "('x, 'c, 's, 'r) action \<Rightarrow> (nat \<times> 'x) list \<Rightarrow> ('s, 'c, 'r) guarded \<Rightarrow> ('s, 'c, 'r) guarded" where
  "guarded_run act [] g = g"
| "guarded_run act ((i, x) # sched) g = guarded_run act sched (guarded_step act i x g)"

lemma guarded_run_append [simp]: "guarded_run act (xs @ ys) g = guarded_run act ys (guarded_run act xs g)"
  by (induction act xs g rule: guarded_run.induct) simp_all

lemma guarded_init_simps [simp]:
  "holder (guarded_init cs s) = None" "clients (guarded_init cs s) = map Before cs"
  "shared (guarded_init cs s) = s"
  by (simp_all add: guarded_init_def)

section \<open>One client alone, and one after another\<close>

fun alone :: "('x, 'c, 's, 'r) action \<Rightarrow> 'x list \<Rightarrow> 'c \<Rightarrow> 's \<Rightarrow> ('c + 'r) \<times> 's" where
  "alone act [] c s = (Inl c, s)"
| "alone act (x # xs) c s =
     (case act x c s of (Inl c', s') \<Rightarrow> alone act xs c' s' | (Inr r, s') \<Rightarrow> (Inr r, s'))"

lemma alone_append:
  "alone act xs c s = (Inl c', s') \<Longrightarrow> alone act (xs @ ys) c s = alone act ys c' s'"
  by (induction act xs c s rule: alone.induct) (auto split: prod.splits sum.splits)

text \<open>\<open>serially act cs order s s'\<close>: the clients named in \<open>order\<close>, with their results, ran one after another.\<close>

inductive serially :: "('x, 'c, 's, 'r) action \<Rightarrow> 'c list \<Rightarrow> (nat \<times> 'r) list \<Rightarrow> 's \<Rightarrow> 's \<Rightarrow> bool"
  for act :: "('x, 'c, 's, 'r) action" and cs :: "'c list" where
  nobody: "serially act cs [] s s"
| next_one: "serially act cs order s s1 \<Longrightarrow> i < length cs \<Longrightarrow> alone act xs (cs ! i) s1 = (Inr r, s2) \<Longrightarrow>
     serially act cs (order @ [(i, r)]) s s2"

inductive_simps serially_Nil [simp]: "serially act cs [] s s'"
inductive_cases serially_snocE: "serially act cs (order @ [x]) s s'"

section \<open>Every interleaving is a serial run\<close>

text \<open>
  The state of the clients after the ones in \<open>order\<close> have left: nobody else has touched the shared
  state, apart from the holder of the mutex, who is at some point of its own run.
\<close>

definition serialized :: "('x, 'c, 's, 'r) action \<Rightarrow> 'c list \<Rightarrow> 's \<Rightarrow> (nat \<times> 'r) list \<Rightarrow> ('s, 'c, 'r) guarded \<Rightarrow> bool" where
  "serialized act cs s order g \<longleftrightarrow>
     length (clients g) = length cs \<and> distinct (map fst order) \<and>
     (\<forall>i r. (i, r) \<in> set order \<longleftrightarrow> i < length cs \<and> clients g ! i = After r) \<and>
     (\<forall>i < length cs. \<forall>c. clients g ! i = Before c \<longrightarrow> c = cs ! i) \<and>
     (\<forall>i < length cs. (\<exists>c. clients g ! i = Inside c) \<longleftrightarrow> holder g = Some i) \<and>
     (\<exists>s1. serially act cs order s s1 \<and>
        (case holder g of
           None \<Rightarrow> shared g = s1
         | Some i \<Rightarrow> i < length cs \<and>
             (\<exists>xs c. clients g ! i = Inside c \<and> alone act xs (cs ! i) s1 = (Inl c, shared g))))"

lemma serialized_init: "serialized act cs s [] (guarded_init cs s)"
  by (auto simp: serialized_def)

lemma serialized_enter:
  assumes inv: "serialized act cs s order g" and i: "i < length (clients g)"
    and c: "clients g ! i = Before c" and free: "holder g = None"
  shows "serialized act cs s order (g\<lparr>holder := Some i, clients := (clients g)[i := Inside c]\<rparr>)"
proof -
  from inv free obtain s1 where s1: "serially act cs order s s1" "shared g = s1"
    by (auto simp: serialized_def)
  moreover have "length (clients g) = length cs" "c = cs ! i" using inv i c by (auto simp: serialized_def)
  ultimately show ?thesis
    using inv i c free unfolding serialized_def
    by (auto simp: nth_list_update intro!: exI [of _ "shared g"] exI [of _ "[]"])
qed

lemma serialized_inside:
  assumes inv: "serialized act cs s order g" and i: "i < length (clients g)"
    and c: "clients g ! i = Inside c" and act: "act x c (shared g) = (Inl c', s')"
  shows "serialized act cs s order (g\<lparr>clients := (clients g)[i := Inside c'], shared := s'\<rparr>)"
proof -
  have len: "length (clients g) = length cs" and h: "holder g = Some i"
    using inv i c by (auto simp: serialized_def)
  from inv h c obtain s1 xs where s1: "serially act cs order s s1" "alone act xs (cs ! i) s1 = (Inl c, shared g)"
    by (auto simp: serialized_def)
  from alone_append [OF s1(2), of "[x]"] act have "alone act (xs @ [x]) (cs ! i) s1 = (Inl c', s')" by simp
  with s1(1) show ?thesis
    using inv i c h len unfolding serialized_def by (auto simp: nth_list_update)
qed

lemma serialized_leave:
  assumes inv: "serialized act cs s order g" and i: "i < length (clients g)"
    and c: "clients g ! i = Inside c" and act: "act x c (shared g) = (Inr r, s')"
  shows "serialized act cs s (order @ [(i, r)])
    (g\<lparr>holder := None, clients := (clients g)[i := After r], shared := s'\<rparr>)"
proof -
  have len: "length (clients g) = length cs" and h: "holder g = Some i"
    using inv i c by (auto simp: serialized_def)
  from inv h c obtain s1 xs where s1: "serially act cs order s s1" "alone act xs (cs ! i) s1 = (Inl c, shared g)"
    by (auto simp: serialized_def)
  from alone_append [OF s1(2), of "[x]"] act have "alone act (xs @ [x]) (cs ! i) s1 = (Inr r, s')" by simp
  with s1(1) i len have "serially act cs (order @ [(i, r)]) s s'" by (auto intro: serially.next_one)
  moreover have "i \<notin> fst ` set order"
  proof
    assume "i \<in> fst ` set order"
    then obtain r' where "(i, r') \<in> set order" by auto
    with inv c show False by (auto simp: serialized_def)
  qed
  ultimately show ?thesis
    using inv i c h len unfolding serialized_def by (auto simp: nth_list_update)
qed

lemma serialized_step:
  assumes "serialized act cs s order g"
  shows "\<exists>order'. serialized act cs s order' (guarded_step act i x g)"
  unfolding guarded_step_def using assms
  by (auto split: client.splits prod.splits sum.splits
      dest: serialized_enter serialized_inside serialized_leave)

lemma serialized_run:
  "serialized act cs s order g \<Longrightarrow> \<exists>order'. serialized act cs s order' (guarded_run act sched g)"
proof (induction sched arbitrary: order g)
  case (Cons e sched)
  obtain i x where e: "e = (i, x)" by (cases e)
  from serialized_step [OF Cons.prems] obtain order' where "serialized act cs s order' (guarded_step act i x g)"
    by blast
  from Cons.IH [OF this] show ?case by (simp add: e)
qed auto

lemma every_run_serialized: "\<exists>order. serialized act cs s order (guarded_run act sched (guarded_init cs s))"
  by (rule serialized_run [OF serialized_init])

text \<open>When all clients have left, the shared state is that of a serial run of all of them.\<close>

definition all_left :: "('s, 'c, 'r) guarded \<Rightarrow> bool" where
  "all_left g \<longleftrightarrow> (\<forall>c \<in> set (clients g). case c of After r \<Rightarrow> True | _ \<Rightarrow> False)"

lemma all_left_serial:
  assumes "guarded_run act sched (guarded_init cs s) = g" and left: "all_left g"
  shows "\<exists>order. serially act cs order s (shared g) \<and> distinct (map fst order) \<and>
    set (map fst order) = {..<length cs} \<and> (\<forall>(i, r) \<in> set order. clients g ! i = After r)"
proof -
  obtain order where inv: "serialized act cs s order g"
    using every_run_serialized assms(1) by metis
  have after: "\<exists>r. clients g ! i = After r" if "i < length cs" for i
  proof -
    have "clients g ! i \<in> set (clients g)" using that inv by (simp add: serialized_def)
    with left have "case clients g ! i of After r \<Rightarrow> True | _ \<Rightarrow> False" by (simp add: all_left_def)
    then show ?thesis by (cases "clients g ! i") auto
  qed
  have "holder g = None"
  proof (cases "holder g")
    case (Some i)
    with inv after [of i] show ?thesis by (auto simp: serialized_def)
  qed
  then have "serially act cs order s (shared g)" using inv by (auto simp: serialized_def)
  moreover from inv have mem: "(i, r) \<in> set order \<longleftrightarrow> i < length cs \<and> clients g ! i = After r" for i r
    by (simp add: serialized_def)
  have "set (map fst order) = {..<length cs}"
  proof (intro equalityI subsetI)
    fix i assume "i \<in> {..<length cs}"
    with after [of i] mem have "\<exists>r. (i, r) \<in> set order" by auto
    then show "i \<in> set (map fst order)" by force
  qed (use mem in auto)
  moreover have "distinct (map fst order)" using inv by (simp add: serialized_def)
  ultimately show ?thesis using mem by blast
qed

section \<open>Sections that end\<close>

text \<open>
  A section that gets closer to its end in every step.  Its clients never wait for each other for
  ever: as long as one has not left there is one that can go on, and the steps that do something
  are bounded.
\<close>

definition can_step :: "('s, 'c, 'r) guarded \<Rightarrow> nat \<Rightarrow> bool" where
  "can_step g i \<longleftrightarrow> i < length (clients g) \<and>
     (case clients g ! i of Before c \<Rightarrow> holder g = None | Inside c \<Rightarrow> True | After r \<Rightarrow> False)"

fun moves :: "('x, 'c, 's, 'r) action \<Rightarrow> (nat \<times> 'x) list \<Rightarrow> ('s, 'c, 'r) guarded \<Rightarrow> nat" where
  "moves act [] g = 0"
| "moves act ((i, x) # sched) g = (if can_step g i then 1 else 0) + moves act sched (guarded_step act i x g)"

lemma guarded_step_stuck: "\<not> can_step g i \<Longrightarrow> guarded_step act i x g = g"
  by (auto simp: can_step_def guarded_step_def split: client.splits)

lemma someone_can_step:
  assumes "serialized act cs s order g" and "\<not> all_left g"
  shows "\<exists>i. can_step g i"
proof (cases "holder g")
  case None
  from assms(2) obtain i where "i < length (clients g)" "\<forall>r. clients g ! i \<noteq> After r"
    by (auto simp: all_left_def in_set_conv_nth split: client.splits)
  with None show ?thesis by (auto simp: can_step_def split: client.splits)
next
  case (Some i)
  with assms(1) show ?thesis by (auto simp: can_step_def serialized_def intro!: exI [of _ i])
qed

locale ending_section =
  fixes act :: "('x, 'c, 's, 'r) action" and todo :: "'c \<Rightarrow> nat"
  assumes closer: "act x c s = (Inl c', s') \<Longrightarrow> todo c' < todo c"
begin

fun client_todo :: "('c, 'r) client \<Rightarrow> nat" where
  "client_todo (Before c) = todo c + 2"
| "client_todo (Inside c) = todo c + 1"
| "client_todo (After r) = 0"

definition guarded_todo :: "('s, 'c, 'r) guarded \<Rightarrow> nat" where
  "guarded_todo g = sum_list (map client_todo (clients g))"

lemma todo_update:
  "i < length cs \<Longrightarrow> client_todo c < client_todo (cs ! i) \<Longrightarrow>
   sum_list (map client_todo (cs[i := c])) < sum_list (map client_todo cs)"
  by (induction cs arbitrary: i) (auto split: nat.splits simp: less_Suc_eq_0_disj)

lemma step_todo:
  assumes "can_step g i" shows "guarded_todo (guarded_step act i x g) < guarded_todo g"
  using assms closer
  by (auto simp: can_step_def guarded_step_def guarded_todo_def less_SucI
      intro!: todo_update split: client.splits prod.splits sum.splits)

lemma moves_bounded: "moves act sched g + guarded_todo (guarded_run act sched g) \<le> guarded_todo g"
proof (induction sched arbitrary: g)
  case (Cons e sched)
  obtain i x where e: "e = (i, x)" by (cases e)
  show ?case
  proof (cases "can_step g i")
    case True
    from step_todo [OF this, of x] Cons.IH [of "guarded_step act i x g"] True show ?thesis by (simp add: e)
  next
    case False
    with Cons.IH [of g] show ?thesis by (simp add: e guarded_step_stuck)
  qed
qed simp

end

end
