(* ===== verification/Concurrent_Replies.thy ===== *)
theory Concurrent_Replies
  imports Nbd_Driver_Proxy Critical_Section
begin

text \<open>
  \<open>NBDDriverProxy::SendReply\<close> called by several workers at once (nbd_driver_proxy.cpp): the structure and,
  for a read, the payload behind it are written with one \<open>write\<close> after the other, which the socket may cut
  anywhere; \<open>m_mutex\<close> is held from the first to the last of them.  The kernel, which finds the end of a
  reply only by the lengths of the replies before, gets whole replies.
\<close>

section \<open>SendReply step by step\<close>

text \<open>
  Where a call is: what is left of \<open>buff\<close> and \<open>count\<close> in the first or the second call of \<open>WriteAll\<close>.
\<close>

datatype send_point = Header DriverData "cell list" nat | Payload "cell list" nat

definition write_once :: "io \<Rightarrow> cell list \<Rightarrow> nat \<Rightarrow> cell list \<Rightarrow> ((cell list \<times> nat) + fault) \<times> cell list" where
  "write_once x buff cnt out =
     (case x of
        IO_Fail \<Rightarrow> (Inr (Runtime_Error ''WriteAll() fail to write() to fd''), out)
      | IO_Upto k \<Rightarrow>
          let bytes_written = min (Suc k) cnt
          in if length buff < bytes_written then (Inr OutOfBounds, out)
             else (Inl (drop bytes_written buff, cnt - bytes_written), out @ take bytes_written buff))"

definition send_enter :: "nbd_abi \<Rightarrow> DriverData \<Rightarrow> send_point" where
  "send_enter abi data =
     (let reply = reply_cells abi (InitReaply abi (m_status data) (m_handler data))
      in Header data reply (length reply))"

fun send_act :: "(io, send_point, cell list, unit res) action" where
  "send_act x (Header data buff cnt) out =
     (if cnt > 0
      then case write_once x buff cnt out of
          (Inr f, out') \<Rightarrow> (Inr (Inl f), out')
        | (Inl (buff', cnt'), out') \<Rightarrow> (Inl (Header data buff' cnt'), out')
      else case val (m_key data) of
          Inl f \<Rightarrow> (Inr (Inl f), out)
        | Inr key \<Rightarrow>
            if key = READ
            then case val (m_len data) of
                Inl f \<Rightarrow> (Inr (Inl f), out)
              | Inr len \<Rightarrow> (Inl (Payload (vmem (m_buff data)) (unat len)), out)
            else (Inr (Inr ()), out))"
| "send_act x (Payload buff cnt) out =
     (if cnt > 0
      then case write_once x buff cnt out of
          (Inr f, out') \<Rightarrow> (Inr (Inl f), out')
        | (Inl (buff', cnt'), out') \<Rightarrow> (Inl (Payload buff' cnt'), out')
      else (Inr (Inr ()), out))"

text \<open>Several workers in \<open>SendReply\<close>, each with the data of its reply.\<close>

definition send_replies :: "nbd_abi \<Rightarrow> DriverData list \<Rightarrow> (nat \<times> io) list \<Rightarrow> cell list \<Rightarrow>
    (cell list, send_point, unit res) guarded" where
  "send_replies abi ds sched out = guarded_run send_act sched (guarded_init (map (send_enter abi) ds) out)"

section \<open>One call alone is NBDDriverProxy_SendReply\<close>

lemma write_onceE:
  assumes "0 < cnt"
  obtains (fail) f where "write_once x buff cnt out = (Inr f, out)" "\<And>ios. WriteAll (x # ios) buff cnt out = Inl f"
  | (more) n where "0 < n" "n \<le> cnt" "n \<le> length buff"
      "write_once x buff cnt out = (Inl (drop n buff, cnt - n), out @ take n buff)"
      "\<And>ios. WriteAll (x # ios) buff cnt out = WriteAll ios (drop n buff) (cnt - n) (out @ take n buff)"
proof (cases x)
  case IO_Fail
  with assms show ?thesis by (intro fail) (simp_all add: write_once_def)
next
  case (IO_Upto k)
  show ?thesis
  proof (cases "length buff < min (Suc k) cnt")
    case True
    with assms IO_Upto show ?thesis by (intro fail) (simp_all add: write_once_def Let_def)
  next
    case False
    moreover define n where "n = min (Suc k) cnt"
    ultimately have n: "0 < n" "n \<le> cnt" "n \<le> length buff" using assms by auto
    then have "write_once x buff cnt out = (Inl (drop n buff, cnt - n), out @ take n buff)"
      by (simp add: IO_Upto write_once_def Let_def n_def [symmetric])
    moreover have "WriteAll (x # ios) buff cnt out = WriteAll ios (drop n buff) (cnt - n) (out @ take n buff)" for ios
      using n assms by (simp add: IO_Upto Let_def n_def [symmetric])
    ultimately show ?thesis by (rule more [OF n])
  qed
qed

lemma WriteAll_done: "WriteAll ios buff 0 out = Inr (ios, out)"
  by (cases ios) simp_all

lemma payload_alone:
  "alone send_act xs (Payload buff cnt) out = (Inr r, out') \<Longrightarrow>
   \<exists>ios. WriteAll ios buff cnt out = (case r of Inl f \<Rightarrow> Inl f | Inr _ \<Rightarrow> Inr ([], out'))"
proof (induction xs arbitrary: buff cnt out)
  case (Cons x xs)
  show ?case
  proof (cases "0 < cnt")
    case True
    then show ?thesis
    proof (cases rule: write_onceE [of cnt x buff out])
      case (fail f)
      with Cons.prems True show ?thesis by (intro exI [of _ "[x]"]) (auto simp del: WriteAll.simps)
    next
      case (more n)
      with Cons.prems True have "alone send_act xs (Payload (drop n buff) (cnt - n)) (out @ take n buff) = (Inr r, out')"
        by simp
      from Cons.IH [OF this] more(5) show ?thesis by metis
    qed
  next
    case False
    with Cons.prems show ?thesis by (intro exI [of _ "[]"]) auto
  qed
qed simp

definition after_header :: "DriverData \<Rightarrow> io list \<times> cell list \<Rightarrow> (io list \<times> cell list) res" where
  "after_header data = (\<lambda>(ios, out).
     bindE (val (m_key data)) (\<lambda>key.
     if key = READ
     then bindE (val (m_len data)) (\<lambda>len. WriteAll ios (vmem (m_buff data)) (unat len) out)
     else Inr (ios, out)))"

lemma header_alone:
  "alone send_act xs (Header data buff cnt) out = (Inr r, out') \<Longrightarrow>
   \<exists>ios. bindE (WriteAll ios buff cnt out) (after_header data) =
     (case r of Inl f \<Rightarrow> Inl f | Inr _ \<Rightarrow> Inr ([], out'))"
proof (induction xs arbitrary: buff cnt out)
  case (Cons x xs)
  show ?case
  proof (cases "0 < cnt")
    case True
    then show ?thesis
    proof (cases rule: write_onceE [of cnt x buff out])
      case (fail f)
      with Cons.prems True show ?thesis by (intro exI [of _ "[x]"]) (auto simp del: WriteAll.simps)
    next
      case (more n)
      with Cons.prems True have "alone send_act xs (Header data (drop n buff) (cnt - n)) (out @ take n buff) = (Inr r, out')"
        by simp
      from Cons.IH [OF this] more(5) show ?thesis by metis
    qed
  next
    case False
    show ?thesis
    proof (cases "m_key data = Some READ \<and> m_len data \<noteq> None")
      case True
      then obtain len where len: "m_key data = Some READ" "m_len data = Some len" by auto
      with Cons.prems False have "alone send_act xs (Payload (vmem (m_buff data)) (unat len)) out = (Inr r, out')"
        by (simp add: val_def)
      from payload_alone [OF this] len False show ?thesis
        by (simp add: WriteAll_done after_header_def val_def)
    next
      case noread: False
      with Cons.prems False show ?thesis
        by (intro exI [of _ "[]"]) (auto simp: after_header_def val_def split: option.splits if_splits)
    qed
  qed
qed simp

lemma SendReply_alone:
  assumes "alone send_act xs (send_enter abi data) out = (Inr r, out')"
  shows "\<exists>ios. NBDDriverProxy_SendReply abi ios out data = (case r of Inl f \<Rightarrow> Inl f | Inr _ \<Rightarrow> Inr ([], out'))"
  using header_alone [OF assms [unfolded send_enter_def Let_def]]
  unfolding NBDDriverProxy_SendReply_def Let_def after_header_def by simp

section \<open>What a call adds to the stream\<close>

definition reply_stream :: "nbd_abi \<Rightarrow> DriverData \<Rightarrow> cell list" where
  "reply_stream abi data =
     reply_cells abi (InitReaply abi (m_status data) (m_handler data)) @
     (if m_key data = Some READ then take (unat (the (m_len data))) (vmem (m_buff data)) else [])"

text \<open>The data that the storages and gateways return: a key, and for a read a buffer of the length.\<close>

definition sendable :: "DriverData \<Rightarrow> bool" where
  "sendable data \<longleftrightarrow> m_key data \<noteq> None \<and>
     (m_key data = Some READ \<longrightarrow> m_len data \<noteq> None \<and> unat (the (m_len data)) \<le> length (vmem (m_buff data)))"

fun remaining :: "send_point \<Rightarrow> cell list" where
  "remaining (Header data buff cnt) = take cnt buff @
     (if m_key data = Some READ then take (unat (the (m_len data))) (vmem (m_buff data)) else [])"
| "remaining (Payload buff cnt) = take cnt buff"

fun send_ok :: "send_point \<Rightarrow> bool" where
  "send_ok (Header data buff cnt) \<longleftrightarrow> sendable data \<and> cnt \<le> length buff"
| "send_ok (Payload buff cnt) \<longleftrightarrow> cnt \<le> length buff"

fun send_todo :: "send_point \<Rightarrow> nat" where
  "send_todo (Header data buff cnt) = cnt + unat (the (m_len data)) + 1"
| "send_todo (Payload buff cnt) = cnt"

lemma take_split: "n \<le> m \<Longrightarrow> take n xs @ take (m - n) (drop n xs) = take m xs"
  by (metis le_add_diff_inverse take_add)

lemma send_act_goes_on:
  assumes "send_act x c out = (Inl c', out')"
  shows "send_todo c' < send_todo c"
    and "send_ok c \<Longrightarrow> send_ok c' \<and> (\<exists>p. out' = out @ p \<and> remaining c = p @ remaining c')"
proof -
  have "send_todo c' < send_todo c \<and>
    (send_ok c \<longrightarrow> send_ok c' \<and> (\<exists>p. out' = out @ p \<and> remaining c = p @ remaining c'))"
  proof (cases c)
    case (Header data buff cnt)
    show ?thesis
    proof (cases "0 < cnt")
      case True
      then show ?thesis
        by (cases rule: write_onceE [of cnt x buff out])
           (use assms Header True in \<open>auto simp: take_split [symmetric]\<close>)
    next
      case False
      with assms Header show ?thesis
        by (auto simp: sendable_def val_def split: option.splits if_splits)
    qed
  next
    case (Payload buff cnt)
    show ?thesis
    proof (cases "0 < cnt")
      case True
      then show ?thesis
        by (cases rule: write_onceE [of cnt x buff out])
           (use assms Payload True in \<open>auto simp: take_split\<close>)
    next
      case False
      with assms Payload show ?thesis by simp
    qed
  qed
  then show "send_todo c' < send_todo c"
    and "send_ok c \<Longrightarrow> send_ok c' \<and> (\<exists>p. out' = out @ p \<and> remaining c = p @ remaining c')" by simp_all
qed

lemma send_act_ends:
  assumes "send_act x c out = (Inr r, out')"
  shows "out' = out \<and> (r = Inr () \<longrightarrow> remaining c = [])"
proof (cases c)
  case (Header data buff cnt)
  show ?thesis
  proof (cases "0 < cnt")
    case True
    then show ?thesis
      by (cases rule: write_onceE [of cnt x buff out]) (use assms Header True in auto)
  qed (use assms Header in \<open>auto simp: val_def split: option.splits if_splits\<close>)
next
  case (Payload buff cnt)
  show ?thesis
  proof (cases "0 < cnt")
    case True
    then show ?thesis
      by (cases rule: write_onceE [of cnt x buff out]) (use assms Payload True in auto)
  qed (use assms Payload in auto)
qed

interpretation sending: ending_section send_act send_todo
  by unfold_locales (rule send_act_goes_on(1))

text \<open>A call adds a front part of its reply, and the whole reply when it returns normally.\<close>

lemma alone_stream:
  "alone send_act xs c out = (res, out') \<Longrightarrow> send_ok c \<Longrightarrow>
   \<exists>p q. out' = out @ p \<and> remaining c = p @ q \<and> (res = Inr (Inr ()) \<longrightarrow> q = [])"
proof (induction xs arbitrary: c out)
  case (Cons x xs)
  obtain r out1 where step: "send_act x c out = (r, out1)" by fastforce
  show ?case
  proof (cases r)
    case (Inl c')
    from send_act_goes_on(2) [OF step [unfolded Inl] Cons.prems(2)]
    obtain p where p: "send_ok c'" "out1 = out @ p" "remaining c = p @ remaining c'" by blast
    from Cons.prems(1) step Inl have "alone send_act xs c' out1 = (res, out')" by simp
    from Cons.IH [OF this p(1)] p(2,3) show ?thesis by fastforce
  next
    case (Inr e)
    with Cons.prems(1) step send_act_ends [OF step [unfolded Inr]] show ?thesis by auto
  qed
qed auto

lemma send_ok_enter: "sendable data \<Longrightarrow> send_ok (send_enter abi data)"
  and remaining_enter: "remaining (send_enter abi data) = reply_stream abi data"
  by (simp_all add: send_enter_def Let_def reply_stream_def)

text \<open>
  The stream after a serial run: one part for each call, the reply itself or, after an error, a front
  part of it.
\<close>

definition reply_parts :: "nbd_abi \<Rightarrow> DriverData list \<Rightarrow> (nat \<times> unit res) list \<Rightarrow> cell list list \<Rightarrow> bool" where
  "reply_parts abi ds order parts \<longleftrightarrow>
     list_all2 (\<lambda>(i, r) p. \<exists>q. reply_stream abi (ds ! i) = p @ q \<and> (r = Inr () \<longrightarrow> q = [])) order parts"

lemma serial_stream:
  "serially send_act (map (send_enter abi) ds) order out out' \<Longrightarrow> \<forall>d \<in> set ds. sendable d \<Longrightarrow>
   \<exists>parts. out' = out @ concat parts \<and> reply_parts abi ds order parts"
proof (induction rule: serially.induct)
  case (next_one order s s1 i xs r s2)
  then obtain parts where parts: "s1 = s @ concat parts" "reply_parts abi ds order parts" by blast
  from next_one have i: "i < length ds" "sendable (ds ! i)" by auto
  with next_one(3) have "alone send_act xs (send_enter abi (ds ! i)) s1 = (Inr r, s2)" by simp
  from alone_stream [OF this send_ok_enter [OF i(2)]] obtain p q where
    "s2 = s1 @ p" "reply_stream abi (ds ! i) = p @ q" "r = Inr () \<longrightarrow> q = []"
    by (auto simp: remaining_enter)
  with parts show ?case
    by (intro exI [of _ "parts @ [p]"]) (auto simp: reply_parts_def intro!: list_all2_appendI)
qed (auto simp: reply_parts_def)

lemma replies_serialized:
  assumes ds: "\<forall>d \<in> set ds. sendable d"
    and ser: "serialized send_act (map (send_enter abi) ds) out order g"
  shows "\<exists>parts rest. reply_parts abi ds order parts \<and> shared g = out @ concat parts @ rest \<and>
    (case holder g of None \<Rightarrow> rest = []
     | Some i \<Rightarrow> i < length ds \<and> (\<exists>q. reply_stream abi (ds ! i) = rest @ q))"
proof -
  from ser obtain s1 where s1: "serially send_act (map (send_enter abi) ds) order out s1"
    and h: "case holder g of None \<Rightarrow> shared g = s1
      | Some i \<Rightarrow> i < length ds \<and> (\<exists>xs c. alone send_act xs (map (send_enter abi) ds ! i) s1 = (Inl c, shared g))"
    by (fastforce simp: serialized_def split: option.splits)
  from serial_stream [OF s1 ds] obtain parts where
    parts: "s1 = out @ concat parts" "reply_parts abi ds order parts" by blast
  show ?thesis
  proof (cases "holder g")
    case None
    with h parts show ?thesis by auto
  next
    case (Some i)
    with h obtain xs c where i: "i < length ds" "alone send_act xs (send_enter abi (ds ! i)) s1 = (Inl c, shared g)"
      by auto
    with ds have "send_ok (send_enter abi (ds ! i))" by (auto intro!: send_ok_enter)
    from alone_stream [OF i(2) this] obtain p q where "shared g = s1 @ p" "reply_stream abi (ds ! i) = p @ q"
      by (auto simp: remaining_enter)
    with Some i parts show ?thesis by auto
  qed
qed

section \<open>Properties\<close>

text \<open>
  C12: workers may send replies at the same time, and the socket may cut every write: in every
  interleaving the stream to the kernel consists of one part for each call that has ended, in the order
  in which they got the mutex, which is the whole reply of that call, or a front part of it where a
  write failed, and behind them a front part of the reply of the worker that holds the mutex.  Bytes of two replies are never mixed.
\<close>

theorem replies_never_mixed:
  assumes "\<forall>d \<in> set ds. sendable d" and "send_replies abi ds sched out = g"
  shows "\<exists>order parts rest. distinct (map fst order) \<and>
    (\<forall>i r. (i, r) \<in> set order \<longleftrightarrow> i < length ds \<and> clients g ! i = After r) \<and>
    reply_parts abi ds order parts \<and> shared g = out @ concat parts @ rest \<and>
    (case holder g of None \<Rightarrow> rest = []
     | Some i \<Rightarrow> i < length ds \<and> (\<exists>q. reply_stream abi (ds ! i) = rest @ q))"
proof -
  obtain order where ser: "serialized send_act (map (send_enter abi) ds) out order g"
    using every_run_serialized assms(2) unfolding send_replies_def by metis
  then have "distinct (map fst order)"
    and "\<forall>i r. (i, r) \<in> set order \<longleftrightarrow> i < length ds \<and> clients g ! i = After r"
    by (simp_all add: serialized_def)
  with replies_serialized [OF assms(1) ser] show ?thesis by blast
qed

text \<open>Two replies, the second of them to a read; the first worker is overtaken before it gets the mutex.\<close>

definition two_replies :: "DriverData list" where
  "two_replies =
     [new_DriverData\<lparr>m_key := Some WRITE, m_status := Some 0\<rparr>,
      new_DriverData\<lparr>m_key := Some READ, m_len := Some 2, m_status := Some 0,
        m_buff := \<lparr>vsize = 0, vmem = map Some [7, 8, 9]\<rparr>\<rparr>]"

theorem replies_never_mixed_witness:
  "\<exists>order parts rest. distinct (map fst order) \<and>
    (\<forall>i r. (i, r) \<in> set order \<longleftrightarrow> i < length two_replies \<and>
       clients (send_replies packed_abi two_replies [(1, IO_Upto 0), (0, IO_Upto 0), (1, IO_Upto 9), (0, IO_Upto 3)] []) ! i = After r) \<and>
    reply_parts packed_abi two_replies order parts \<and>
    shared (send_replies packed_abi two_replies [(1, IO_Upto 0), (0, IO_Upto 0), (1, IO_Upto 9), (0, IO_Upto 3)] []) =
      [] @ concat parts @ rest \<and>
    (case holder (send_replies packed_abi two_replies [(1, IO_Upto 0), (0, IO_Upto 0), (1, IO_Upto 9), (0, IO_Upto 3)] []) of
       None \<Rightarrow> rest = []
     | Some i \<Rightarrow> i < length two_replies \<and> (\<exists>q. reply_stream packed_abi (two_replies ! i) = rest @ q))"
  by (rule replies_never_mixed) (simp_all add: two_replies_def sendable_def)

text \<open>
  C14: no worker waits in \<open>SendReply\<close> for ever: as long as a call has not ended, some worker can go on, and
  the number of steps that all of them take is bounded by the length of the replies, whatever the
  scheduler and the socket do.
\<close>

theorem replies_come_to_an_end:
  "moves send_act sched (guarded_init (map (send_enter abi) ds) out) \<le>
     (\<Sum>d \<leftarrow> ds. length (reply_cells abi (InitReaply abi (m_status d) (m_handler d))) + unat (the (m_len d)) + 3) \<and>
   (all_left (send_replies abi ds sched out) \<or> (\<exists>i. can_step (send_replies abi ds sched out) i))"
proof
  let ?g = "guarded_init (map (send_enter abi) ds) out"
  have "sending.guarded_todo ?g =
      (\<Sum>d \<leftarrow> ds. length (reply_cells abi (InitReaply abi (m_status d) (m_handler d))) + unat (the (m_len d)) + 3)"
    by (simp add: sending.guarded_todo_def comp_def send_enter_def Let_def numeral_3_eq_3)
  with sending.moves_bounded [of sched ?g] show "moves send_act sched ?g \<le>
      (\<Sum>d \<leftarrow> ds. length (reply_cells abi (InitReaply abi (m_status d) (m_handler d))) + unat (the (m_len d)) + 3)"
    by simp
  show "all_left (send_replies abi ds sched out) \<or> (\<exists>i. can_step (send_replies abi ds sched out) i)"
  proof -
    obtain order where "serialized send_act (map (send_enter abi) ds) out order (send_replies abi ds sched out)"
      unfolding send_replies_def by (rule exE [OF every_run_serialized])
    from someone_can_step [OF this] show ?thesis by blast
  qed
qed

text \<open>The calls of \<open>SendReply\<close> one after another.\<close>

fun reply_each :: "nbd_abi \<Rightarrow> (io list \<times> DriverData) list \<Rightarrow> cell list \<Rightarrow> cell list res" where
  "reply_each abi [] out = Inr out"
| "reply_each abi ((ios, d) # calls) out =
     bindE (NBDDriverProxy_SendReply abi ios out d) (\<lambda>(_, out'). reply_each abi calls out')"

lemma reply_each_append:
  "reply_each abi (xs @ ys) out = bindE (reply_each abi xs out) (reply_each abi ys)"
  by (induction abi xs out rule: reply_each.induct) (auto simp: bindE_assoc split: prod.splits intro!: bindE_cong)

lemma serial_reply_each:
  "serially send_act (map (send_enter abi) ds) order out out' \<Longrightarrow> \<forall>(i, r) \<in> set order. r = Inr () \<Longrightarrow>
   \<exists>calls. map snd calls = map (\<lambda>e. ds ! fst e) order \<and> reply_each abi calls out = Inr out'"
proof (induction rule: serially.induct)
  case (next_one order s s1 i xs r s2)
  then obtain calls where c: "map snd calls = map (\<lambda>e. ds ! fst e) order" "reply_each abi calls s = Inr s1"
    by auto
  from next_one have "alone send_act xs (send_enter abi (ds ! i)) s1 = (Inr (Inr ()), s2)" by auto
  from SendReply_alone [OF this] obtain ios where "NBDDriverProxy_SendReply abi ios s1 (ds ! i) = Inr ([], s2)"
    by auto
  with c show ?case by (intro exI [of _ "calls @ [(ios, ds ! i)]"]) (simp add: reply_each_append)
qed auto

text \<open>
  C13: when all calls have returned normally, the stream is the one that the calls of \<open>SendReply\<close> produce
  one after another, in some order.
\<close>

theorem concurrent_replies_are_serial:
  assumes "send_replies abi ds sched out = g" and "\<forall>i < length ds. clients g ! i = After (Inr ())"
  shows "\<exists>calls order. distinct order \<and> set order = {..<length ds} \<and> map snd calls = map ((!) ds) order \<and>
    reply_each abi calls out = Inr (shared g)"
proof -
  have run: "guarded_run send_act sched (guarded_init (map (send_enter abi) ds) out) = g"
    using assms(1) by (simp add: send_replies_def)
  have "length (clients g) = length ds"
    using every_run_serialized [of send_act "map (send_enter abi) ds" out sched] run
    by (auto simp: serialized_def)
  with assms(2) have "all_left g" by (auto simp: all_left_def in_set_conv_nth)
  from all_left_serial [OF run this] obtain order where
    o: "serially send_act (map (send_enter abi) ds) order out (shared g)" "distinct (map fst order)"
      "set (map fst order) = {..<length ds}" "\<forall>(i, r) \<in> set order. clients g ! i = After r"
    by auto
  have "r = Inr ()" if "(i, r) \<in> set order" for i r
  proof -
    from that have "i \<in> set (map fst order)" by force
    with o(3) that o(4) assms(2) show ?thesis by auto
  qed
  then have "\<forall>(i, r) \<in> set order. r = Inr ()" by auto
  from serial_reply_each [OF o(1) this] obtain calls where
    "map snd calls = map (\<lambda>e. ds ! fst e) order" "reply_each abi calls out = Inr (shared g)" by blast
  with o(2,3) show ?thesis
    by (intro exI [of _ calls] exI [of _ "map fst order"]) (simp add: comp_def)
qed

text \<open>A schedule after which both replies are sent.\<close>

definition two_sent :: "(cell list, send_point, unit res) guarded" where
  "two_sent = send_replies packed_abi two_replies
     [(1, IO_Upto 0), (1, IO_Upto 9), (0, IO_Upto 0), (1, IO_Upto 9), (1, IO_Upto 0), (1, IO_Upto 1),
      (1, IO_Upto 0), (0, IO_Upto 0), (0, IO_Upto 99), (0, IO_Upto 0)] []"

lemma two_sent_clients: "clients two_sent = [After (Inr ()), After (Inr ())]"
proof -
  have "map (send_enter packed_abi) two_replies =
    [Header (two_replies ! 0) (map Some [0x67, 0x44, 0x66, 0x98, 0, 0, 0, 0] @ replicate 8 None) 16,
     Header (two_replies ! 1) (map Some [0x67, 0x44, 0x66, 0x98, 0, 0, 0, 0] @ replicate 8 None) 16]"
    by (simp add: two_replies_def send_enter_def packed_abi_def InitReaply_def le_bytes_def ntohl_def
        HANDLE_SIZE_def upt_rec)
  moreover have "clients (guarded_run send_act
     [(1, IO_Upto 0), (1, IO_Upto 9), (0, IO_Upto 0), (1, IO_Upto 9), (1, IO_Upto 0), (1, IO_Upto 1),
      (1, IO_Upto 0), (0, IO_Upto 0), (0, IO_Upto 99), (0, IO_Upto 0)]
     (guarded_init [Header (two_replies ! 0) (map Some [0x67, 0x44, 0x66, 0x98, 0, 0, 0, 0] @ replicate 8 None) 16,
     Header (two_replies ! 1) (map Some [0x67, 0x44, 0x66, 0x98, 0, 0, 0, 0] @ replicate 8 None) 16] [])) =
    [After (Inr ()), After (Inr ())]"
    by code_simp
  ultimately show ?thesis by (simp only: two_sent_def send_replies_def)
qed

theorem concurrent_replies_are_serial_witness:
  "\<exists>calls order. distinct order \<and> set order = {..<length two_replies} \<and>
    map snd calls = map ((!) two_replies) order \<and> reply_each packed_abi calls [] = Inr (shared two_sent)"
proof (rule concurrent_replies_are_serial [OF two_sent_def [symmetric]])
  have "length two_replies = 2" by (simp add: two_replies_def)
  with two_sent_clients show "\<forall>i < length two_replies. clients two_sent ! i = After (Inr ())"
    by (auto simp: less_2_cases_iff)
qed

end
