(* ===== verification/Concurrent_Storages.thy ===== *)
theory Concurrent_Storages
  imports Old_Storages Critical_Section
begin

text \<open>
  The storages used by several workers at once.  A \<open>DiskStorage\<close> (disk_storage.cpp) has one position in its
  file, which each operation sets before it reads or writes there; \<open>m_mutex\<close> is held over both.  In a
  \<open>MmapStorage\<close> (mmap_storage.cpp) the two \<open>lock_guard\<close> lines are comments, so that the \<open>memcpy\<close> of several
  requests run at the same time; the model copies byte by byte, in any order.
\<close>

section \<open>The operations of DiskStorage step by step\<close>

record disk_stream =
  ds_disk :: DiskStorage
  ds_pos :: nat

definition fstream_seekp :: "64 word \<Rightarrow> disk_stream \<Rightarrow> disk_stream" where
  "fstream_seekp pos s =
     (if failbit (ds_disk s) then s
      else if sint pos < 0 then s\<lparr>ds_disk := (ds_disk s)\<lparr>failbit := True\<rparr>\<rparr>
      else s\<lparr>ds_pos := unat pos\<rparr>)"

definition fstream_put :: "cell list \<Rightarrow> nat \<Rightarrow> disk_stream \<Rightarrow> disk_stream res" where
  "fstream_put src n s =
     (if failbit (ds_disk s) then Inr s
      else if length src < n then Inl OutOfBounds
      else Inr (s\<lparr>ds_disk := (ds_disk s)\<lparr>m_file := overwrite (zero_fill (m_file (ds_disk s)) (ds_pos s + n))
                                              (ds_pos s) (take n src)\<rparr>,
                  ds_pos := ds_pos s + n\<rparr>))"

definition fstream_get :: "cell list \<Rightarrow> nat \<Rightarrow> disk_stream \<Rightarrow> (cell list \<times> disk_stream) res" where
  "fstream_get dest n s =
     (if failbit (ds_disk s) then Inr (dest, s)
      else
        let got = take n (drop (ds_pos s) (m_file (ds_disk s))) in
        bindE (store_at dest 0 got) (\<lambda>dest'.
        Inr (dest', s\<lparr>ds_disk := if length got < n then (ds_disk s)\<lparr>failbit := True\<rparr> else ds_disk s,
                      ds_pos := ds_pos s + length got\<rparr>)))"

text \<open>A request at a storage, and the two control points of each operation of a \<open>DiskStorage\<close>.\<close>

datatype storage_op = Op_Write DriverData | Op_Read DriverData

datatype disk_point = SeekPut DriverData | Put DriverData | SeekGet DriverData | Get DriverData

fun disk_enter :: "storage_op \<Rightarrow> disk_point" where
  "disk_enter (Op_Write data) = SeekPut data"
| "disk_enter (Op_Read data) = SeekGet data"

fun disk_act :: "(unit, disk_point, disk_stream, DriverData res) action" where
  "disk_act x (SeekPut data) s =
     (case val (m_offset data) of
        Inl f \<Rightarrow> (Inr (Inl f), s)
      | Inr off \<Rightarrow> (Inl (Put data), fstream_seekp off s))"
| "disk_act x (Put data) s =
     (case bindE (val (m_len data)) (\<lambda>len. fstream_put (vmem (m_buff data)) (unat len) s) of
        Inl f \<Rightarrow> (Inr (Inl f), s)
      | Inr s' \<Rightarrow> (Inr (Inr data), s'))"
| "disk_act x (SeekGet data) s =
     (case bindE (val (m_len data)) (\<lambda>len.
             let data = data\<lparr>m_buff := vec_reserve (unat len) (m_buff data)\<rparr>
             in bindE (val (m_offset data)) (\<lambda>off. Inr (data, off))) of
        Inl f \<Rightarrow> (Inr (Inl f), s)
      | Inr (data, off) \<Rightarrow> (Inl (Get data), fstream_seekp off s))"
| "disk_act x (Get data) s =
     (case bindE (val (m_len data)) (\<lambda>len. fstream_get (vmem (m_buff data)) (unat len) s) of
        Inl f \<Rightarrow> (Inr (Inl f), s)
      | Inr (mem, s') \<Rightarrow> (Inr (Inr (data\<lparr>m_buff := (m_buff data)\<lparr>vmem := mem\<rparr>\<rparr>)), s'))"

text \<open>The same request at a storage that nobody else uses.\<close>

fun disk_exec :: "storage_op \<Rightarrow> DiskStorage \<Rightarrow> (DiskStorage \<times> DriverData) res" where
  "disk_exec (Op_Write data) st = DiskStorage_Write st data"
| "disk_exec (Op_Read data) st = DiskStorage_Read st data"

fun disk_run :: "storage_op list \<Rightarrow> DiskStorage \<Rightarrow> (DiskStorage \<times> DriverData list) res" where
  "disk_run [] st = Inr (st, [])"
| "disk_run (p # ops) st =
     bindE (disk_exec p st) (\<lambda>(st', d). bindE (disk_run ops st') (\<lambda>(st'', ds). Inr (st'', d # ds)))"

lemma disk_write_alone:
  assumes "alone disk_act xs (SeekPut data) s = (Inr r, s')"
  shows "DiskStorage_Write (ds_disk s) data = (case r of Inl f \<Rightarrow> Inl f | Inr d \<Rightarrow> Inr (ds_disk s', d))"
proof -
  obtain x ys where xs: "xs = x # ys" using assms by (cases xs) auto
  show ?thesis
  proof (cases "m_offset data")
    case None
    with assms xs show ?thesis by (auto simp: DiskStorage_Write_def)
  next
    case (Some off)
    with assms xs obtain y zs where ys: "ys = y # zs" by (cases ys) auto
    show ?thesis
    proof (cases "m_len data")
      case None
      with assms xs ys Some show ?thesis by (auto simp: DiskStorage_Write_def)
    next
      case (Some len)
      with assms xs ys \<open>m_offset data = Some off\<close> show ?thesis
        by (auto simp: DiskStorage_Write_def fstream_write_def fstream_seekp_def fstream_put_def split: if_splits)
    qed
  qed
qed

lemma disk_read_alone:
  assumes "alone disk_act xs (SeekGet data) s = (Inr r, s')"
  shows "DiskStorage_Read (ds_disk s) data = (case r of Inl f \<Rightarrow> Inl f | Inr d \<Rightarrow> Inr (ds_disk s', d))"
proof -
  obtain x ys where xs: "xs = x # ys" using assms by (cases xs) auto
  show ?thesis
  proof (cases "m_len data = None \<or> m_offset data = None")
    case True
    with assms xs show ?thesis by (cases "m_len data") (auto simp: DiskStorage_Read_def Let_def)
  next
    case False
    then obtain off len where some: "m_offset data = Some off" "m_len data = Some len" by auto
    with assms xs obtain y zs where ys: "ys = y # zs" by (cases ys) (auto simp: Let_def)
    let ?b = "vec_reserve (unat len) (m_buff data)"
    let ?got = "take (unat len) (drop (unat off) (m_file (ds_disk s)))"
    have "length ?got \<le> length (vmem ?b)"
      using length_vec_reserve [of "unat len" "m_buff data"] by simp
    then obtain mem where "store_at (vmem ?b) 0 ?got = Inr mem" by (simp add: store_at_def)
    with assms xs ys some show ?thesis
      by (auto simp: DiskStorage_Read_def fstream_read_def fstream_seekp_def fstream_get_def Let_def split: if_splits)
  qed
qed

lemma disk_alone:
  "alone disk_act xs (disk_enter p) s = (Inr r, s') \<Longrightarrow>
   disk_exec p (ds_disk s) = (case r of Inl f \<Rightarrow> Inl f | Inr d \<Rightarrow> Inr (ds_disk s', d))"
  by (cases p) (auto dest: disk_write_alone disk_read_alone)

lemma disk_run_append:
  "disk_run (ps @ qs) st = bindE (disk_run ps st) (\<lambda>(st', ds). bindE (disk_run qs st') (\<lambda>(st'', es). Inr (st'', ds @ es)))"
proof (induction ps arbitrary: st)
  case Nil
  show ?case by (cases "disk_run qs st") auto
next
  case (Cons p ps)
  show ?case
  proof (cases "disk_exec p st")
    case (Inr e)
    obtain st' d where e: "e = (st', d)" by (cases e)
    show ?thesis
    proof (cases "disk_run ps st'")
      case run: (Inr e')
      show ?thesis using Cons.IH [of st'] Inr e run by (cases e'; cases "disk_run qs (fst e')") auto
    qed (use Cons.IH [of st'] Inr e in simp)
  qed simp
qed

lemma serial_disk_run:
  "serially disk_act (map disk_enter ops) order s s' \<Longrightarrow> \<forall>(i, r) \<in> set order. r = Inr (rs ! i) \<Longrightarrow>
   disk_run (map (\<lambda>e. ops ! fst e) order) (ds_disk s) = Inr (ds_disk s', map (\<lambda>e. rs ! fst e) order)"
proof (induction rule: serially.induct)
  case (next_one order s s1 i xs r s2)
  from next_one have "alone disk_act xs (disk_enter (ops ! i)) s1 = (Inr (Inr (rs ! i)), s2)" by auto
  from disk_alone [OF this] next_one show ?case by (simp add: disk_run_append)
qed simp

text \<open>Every step of an operation gets it closer to its end.\<close>

fun disk_todo :: "disk_point \<Rightarrow> nat" where
  "disk_todo (SeekPut data) = 1"
| "disk_todo (Put data) = 0"
| "disk_todo (SeekGet data) = 1"
| "disk_todo (Get data) = 0"

interpretation disk_section: ending_section disk_act disk_todo
proof (unfold_locales, goal_cases)
  case (1 x c s c' s')
  then show ?case by (cases c) (auto split: sum.splits prod.splits)
qed

section \<open>MmapStorage without its lock\<close>

text \<open>
  A request in the middle of its \<open>memcpy\<close>: the indexes of the bytes that are still to be copied.  A read
  copies into the buffer of its own data.
\<close>

datatype mmap_client = Storing DriverData "nat list" | Loading DriverData "nat list"

fun mmap_begin :: "storage_op \<Rightarrow> mmap_client" where
  "mmap_begin (Op_Write data) = Storing data [0..<unat (the (m_len data))]"
| "mmap_begin (Op_Read data) =
     Loading (data\<lparr>m_buff := vec_reserve (unat (the (m_len data))) (m_buff data)\<rparr>) [0..<unat (the (m_len data))]"

record mmap_race =
  race_mem :: "cell list"
  race_clients :: "mmap_client list"

text \<open>The client \<open>i\<close> copies its byte \<open>k\<close>.\<close>

definition copy_step :: "nat \<Rightarrow> nat \<Rightarrow> mmap_race \<Rightarrow> mmap_race res" where
  "copy_step i k s =
     (if i < length (race_clients s)
      then case race_clients s ! i of
          Storing data todo \<Rightarrow>
            if k \<in> set todo
            then let a = unat (the (m_offset data)) + k in
              if a < length (race_mem s) \<and> k < length (vmem (m_buff data))
              then Inr (s\<lparr>race_mem := (race_mem s)[a := vmem (m_buff data) ! k],
                          race_clients := (race_clients s)[i := Storing data (remove1 k todo)]\<rparr>)
              else Inl OutOfBounds
            else Inr s
        | Loading data todo \<Rightarrow>
            if k \<in> set todo
            then let a = unat (the (m_offset data)) + k; b = m_buff data in
              if a < length (race_mem s) \<and> k < length (vmem b)
              then Inr (s\<lparr>race_clients := (race_clients s)[i :=
                     Loading (data\<lparr>m_buff := b\<lparr>vmem := (vmem b)[k := race_mem s ! a]\<rparr>\<rparr>) (remove1 k todo)]\<rparr>)
              else Inl OutOfBounds
            else Inr s
      else Inr s)"

fun copy_run :: "(nat \<times> nat) list \<Rightarrow> mmap_race \<Rightarrow> mmap_race res" where
  "copy_run [] s = Inr s"
| "copy_run ((i, k) # sched) s = bindE (copy_step i k s) (copy_run sched)"

definition race_start :: "cell list \<Rightarrow> storage_op list \<Rightarrow> mmap_race" where
  "race_start mem ops = \<lparr>race_mem = mem, race_clients = map mmap_begin ops\<rparr>"

text \<open>What the writes among the requests may put at an address.\<close>

definition put_at :: "storage_op list \<Rightarrow> nat \<Rightarrow> cell set" where
  "put_at ops a =
     {snd (write_of d) ! (a - fst (write_of d)) | d. Op_Write d \<in> set ops \<and> covers (write_of d) a}"

fun op_ok :: "nat \<Rightarrow> storage_op \<Rightarrow> bool" where
  "op_ok n (Op_Write d) \<longleftrightarrow> write_request n d"
| "op_ok n (Op_Read d) \<longleftrightarrow> read_request n d"

text \<open>
  What is known of a client that has copied the bytes outside \<open>todo\<close>: a write of its has reached the
  memory, or another write behind it; a read has what the memory held or what a write put there.
\<close>

fun client_ok :: "cell list \<Rightarrow> storage_op list \<Rightarrow> cell list \<Rightarrow> storage_op \<Rightarrow> mmap_client \<Rightarrow> bool" where
  "client_ok old ops mem (Op_Write d) (Storing d' todo) \<longleftrightarrow> d' = d \<and> distinct todo \<and>
     set todo \<subseteq> {..<unat (the (m_len d))} \<and>
     (\<forall>k \<in> {..<unat (the (m_len d))} - set todo.
        mem ! (unat (the (m_offset d)) + k) \<in> put_at ops (unat (the (m_offset d)) + k))"
| "client_ok old ops mem (Op_Read d) (Loading d' todo) \<longleftrightarrow> d'\<lparr>m_buff := m_buff d\<rparr> = d \<and> distinct todo \<and>
     set todo \<subseteq> {..<unat (the (m_len d))} \<and> unat (the (m_len d)) \<le> length (vmem (m_buff d')) \<and>
     (\<forall>k \<in> {..<unat (the (m_len d))} - set todo.
        vmem (m_buff d') ! k \<in> insert (old ! (unat (the (m_offset d)) + k)) (put_at ops (unat (the (m_offset d)) + k)))"
| "client_ok old ops mem _ _ \<longleftrightarrow> False"

definition race_inv :: "cell list \<Rightarrow> storage_op list \<Rightarrow> mmap_race \<Rightarrow> bool" where
  "race_inv old ops s \<longleftrightarrow>
     length (race_mem s) = length old \<and>
     (\<forall>a < length old. race_mem s ! a \<in> insert (old ! a) (put_at ops a)) \<and>
     list_all2 (client_ok old ops (race_mem s)) ops (race_clients s)"

lemma race_inv_start:
  assumes "\<forall>p \<in> set ops. op_ok (length old) p" shows "race_inv old ops (race_start old ops)"
proof -
  have "client_ok old ops old p (mmap_begin p)" for p
    using length_vec_reserve [of "unat (the (m_len _))"] by (cases p) auto
  then show ?thesis by (auto simp: race_inv_def race_start_def list_all2_conv_all_nth)
qed

lemma put_atI:
  assumes "Op_Write d \<in> set ops" and "op_ok n (Op_Write d)" and "k < unat (the (m_len d))"
  shows "vmem (m_buff d) ! k \<in> put_at ops (unat (the (m_offset d)) + k)"
  using assms unfolding put_at_def
  by (intro CollectI exI [of _ d]) (auto simp: write_of_def covers_def write_request_def)

lemma update_keeps: "mem ! x \<in> P x \<Longrightarrow> v \<in> P a \<Longrightarrow> (mem[a := v]) ! x \<in> P x"
  by (cases "x = a"; cases "a < length mem") (auto simp: list_update_beyond)

lemma client_ok_store:
  assumes "client_ok old ops mem p c" and "v \<in> put_at ops a"
  shows "client_ok old ops (mem[a := v]) p c"
  using assms by (cases p; cases c) (auto intro: update_keeps [where P = "put_at ops"])

lemma storing_step:
  assumes ops: "\<forall>p \<in> set ops. op_ok (length old) p" and inv: "race_inv old ops s"
    and i: "i < length (race_clients s)" "race_clients s ! i = Storing d todo" and k: "k \<in> set todo"
  shows "\<exists>s'. copy_step i k s = Inr s' \<and> race_inv old ops s'"
proof -
  let ?a = "unat (the (m_offset d)) + k" and ?v = "vmem (m_buff d) ! k" and ?n = "unat (the (m_len d))"
  from inv have l2: "list_all2 (client_ok old ops (race_mem s)) ops (race_clients s)"
    and len: "length (race_mem s) = length old"
    and old: "\<forall>a < length old. race_mem s ! a \<in> insert (old ! a) (put_at ops a)" by (auto simp: race_inv_def)
  from list_all2_nthD2 [OF l2 i(1)] i(2) have "client_ok old ops (race_mem s) (ops ! i) (Storing d todo)" by simp
  then have p: "ops ! i = Op_Write d" and todo: "distinct todo" "set todo \<subseteq> {..<?n}"
    and copied: "\<forall>k \<in> {..<?n} - set todo. race_mem s ! (unat (the (m_offset d)) + k) \<in> put_at ops (unat (the (m_offset d)) + k)"
    by (cases "ops ! i"; auto)+
  have mem: "Op_Write d \<in> set ops" using i(1) p list_all2_lengthD [OF l2] nth_mem [of i ops] by simp
  with ops have ok: "write_request (length old) d" by fastforce
  have kn: "k < ?n" using k todo by auto
  have v: "?v \<in> put_at ops ?a" using put_atI [OF mem, of "length old" k] ok kn by simp
  have bounds: "?a < length (race_mem s)" "k < length (vmem (m_buff d))"
    using ok kn len by (auto simp: write_request_def)
  let ?mem = "(race_mem s)[?a := ?v]"
  have "client_ok old ops ?mem (Op_Write d) (Storing d (remove1 k todo))"
    using todo copied v bounds by (auto intro: update_keeps [where P = "put_at ops"])
  moreover have "list_all2 (client_ok old ops ?mem) ops (race_clients s)"
    using l2 client_ok_store [OF _ v] by (auto elim: list_all2_mono)
  ultimately have "list_all2 (client_ok old ops ?mem) (ops[i := Op_Write d])
      ((race_clients s)[i := Storing d (remove1 k todo)])"
    by (intro list_all2_update_cong)
  moreover have "ops[i := Op_Write d] = ops" using p by (metis list_update_id)
  moreover have "\<forall>a < length old. ?mem ! a \<in> insert (old ! a) (put_at ops a)"
    using old v update_keeps [of "race_mem s" _ "\<lambda>a. insert (old ! a) (put_at ops a)"] by auto
  ultimately have "race_inv old ops (s\<lparr>race_mem := ?mem, race_clients := (race_clients s)[i := Storing d (remove1 k todo)]\<rparr>)"
    using len by (simp add: race_inv_def)
  with i k bounds show ?thesis by (simp add: copy_step_def Let_def)
qed

lemma loading_step:
  assumes ops: "\<forall>p \<in> set ops. op_ok (length old) p" and inv: "race_inv old ops s"
    and i: "i < length (race_clients s)" "race_clients s ! i = Loading d' todo" and k: "k \<in> set todo"
  shows "\<exists>s'. copy_step i k s = Inr s' \<and> race_inv old ops s'"
proof -
  from inv have l2: "list_all2 (client_ok old ops (race_mem s)) ops (race_clients s)"
    and len: "length (race_mem s) = length old"
    and old: "\<forall>a < length old. race_mem s ! a \<in> insert (old ! a) (put_at ops a)" by (auto simp: race_inv_def)
  from list_all2_nthD2 [OF l2 i(1)] i(2) have c: "client_ok old ops (race_mem s) (ops ! i) (Loading d' todo)" by simp
  then obtain d where p: "ops ! i = Op_Read d" by (cases "ops ! i") auto
  with c have d': "d'\<lparr>m_buff := m_buff d\<rparr> = d" by simp
  have same: "m_offset d' = m_offset d" "m_len d' = m_len d" using arg_cong [OF d', of m_offset] arg_cong [OF d', of m_len] by simp_all
  let ?a = "unat (the (m_offset d)) + k" and ?n = "unat (the (m_len d))"
  have "Op_Read d \<in> set ops" using i(1) p list_all2_lengthD [OF l2] nth_mem [of i ops] by simp
  with ops have ok: "read_request (length old) d" by fastforce
  have kn: "k < ?n" using k c p by auto
  have bounds: "?a < length (race_mem s)" "k < length (vmem (m_buff d'))"
    using ok kn len c p by (auto simp: read_request_def)
  let ?d = "d'\<lparr>m_buff := (m_buff d')\<lparr>vmem := (vmem (m_buff d'))[k := race_mem s ! ?a]\<rparr>\<rparr>"
  have "race_mem s ! ?a \<in> insert (old ! ?a) (put_at ops ?a)" using old bounds len by auto
  then have "client_ok old ops (race_mem s) (Op_Read d) (Loading ?d (remove1 k todo))"
    using c d' bounds by (auto simp: p nth_list_update)
  with l2 have "list_all2 (client_ok old ops (race_mem s)) (ops[i := Op_Read d])
      ((race_clients s)[i := Loading ?d (remove1 k todo)])"
    by (intro list_all2_update_cong)
  moreover have "ops[i := Op_Read d] = ops" using p by (metis list_update_id)
  ultimately have "race_inv old ops (s\<lparr>race_clients := (race_clients s)[i := Loading ?d (remove1 k todo)]\<rparr>)"
    using len old by (simp add: race_inv_def)
  with i k bounds same show ?thesis by (simp add: copy_step_def Let_def)
qed

lemma copy_step_inv:
  assumes "\<forall>p \<in> set ops. op_ok (length old) p" and "race_inv old ops s"
  shows "\<exists>s'. copy_step i k s = Inr s' \<and> race_inv old ops s'"
proof (cases "i < length (race_clients s)")
  case True
  show ?thesis
  proof (cases "race_clients s ! i")
    case (Storing d todo)
    with storing_step [OF assms True] assms(2) True show ?thesis
      by (cases "k \<in> set todo") (auto simp: copy_step_def)
  next
    case (Loading d todo)
    with loading_step [OF assms True] assms(2) True show ?thesis
      by (cases "k \<in> set todo") (auto simp: copy_step_def)
  qed
qed (use assms in \<open>simp add: copy_step_def\<close>)

lemma copy_run_inv:
  assumes ops: "\<forall>p \<in> set ops. op_ok (length old) p"
  shows "race_inv old ops s \<Longrightarrow> \<exists>s'. copy_run sched s = Inr s' \<and> race_inv old ops s'"
proof (induction sched arbitrary: s)
  case (Cons e sched)
  with copy_step_inv [OF ops Cons.prems, of "fst e" "snd e"] show ?case by (cases e) auto
qed simp

lemma race_invD:
  assumes "race_inv old ops s" and "i < length ops"
  shows "client_ok old ops (race_mem s) (ops ! i) (race_clients s ! i)"
  using assms by (auto simp: race_inv_def list_all2_nthD)

lemma put_at_none:
  "(\<And>d. Op_Write d \<in> set ops \<Longrightarrow> \<not> covers (write_of d) a) \<Longrightarrow> put_at ops a = {}"
  by (auto simp: put_at_def)

lemma put_at_only:
  assumes "\<And>d'. Op_Write d' \<in> set ops \<Longrightarrow> covers (write_of d') a \<Longrightarrow> d' = d"
  shows "put_at ops a \<subseteq> {snd (write_of d) ! (a - fst (write_of d))}"
  using assms by (auto simp: put_at_def)

section \<open>Properties\<close>

text \<open>
  Several workers in \<open>Read\<close> and \<open>Write\<close> of one \<open>DiskStorage\<close>, which share the position of its file:
  when all have returned, the file and what each of them returned are those of calling the
  operations one after another in some order.
\<close>

theorem disk_operations_are_serial:
  assumes run: "guarded_run disk_act sched (guarded_init (map disk_enter ops) s) = g"
    and left: "clients g = map (\<lambda>d. After (Inr d)) rs"
  shows "\<exists>order. distinct order \<and> set order = {..<length ops} \<and>
    disk_run (map ((!) ops) order) (ds_disk s) = Inr (ds_disk (shared g), map ((!) rs) order)"
proof -
  have "all_left g" using left by (simp add: all_left_def)
  from all_left_serial [OF run this] obtain order where
    o: "serially disk_act (map disk_enter ops) order s (shared g)" "distinct (map fst order)"
      "set (map fst order) = {..<length ops}" "\<forall>(i, r) \<in> set order. clients g ! i = After r" by auto
  have "length rs = length ops"
    using every_run_serialized [of disk_act "map disk_enter ops" s sched] run left by (auto simp: serialized_def)
  have "r = Inr (rs ! i)" if "(i, r) \<in> set order" for i r
  proof -
    from that have "i \<in> set (map fst order)" by force
    with o(3) that o(4) left \<open>length rs = length ops\<close> show ?thesis by auto
  qed
  then have "\<forall>(i, r) \<in> set order. r = Inr (rs ! i)" by auto
  from serial_disk_run [OF o(1) this] o(2,3) show ?thesis
    by (intro exI [of _ "map fst order"]) (simp add: comp_def)
qed

text \<open>Two writes of which the second gets the mutex first, on an empty file.\<close>

definition two_writes :: "storage_op list" where
  "two_writes = [Op_Write (write_data 0 [1, 2]), Op_Write (write_data 1 [3, 4])]"

definition empty_stream :: disk_stream where
  "empty_stream = \<lparr>ds_disk = \<lparr>m_file = [], failbit = False\<rparr>, ds_pos = 0\<rparr>"

theorem disk_operations_are_serial_witness:
  "\<exists>order. distinct order \<and> set order = {..<length two_writes} \<and>
    disk_run (map ((!) two_writes) order) (ds_disk empty_stream) =
      Inr (ds_disk (shared (guarded_run disk_act [(1, ()), (0, ()), (1, ()), (1, ()), (0, ()), (0, ()), (0, ())]
             (guarded_init (map disk_enter two_writes) empty_stream))),
           map ((!) [write_data 0 [1, 2], write_data 1 [3, 4]]) order)"
proof (rule disk_operations_are_serial [OF refl])
  show "clients (guarded_run disk_act [(1, ()), (0, ()), (1, ()), (1, ()), (0, ()), (0, ()), (0, ())]
      (guarded_init (map disk_enter two_writes) empty_stream)) =
    map (\<lambda>d. After (Inr d)) [write_data 0 [1, 2], write_data 1 [3, 4]]"
    by (simp add: two_writes_def empty_stream_def guarded_step_def guarded_init_def write_data_def
        fstream_seekp_def fstream_put_def)
qed

text \<open>
  Without the lock, a read of a \<open>MmapStorage\<close> that runs at the same time as a write of the same block
  may return a block that was never stored, here the first byte of the new one and the second byte of the
  old one.
\<close>

theorem mmap_torn_read:
  "\<exists>sched s d. copy_run sched (race_start [Some 1, Some 1] [Op_Write (write_data 0 [2, 2]), Op_Read (write_data 0 [0, 0])]) = Inr s \<and>
    race_clients s = [Storing (write_data 0 [2, 2]) [], Loading d []] \<and> race_mem s = [Some 2, Some 2] \<and>
    payload d = [Some 2, Some 1]"
proof -
  let ?d = "(write_data 0 [0, 0])\<lparr>m_buff := \<lparr>vsize = 0, vmem = [Some 2, Some 1]\<rparr>\<rparr>"
  have "copy_run [(0, 0), (1, 0), (1, 1), (0, 1)]
      (race_start [Some 1, Some 1] [Op_Write (write_data 0 [2, 2]), Op_Read (write_data 0 [0, 0])]) =
    Inr \<lparr>race_mem = [Some 2, Some 2], race_clients = [Storing (write_data 0 [2, 2]) [], Loading ?d []]\<rparr>"
    by (simp add: race_start_def write_data_def vec_reserve_def copy_step_def upt_rec Let_def)
  moreover have "payload ?d = [Some 2, Some 1]" by (simp add: payload_def write_data_def)
  ultimately show ?thesis by fastforce
qed

text \<open>
  C34: requests at a \<open>MmapStorage\<close> that do not overlap need no lock, whatever the order in which the bytes of
  all of them are copied: none faults, an ended read returns the block as it was before when no write
  touches it, and the payload of an ended write that overlaps no other is in the memory.
\<close>

theorem disjoint_requests_do_not_interfere:
  assumes ok: "\<forall>p \<in> set ops. op_ok (length old) p"
  shows "\<exists>s. copy_run sched (race_start old ops) = Inr s \<and>
    (\<forall>i d d'. i < length ops \<longrightarrow> ops ! i = Op_Read d \<longrightarrow> race_clients s ! i = Loading d' [] \<longrightarrow>
       (\<forall>e a. Op_Write e \<in> set ops \<longrightarrow> covers (write_of e) a \<longrightarrow>
          a \<notin> {unat (the (m_offset d))..<unat (the (m_offset d)) + unat (the (m_len d))}) \<longrightarrow>
       payload d' = stored_at old (unat (the (m_offset d))) (unat (the (m_len d)))) \<and>
    (\<forall>i d. i < length ops \<longrightarrow> ops ! i = Op_Write d \<longrightarrow> race_clients s ! i = Storing d [] \<longrightarrow>
       (\<forall>e a. Op_Write e \<in> set ops \<longrightarrow> e \<noteq> d \<longrightarrow> \<not> (covers (write_of e) a \<and> covers (write_of d) a)) \<longrightarrow>
       stored_at (race_mem s) (unat (the (m_offset d))) (unat (the (m_len d))) = payload d)"
proof -
  from copy_run_inv [OF ok race_inv_start [OF ok]] obtain s where
    run: "copy_run sched (race_start old ops) = Inr s" and inv: "race_inv old ops s" by blast
  have read: "payload d' = stored_at old (unat (the (m_offset d))) (unat (the (m_len d)))"
    if i: "i < length ops" "ops ! i = Op_Read d" "race_clients s ! i = Loading d' []"
      and alone: "\<forall>e a. Op_Write e \<in> set ops \<longrightarrow> covers (write_of e) a \<longrightarrow>
          a \<notin> {unat (the (m_offset d))..<unat (the (m_offset d)) + unat (the (m_len d))}" for i d d'
  proof -
    let ?o = "unat (the (m_offset d))" and ?n = "unat (the (m_len d))"
    have "Op_Read d \<in> set ops" using i nth_mem by metis
    with ok have r: "read_request (length old) d" by fastforce
    from race_invD [OF inv i(1)] i(2,3) have c: "d'\<lparr>m_buff := m_buff d\<rparr> = d" "?n \<le> length (vmem (m_buff d'))"
      and bytes: "\<forall>k < ?n. vmem (m_buff d') ! k \<in> insert (old ! (?o + k)) (put_at ops (?o + k))" by auto
    have "put_at ops (?o + k) = {}" if "k < ?n" for k
      using alone that by (intro put_at_none) force
    with bytes have "\<forall>k < ?n. vmem (m_buff d') ! k = old ! (?o + k)" by auto
    moreover have "m_len d' = m_len d" using arg_cong [OF c(1), of m_len] by simp
    ultimately show ?thesis
      using c(2) r by (intro nth_equalityI) (auto simp: payload_def stored_at_def read_request_def)
  qed
  have stored: "stored_at (race_mem s) (unat (the (m_offset d))) (unat (the (m_len d))) = payload d"
    if i: "i < length ops" "ops ! i = Op_Write d" "race_clients s ! i = Storing d []"
      and alone: "\<forall>e a. Op_Write e \<in> set ops \<longrightarrow> e \<noteq> d \<longrightarrow> \<not> (covers (write_of e) a \<and> covers (write_of d) a)" for i d
  proof -
    let ?o = "unat (the (m_offset d))" and ?n = "unat (the (m_len d))"
    have "Op_Write d \<in> set ops" using i nth_mem by metis
    with ok have w: "write_request (length old) d" by fastforce
    from race_invD [OF inv i(1)] i(2,3) have bytes: "\<forall>k < ?n. race_mem s ! (?o + k) \<in> put_at ops (?o + k)" by auto
    have "race_mem s ! (?o + k) = payload d ! k" if k: "k < ?n" for k
    proof -
      have "covers (write_of d) (?o + k)" using k w by (simp add: covers_def write_of_def write_request_def)
      then have "put_at ops (?o + k) \<subseteq> {snd (write_of d) ! (?o + k - fst (write_of d))}"
        using alone by (intro put_at_only) blast
      with bytes k show ?thesis by (auto simp: write_of_payload)
    qed
    moreover have "length (race_mem s) = length old" using inv by (simp add: race_inv_def)
    ultimately show ?thesis
      using w by (intro nth_equalityI) (auto simp: payload_def stored_at_def write_request_def)
  qed
  from run read stored show ?thesis by blast
qed

theorem disjoint_requests_do_not_interfere_witness:
  "\<exists>s d'. copy_run [(1, 1), (0, 0), (1, 0)] (race_start [Some 1, Some 2, Some 3] [Op_Write (write_data 2 [9]), Op_Read (write_data 0 [0, 0])]) = Inr s \<and>
    race_clients s ! 1 = Loading d' [] \<and> payload d' = [Some 1, Some 2] \<and> race_mem s ! 2 = Some 9"
proof -
  let ?ops = "[Op_Write (write_data 2 [9]), Op_Read (write_data 0 [0, 0])]"
  let ?old = "[Some 1, Some 2, Some 3] :: cell list"
  have ok: "\<forall>p \<in> set ?ops. op_ok (length ?old) p" by (simp add: write_request_def read_request_def write_data_def)
  from disjoint_requests_do_not_interfere [OF ok, of "[(1, 1), (0, 0), (1, 0)]"] obtain s where
    run: "copy_run [(1, 1), (0, 0), (1, 0)] (race_start ?old ?ops) = Inr s"
    and read: "\<And>d d'. race_clients s ! 1 = Loading d' [] \<Longrightarrow> ?ops ! 1 = Op_Read d \<Longrightarrow>
       (\<forall>e a. Op_Write e \<in> set ?ops \<longrightarrow> covers (write_of e) a \<longrightarrow>
          a \<notin> {unat (the (m_offset d))..<unat (the (m_offset d)) + unat (the (m_len d))}) \<Longrightarrow>
       payload d' = stored_at ?old (unat (the (m_offset d))) (unat (the (m_len d)))"
    by (metis (no_types, lifting) length_Cons lessI list.size(3) One_nat_def)
  let ?d = "(write_data 0 [0, 0])\<lparr>m_buff := \<lparr>vsize = 0, vmem = [Some 1, Some 2]\<rparr>\<rparr>"
  have "copy_run [(1, 1), (0, 0), (1, 0)] (race_start ?old ?ops) =
    Inr \<lparr>race_mem = [Some 1, Some 2, Some 9], race_clients = [Storing (write_data 2 [9]) [], Loading ?d []]\<rparr>"
    by (simp add: race_start_def write_data_def vec_reserve_def copy_step_def upt_rec Let_def)
  with run have s: "s = \<lparr>race_mem = [Some 1, Some 2, Some 9], race_clients = [Storing (write_data 2 [9]) [], Loading ?d []]\<rparr>"
    by simp
  have "payload ?d = stored_at ?old (unat (the (m_offset (write_data 0 [0, 0])))) (unat (the (m_len (write_data 0 [0, 0]))))"
    by (rule read) (auto simp: s covers_def write_of_def write_data_def)
  then have "payload ?d = [Some 1, Some 2]" by (simp add: stored_at_def write_data_def)
  with run s show ?thesis by simp
qed

end
