(* ===== verification/Concurrent_Requests.thy ===== *)
theory Concurrent_Requests
  imports Cloud_Storage
begin

text \<open>
  \<open>CloudStorage::Write\<close> and \<open>CloudStorage::Read\<close> (cloud_storage.cpp) run by several workers at once while the
  main thread looks up the ids of the replies.  A call has three steps: it looks the slave up, it gets an
  id for its handle, and it prints and sends the datagram.  Only the second one and the lookup of a reply
  change the storage; \<open>HandlerToId\<close> and \<open>IdToHandler\<close> hold \<open>m_mutex\<close> from their first to their last access, so
  that each is one step here.
\<close>

section \<open>A call step by step\<close>

datatype request_op = Request_Write DriverData | Request_Read DriverData

fun request_data :: "request_op \<Rightarrow> DriverData" where
  "request_data (Request_Write d) = d"
| "request_data (Request_Read d) = d"

datatype request_point =
    Started request_op
  | Looked_Up request_op "64 word" SlaveData "32 word"
  | Numbered request_op "64 word" SlaveData "32 word" "32 word"
  | Sent packet "32 word"

fun request_datagram :: "request_op \<Rightarrow> 64 word \<Rightarrow> 32 word \<Rightarrow> 32 word \<Rightarrow> cell list res" where
  "request_datagram (Request_Write data) off len req_id =
     bindE (sprintf_request (replicate BUFF_SIZE (Some 0)) off len req_id 49) (\<lambda>buf.
     bindE (skip_to_nul buf) (\<lambda>runner.
     mem_cpy buf (length buf - length runner + 1) (vmem (m_buff data)) (unat len)))"
| "request_datagram (Request_Read data) off len req_id =
     sprintf_request (replicate BUFF_SIZE (Some 0)) off len req_id 48"

fun request_step :: "(packet \<Rightarrow> bool) \<Rightarrow> request_point \<Rightarrow> CloudStorage \<Rightarrow> (request_point \<times> CloudStorage) res" where
  "request_step sendto (Started p) st =
     bindE (val (m_offset (request_data p))) (\<lambda>off.
     let (slave, st') = GetSlaveData st off in
     bindE (val (m_len (request_data p))) (\<lambda>len. Inr (Looked_Up p off slave len, st')))"
| "request_step sendto (Looked_Up p off slave len) st =
     bindE (HandlerToId st (m_handler (request_data p))) (\<lambda>(st', req_id).
     Inr (Numbered p off slave len req_id, st'))"
| "request_step sendto (Numbered p off slave len req_id) st =
     bindE (request_datagram p off len req_id) (\<lambda>buf.
     bindE (send_packet sendto \<lparr>pk_socket = sd_m_socket slave, pk_to = m_cliaddr slave, pk_data = buf\<rparr>)
       (\<lambda>pk. Inr (Sent pk req_id, st)))"
| "request_step sendto (Sent pk req_id) st = Inr (Sent pk req_id, st)"

text \<open>Without interruption, the steps are the function of cloud_storage.cpp.\<close>

lemma request_alone:
  "bindE (request_step sendto (Started p) st) (\<lambda>(q, st). bindE (request_step sendto q st) (\<lambda>(q, st).
   bindE (request_step sendto q st) (\<lambda>(q, st). Inr (st, case q of Sent pk req_id \<Rightarrow> pk)))) =
   (case p of Request_Write d \<Rightarrow> CloudStorage_Write sendto st d | Request_Read d \<Rightarrow> CloudStorage_Read sendto st d)"
  by (cases p) (auto simp: CloudStorage_Write_def CloudStorage_Read_def bindE_assoc Let_def send_packet_def
      split: prod.splits intro!: bindE_cong)

section \<open>Calls and replies in any order\<close>

text \<open>
  The reply to the request \<open>i\<close> brings its id back, once and after the datagram was sent; \<open>rq_given\<close> are the handles that
  the replies were given.
\<close>

record request_system =
  rq_storage :: CloudStorage
  rq_points :: "request_point list"
  rq_given :: "(nat \<times> cell list) list"

datatype request_event = Call nat | Reply nat

fun system_step :: "(packet \<Rightarrow> bool) \<Rightarrow> request_event \<Rightarrow> request_system \<Rightarrow> request_system res" where
  "system_step sendto (Call i) s =
     (if i < length (rq_points s)
      then bindE (request_step sendto (rq_points s ! i) (rq_storage s)) (\<lambda>(q, st).
           Inr (s\<lparr>rq_storage := st, rq_points := (rq_points s)[i := q]\<rparr>))
      else Inr s)"
| "system_step sendto (Reply i) s =
     (if i < length (rq_points s) \<and> i \<notin> fst ` set (rq_given s)
      then case rq_points s ! i of
          Sent pk req_id \<Rightarrow>
            bindE (claim_handler (rq_storage s) req_id) (\<lambda>(h, st).
            Inr (s\<lparr>rq_storage := st, rq_given := rq_given s @ [(i, h)]\<rparr>))
        | _ \<Rightarrow> Inr s
      else Inr s)"

fun system_run :: "(packet \<Rightarrow> bool) \<Rightarrow> request_event list \<Rightarrow> request_system \<Rightarrow> request_system res" where
  "system_run sendto [] s = Inr s"
| "system_run sendto (e # es) s = bindE (system_step sendto e s) (system_run sendto es)"

definition system_start :: "CloudStorage \<Rightarrow> request_op list \<Rightarrow> request_system" where
  "system_start st ops = \<lparr>rq_storage = st, rq_points = map Started ops, rq_given = []\<rparr>"

section \<open>The invariant\<close>

text \<open>The id of a request between \<open>HandlerToId\<close> and the lookup of its reply.\<close>

definition active_id :: "request_system \<Rightarrow> nat \<Rightarrow> 32 word option" where
  "active_id s i =
     (if i < length (rq_points s) then
        (case rq_points s ! i of
           Numbered p off slave len req_id \<Rightarrow> Some req_id
         | Sent pk req_id \<Rightarrow> if i \<in> fst ` set (rq_given s) then None else Some req_id
         | _ \<Rightarrow> None)
      else None)"

fun unnumbered :: "request_point \<Rightarrow> bool" where
  "unnumbered (Started p) = True"
| "unnumbered (Looked_Up p off slave len) = True"
| "unnumbered (Numbered p off slave len req_id) = False"
| "unnumbered (Sent pk req_id) = False"

text \<open>The requests whose datagram can be printed and filled.\<close>

definition request_ok :: "request_op \<Rightarrow> bool" where
  "request_ok p \<longleftrightarrow> is_handle (m_handler (request_data p)) \<and> m_offset (request_data p) \<noteq> None \<and>
     m_len (request_data p) \<noteq> None \<and>
     (\<forall>d. p = Request_Write d \<longrightarrow> unat (the (m_len d)) \<le> length (vmem (m_buff d)) \<and> unat (the (m_len d)) \<le> 4089)"

fun point_ok :: "SlaveData \<Rightarrow> request_op \<Rightarrow> request_point \<Rightarrow> bool" where
  "point_ok slave p (Started q) \<longleftrightarrow> q = p"
| "point_ok slave p (Looked_Up q off sl len) \<longleftrightarrow>
     q = p \<and> m_offset (request_data p) = Some off \<and> m_len (request_data p) = Some len \<and> sl = slave"
| "point_ok slave p (Numbered q off sl len req_id) \<longleftrightarrow>
     q = p \<and> m_offset (request_data p) = Some off \<and> m_len (request_data p) = Some len \<and> sl = slave"
| "point_ok slave p (Sent pk req_id) \<longleftrightarrow>
     (\<exists>off len. m_offset (request_data p) = Some off \<and> m_len (request_data p) = Some len \<and>
        pk = (case p of Request_Write d \<Rightarrow> write_packet slave off len req_id (payload d)
              | Request_Read d \<Rightarrow> read_packet slave off len req_id))"

definition system_inv :: "SlaveData \<Rightarrow> request_op list \<Rightarrow> request_system \<Rightarrow> bool" where
  "system_inv slave ops s \<longleftrightarrow>
     ids_inv (rq_storage s) \<and> (\<exists>k m. m_slaves (rq_storage s) = (k, slave) # m) \<and>
     list_all2 (point_ok slave) ops (rq_points s) \<and>
     length (filter unnumbered (rq_points s)) \<le> ids_left (rq_storage s) \<and>
     (\<forall>i rid. active_id s i = Some rid \<longrightarrow> in_flight (rq_storage s) rid = Some (m_handler (request_data (ops ! i)))) \<and>
     (\<forall>i j rid. active_id s i = Some rid \<longrightarrow> active_id s j = Some rid \<longrightarrow> i = j) \<and>
     distinct (map fst (rq_given s)) \<and>
     (\<forall>(i, h) \<in> set (rq_given s). i < length ops \<and> h = m_handler (request_data (ops ! i)))"

lemma request_datagram_ok:
  assumes "request_ok p" and "m_offset (request_data p) = Some off" and "m_len (request_data p) = Some len"
  shows "request_datagram p off len req_id =
    Inr (pk_data (case p of Request_Write d \<Rightarrow> write_packet slave off len req_id (payload d)
                  | Request_Read d \<Rightarrow> read_packet slave off len req_id))"
proof (cases p)
  case (Request_Write d)
  let ?h = "request_text off len req_id 49"
  have l: "length ?h + 1 \<le> BUFF_SIZE" "length ?h + 1 + unat len \<le> BUFF_SIZE"
    using length_request_text [of off len req_id 49] assms Request_Write
    by (auto simp: BUFF_SIZE_def request_ok_def)
  then have "length (message BUFF_SIZE ?h []) -
      length (Some 0 # [] @ replicate (BUFF_SIZE - (length ?h + 1 + length [])) (Some 0)) + 1 =
    Suc (length ?h)" by simp
  with assms l Request_Write show ?thesis
    by (simp add: wire_simps request_text_no_nul write_packet_def payload_def request_ok_def del: mem_cpy_ok)
next
  case (Request_Read d)
  with assms show ?thesis by (simp add: wire_simps read_packet_def)
qed

lemma system_invD:
  assumes "system_inv slave ops s"
  shows "ids_inv (rq_storage s)" and "\<exists>k m. m_slaves (rq_storage s) = (k, slave) # m"
    and "length (rq_points s) = length ops"
    and "i < length ops \<Longrightarrow> point_ok slave (ops ! i) (rq_points s ! i)"
    and "length (filter unnumbered (rq_points s)) \<le> ids_left (rq_storage s)"
    and "active_id s i = Some rid \<Longrightarrow> in_flight (rq_storage s) rid = Some (m_handler (request_data (ops ! i)))"
    and "active_id s i = Some rid \<Longrightarrow> active_id s j = Some rid \<Longrightarrow> i = j"
    and "distinct (map fst (rq_given s))"
    and "(i, h) \<in> set (rq_given s) \<Longrightarrow> i < length ops \<and> h = m_handler (request_data (ops ! i))"
  using assms unfolding system_inv_def by (auto dest: list_all2_lengthD list_all2_nthD)

lemma system_invI:
  assumes "ids_inv (rq_storage s)" and "\<exists>k m. m_slaves (rq_storage s) = (k, slave) # m"
    and "length (rq_points s) = length ops"
    and "\<And>i. i < length ops \<Longrightarrow> point_ok slave (ops ! i) (rq_points s ! i)"
    and "length (filter unnumbered (rq_points s)) \<le> ids_left (rq_storage s)"
    and "\<And>i rid. active_id s i = Some rid \<Longrightarrow> in_flight (rq_storage s) rid = Some (m_handler (request_data (ops ! i)))"
    and "\<And>i j rid. active_id s i = Some rid \<Longrightarrow> active_id s j = Some rid \<Longrightarrow> i = j"
    and "distinct (map fst (rq_given s))"
    and "\<And>i h. (i, h) \<in> set (rq_given s) \<Longrightarrow> i < length ops \<and> h = m_handler (request_data (ops ! i))"
  shows "system_inv slave ops s"
  unfolding system_inv_def using assms by (simp add: list_all2_conv_all_nth) blast

lemma unnumbered_update:
  "i < length xs \<Longrightarrow> unnumbered (xs ! i) = unnumbered x \<Longrightarrow>
   length (filter unnumbered (xs[i := x])) = length (filter unnumbered xs)"
  "i < length xs \<Longrightarrow> unnumbered (xs ! i) \<Longrightarrow> \<not> unnumbered x \<Longrightarrow>
   Suc (length (filter unnumbered (xs[i := x]))) = length (filter unnumbered xs)"
  by (induction xs arbitrary: i; auto split: nat.splits simp: less_Suc_eq_0_disj)+

text \<open>A step that leaves the storage and the active rid of its request alone.\<close>

lemma quiet_step:
  assumes inv: "system_inv slave ops s" and i: "i < length (rq_points s)"
    and ok: "point_ok slave (ops ! i) q" and un: "unnumbered q = unnumbered (rq_points s ! i)"
    and act: "active_id (s\<lparr>rq_points := (rq_points s)[i := q]\<rparr>) i = active_id s i"
  shows "system_inv slave ops (s\<lparr>rq_points := (rq_points s)[i := q]\<rparr>)"
proof -
  let ?s = "s\<lparr>rq_points := (rq_points s)[i := q]\<rparr>"
  note D = system_invD [OF inv]
  have act: "active_id ?s j = active_id s j" for j
    using act by (cases "j = i"; cases "rq_points s ! j") (simp_all add: active_id_def)
  show ?thesis
    using D i ok un unnumbered_update(1) [OF i, of q]
    by (intro system_invI) (auto simp: act nth_list_update)
qed

lemma Call_step:
  assumes inv: "system_inv slave ops s" and ops: "\<forall>p \<in> set ops. request_ok p" and sendto: "\<forall>pk. sendto pk"
    and i: "i < length (rq_points s)"
  shows "\<exists>s'. system_step sendto (Call i) s = Inr s' \<and> system_inv slave ops s'"
proof -
  note D = system_invD [OF inv]
  let ?p = "ops ! i"
  have len: "i < length ops" using i D(3) by simp
  then have ok: "request_ok ?p" and pok: "point_ok slave ?p (rq_points s ! i)"
    using ops D(4) by auto
  from D(2) obtain k m where sl: "m_slaves (rq_storage s) = (k, slave) # m" by blast
  show ?thesis
  proof (cases "rq_points s ! i")
    case (Started q)
    from ok obtain off ln where some: "m_offset (request_data ?p) = Some off" "m_len (request_data ?p) = Some ln"
      by (auto simp: request_ok_def)
    let ?q = "Looked_Up ?p off slave ln"
    have "system_inv slave ops (s\<lparr>rq_points := (rq_points s)[i := ?q]\<rparr>)"
      using some Started i by (intro quiet_step [OF inv i]) (auto simp: active_id_def)
    with some Started pok i show ?thesis by (simp add: slaves_index_nonempty [OF sl])
  next
    case (Looked_Up q off sl' ln)
    then have q: "q = ?p" "sl' = slave" "m_offset (request_data ?p) = Some off" "m_len (request_data ?p) = Some ln"
      using pok by auto
    have "0 < length (filter unnumbered (rq_points s))"
      using i Looked_Up nth_mem [OF i] by (auto simp: filter_empty_conv intro: bexI [of _ "rq_points s ! i"])
    from less_le_trans [OF this D(5)] have room: "0 < ids_left (rq_storage s)" .
    have h: "is_handle (m_handler (request_data ?p))" using ok by (simp add: request_ok_def)
    from HandlerToId_law [OF D(1) h room] obtain st' req_id where
      st': "HandlerToId (rq_storage s) (m_handler (request_data ?p)) = Inr (st', req_id)" "ids_inv st'"
        "in_flight (rq_storage s) req_id = None"
        "in_flight st' = (in_flight (rq_storage s))(req_id \<mapsto> m_handler (request_data ?p))"
        "Suc (ids_left st') = ids_left (rq_storage s)" by blast
    have slaves: "m_slaves st' = (k, slave) # m"
      using st'(1) HandlerToId_ok [OF D(1) h room] sl by auto
    let ?s = "s\<lparr>rq_storage := st', rq_points := (rq_points s)[i := Numbered ?p off slave ln req_id]\<rparr>"
    have act: "active_id ?s j = (if j = i then Some req_id else active_id s j)" for j
      using i by (cases "j = i"; cases "rq_points s ! j") (simp_all add: active_id_def)
    have fresh: "active_id s j \<noteq> Some req_id" for j using D(6) [of j req_id] st'(3) by auto
    have "system_inv slave ops ?s"
    proof (rule system_invI)
      show "length (filter unnumbered (rq_points ?s)) \<le> ids_left (rq_storage ?s)"
        using unnumbered_update(2) [OF i, of "Numbered ?p off slave ln req_id"] Looked_Up D(5) st'(5) by simp
      show "a = b" if "active_id ?s a = Some rid" "active_id ?s b = Some rid" for a b rid
        using that fresh D(7) [of a rid b] by (auto simp: act split: if_splits)
      show "in_flight (rq_storage ?s) rid = Some (m_handler (request_data (ops ! a)))"
        if "active_id ?s a = Some rid" for a rid
        using that fresh [of a] D(6) [of a rid] by (auto simp: act st'(4) split: if_splits)
    qed (use D slaves st' q len in \<open>auto simp: nth_list_update\<close>)
    with Looked_Up q st' i show ?thesis by simp
  next
    case (Numbered q off sl' ln req_id)
    then have q: "q = ?p" "sl' = slave" "m_offset (request_data ?p) = Some off" "m_len (request_data ?p) = Some ln"
      using pok by auto
    define pk where "pk = (case ?p of Request_Write d \<Rightarrow> write_packet slave off ln req_id (payload d)
              | Request_Read d \<Rightarrow> read_packet slave off ln req_id)"
    have pk: "pk = \<lparr>pk_socket = sd_m_socket slave, pk_to = m_cliaddr slave, pk_data = pk_data pk\<rparr>"
      by (simp add: pk_def write_packet_def read_packet_def split: request_op.splits)
    have step: "request_step sendto (rq_points s ! i) (rq_storage s) = Inr (Sent pk req_id, rq_storage s)"
      using request_datagram_ok [OF ok q(3,4), of req_id slave] sendto pk
      by (simp add: Numbered q(1,2) send_packet_def pk_def [symmetric])
    let ?s = "s\<lparr>rq_points := (rq_points s)[i := Sent pk req_id]\<rparr>"
    have pok': "point_ok slave ?p (Sent pk req_id)" using q by (auto simp: pk_def)
    have "system_inv slave ops ?s"
    proof (cases "i \<in> fst ` set (rq_given s)")
      case False
      then show ?thesis
        using q Numbered i by (intro quiet_step [OF inv i]) (auto simp: active_id_def pk_def)
    next
      case True
      have act: "active_id ?s j = (if j = i then None else active_id s j)" for j
        using i True by (cases "j = i"; cases "rq_points s ! j") (simp_all add: active_id_def)
      show ?thesis
        using D pok' Numbered i unnumbered_update(1) [OF i, of "Sent pk req_id"]
        by (intro system_invI) (auto simp: act nth_list_update simp del: point_ok.simps split: if_splits)
    qed
    with step i show ?thesis by simp
  next
    case (Sent pk req_id)
    then have "(rq_points s)[i := Sent pk req_id] = rq_points s" by (metis list_update_id)
    with Sent inv i show ?thesis by simp
  qed
qed

lemma Reply_step:
  assumes inv: "system_inv slave ops s"
  shows "\<exists>s'. system_step sendto (Reply i) s = Inr s' \<and> system_inv slave ops s'"
proof (cases "i < length (rq_points s) \<and> i \<notin> fst ` set (rq_given s) \<and> (\<exists>pk req_id. rq_points s ! i = Sent pk req_id)")
  case True
  then obtain pk req_id where i: "i < length (rq_points s)" "i \<notin> fst ` set (rq_given s)"
    and sent: "rq_points s ! i = Sent pk req_id" by auto
  note D = system_invD [OF inv]
  let ?h = "m_handler (request_data (ops ! i))"
  have act: "active_id s i = Some req_id" using i sent by (simp add: active_id_def)
  from claim_handler_law [OF D(1) D(6) [OF act]] obtain st' where
    st': "claim_handler (rq_storage s) req_id = Inr (?h, st')" "ids_inv st'"
      "in_flight st' = (in_flight (rq_storage s))(req_id := None)" "ids_left st' = ids_left (rq_storage s)" by blast
  have slaves: "m_slaves st' = m_slaves (rq_storage s)"
    using st'(1) by (auto simp: claim_handler_def IdToHandler_def bindE_Inr_iff split: if_splits)
  let ?s = "s\<lparr>rq_storage := st', rq_given := rq_given s @ [(i, ?h)]\<rparr>"
  have act': "active_id ?s j = (if j = i then None else active_id s j)" for j
    using i sent by (auto simp: active_id_def split: request_point.splits)
  have "system_inv slave ops ?s"
  proof (rule system_invI)
    show "in_flight (rq_storage ?s) rid = Some (m_handler (request_data (ops ! a)))"
      if "active_id ?s a = Some rid" for a rid
      using that D(6) [of a rid] D(7) [OF act, of a] by (auto simp: act' st'(3) split: if_splits)
    show "a = b" if "active_id ?s a = Some rid" "active_id ?s b = Some rid" for a b rid
      using that D(7) [of a rid b] by (auto simp: act' split: if_splits)
  qed (use D slaves st' i in auto)
  with i sent st' show ?thesis by simp
next
  case False
  with inv show ?thesis by (auto split: request_point.splits)
qed

lemma system_run_ok:
  assumes "\<forall>p \<in> set ops. request_ok p" and "\<forall>pk. sendto pk"
  shows "system_inv slave ops s \<Longrightarrow> \<exists>s'. system_run sendto es s = Inr s' \<and> system_inv slave ops s'"
proof (induction es arbitrary: s)
  case (Cons e es)
  have "\<exists>s'. system_step sendto e s = Inr s' \<and> system_inv slave ops s'"
  proof (cases e)
    case (Call i)
    with Call_step [OF Cons.prems assms, of i] Cons.prems show ?thesis by (cases "i < length (rq_points s)") auto
  next
    case (Reply i)
    with Reply_step [OF Cons.prems] show ?thesis by simp
  qed
  with Cons.IH show ?case by auto
qed simp

lemma system_inv_start:
  assumes "ids_inv st" and "m_slaves st = (k, slave) # m" and "length ops \<le> ids_left st"
  shows "system_inv slave ops (system_start st ops)"
proof -
  have "active_id (system_start st ops) i = None" for i by (simp add: active_id_def system_start_def)
  moreover have "length (filter unnumbered (map Started ops)) \<le> ids_left st"
    using assms(3) length_filter_le [of unnumbered "map Started ops"] by simp
  ultimately show ?thesis
    using assms by (intro system_invI) (auto simp: system_start_def)
qed

section \<open>Calls that happen at once\<close>

text \<open>
  The same system with calls that nobody interrupts: \<open>at_sent\<close> has the datagram of each call and its id, which is
  the counter behind it.
\<close>

record atomic_system =
  at_storage :: CloudStorage
  at_sent :: "nat \<Rightarrow> (packet \<times> 32 word) option"
  at_given :: "(nat \<times> cell list) list"

datatype atomic_event = Whole_Call nat | Answer nat

fun whole_call :: "(packet \<Rightarrow> bool) \<Rightarrow> CloudStorage \<Rightarrow> request_op \<Rightarrow> (CloudStorage \<times> packet) res" where
  "whole_call sendto st (Request_Write d) = CloudStorage_Write sendto st d"
| "whole_call sendto st (Request_Read d) = CloudStorage_Read sendto st d"

fun atomic_step :: "(packet \<Rightarrow> bool) \<Rightarrow> request_op list \<Rightarrow> atomic_event \<Rightarrow> atomic_system \<Rightarrow> atomic_system res" where
  "atomic_step sendto ops (Whole_Call i) a =
     bindE (whole_call sendto (at_storage a) (ops ! i)) (\<lambda>(st, pk).
     Inr (a\<lparr>at_storage := st, at_sent := (at_sent a)(i \<mapsto> (pk, cs_m_req_id st))\<rparr>))"
| "atomic_step sendto ops (Answer i) a =
     (case at_sent a i of
        None \<Rightarrow> Inr a
      | Some (pk, rid) \<Rightarrow>
          bindE (claim_handler (at_storage a) rid) (\<lambda>(h, st).
          Inr (a\<lparr>at_storage := st, at_given := at_given a @ [(i, h)]\<rparr>)))"

fun atomic_run :: "(packet \<Rightarrow> bool) \<Rightarrow> request_op list \<Rightarrow> atomic_event list \<Rightarrow> atomic_system \<Rightarrow> atomic_system res" where
  "atomic_run sendto ops [] a = Inr a"
| "atomic_run sendto ops (e # es) a = bindE (atomic_step sendto ops e a) (atomic_run sendto ops es)"

lemma atomic_run_append:
  "atomic_run sendto ops (xs @ ys) a = bindE (atomic_run sendto ops xs a) (atomic_run sendto ops ys)"
  by (induction xs arbitrary: a) (auto simp: bindE_assoc intro!: bindE_cong)

definition request_packet :: "SlaveData \<Rightarrow> request_op \<Rightarrow> 64 word \<Rightarrow> 32 word \<Rightarrow> 32 word \<Rightarrow> packet" where
  "request_packet slave p off len rid =
     (case p of Request_Write d \<Rightarrow> write_packet slave off len rid (payload d)
      | Request_Read d \<Rightarrow> read_packet slave off len rid)"

text \<open>A call counts as done from the moment on when it has its id.\<close>

fun done_packet :: "request_point \<Rightarrow> (packet \<times> 32 word) option" where
  "done_packet (Numbered p off slave len rid) = Some (request_packet slave p off len rid, rid)"
| "done_packet (Sent pk rid) = Some (pk, rid)"
| "done_packet _ = None"

definition abstracts :: "request_system \<Rightarrow> atomic_system \<Rightarrow> bool" where
  "abstracts s a \<longleftrightarrow> at_storage a = rq_storage s \<and> at_given a = rq_given s \<and>
     (\<forall>i < length (rq_points s). at_sent a i = done_packet (rq_points s ! i))"

lemma whole_call_ok:
  assumes "ids_inv st" and "0 < ids_left st" and "request_ok p" and "m_slaves st = (k, slave) # m"
    and "m_offset (request_data p) = Some off" and "m_len (request_data p) = Some len" and "\<forall>pk. sendto pk"
  shows "HandlerToId st (m_handler (request_data p)) =
      Inr (st\<lparr>cs_m_req_id := cs_m_req_id st + 1,
              m_list := (cs_m_req_id st + 1, m_handler (request_data p)) # m_list st\<rparr>, cs_m_req_id st + 1)"
    and "whole_call sendto st p =
      Inr (st\<lparr>cs_m_req_id := cs_m_req_id st + 1,
              m_list := (cs_m_req_id st + 1, m_handler (request_data p)) # m_list st\<rparr>,
           request_packet slave p off len (cs_m_req_id st + 1))"
proof -
  have h: "is_handle (m_handler (request_data p))" using assms(3) by (simp add: request_ok_def)
  then show "HandlerToId st (m_handler (request_data p)) =
      Inr (st\<lparr>cs_m_req_id := cs_m_req_id st + 1,
              m_list := (cs_m_req_id st + 1, m_handler (request_data p)) # m_list st\<rparr>, cs_m_req_id st + 1)"
    using HandlerToId_ok [OF assms(1) _ assms(2)] by simp
  have "length (request_text off len (cs_m_req_id st + 1) 49) \<le> 46" by (rule length_request_text)
  with h assms show "whole_call sendto st p =
      Inr (st\<lparr>cs_m_req_id := cs_m_req_id st + 1,
              m_list := (cs_m_req_id st + 1, m_handler (request_data p)) # m_list st\<rparr>,
           request_packet slave p off len (cs_m_req_id st + 1))"
    by (cases p) (auto simp: CloudStorage_Write_eq CloudStorage_Read_eq request_packet_def request_ok_def
        BUFF_SIZE_def Let_def)
qed

text \<open>Every step is one atomic event, or none.\<close>

lemma Call_simulated:
  assumes inv: "system_inv slave ops s" and ops: "\<forall>p \<in> set ops. request_ok p" and sendto: "\<forall>pk. sendto pk"
    and abs: "abstracts s a" and step: "system_step sendto (Call i) s = Inr s'"
  shows "\<exists>es a'. atomic_run sendto ops es a = Inr a' \<and> abstracts s' a'"
proof (cases "i < length (rq_points s)")
  case True
  note D = system_invD [OF inv]
  have stutter: "\<exists>es a'. atomic_run sendto ops es a = Inr a' \<and> abstracts s' a'"
    if "s' = s\<lparr>rq_points := (rq_points s)[i := q]\<rparr>" "done_packet q = done_packet (rq_points s ! i)" for q
    using abs that True by (intro exI [of _ "[]"]) (auto simp: abstracts_def nth_list_update)
  let ?p = "ops ! i"
  have len: "i < length ops" using True D(3) by simp
  then have ok: "request_ok ?p" and pok: "point_ok slave ?p (rq_points s ! i)" using ops D(4) by auto
  from D(2) obtain k m where sl: "m_slaves (rq_storage s) = (k, slave) # m" by blast
  show ?thesis
  proof (cases "rq_points s ! i")
    case (Started q)
    with step True stutter show ?thesis
      by (auto simp: bindE_Inr_iff slaves_index_nonempty [OF sl])
  next
    case (Looked_Up q off sl' ln)
    then have q: "q = ?p" "sl' = slave" "m_offset (request_data ?p) = Some off" "m_len (request_data ?p) = Some ln"
      using pok by auto
    have "0 < length (filter unnumbered (rq_points s))"
      using True Looked_Up nth_mem [OF True] by (auto simp: filter_empty_conv intro: bexI [of _ "rq_points s ! i"])
    from less_le_trans [OF this D(5)] have room: "0 < ids_left (rq_storage s)" .
    let ?rid = "cs_m_req_id (rq_storage s) + 1"
    let ?st = "(rq_storage s)\<lparr>cs_m_req_id := ?rid, m_list := (?rid, m_handler (request_data ?p)) # m_list (rq_storage s)\<rparr>"
    note w = whole_call_ok [OF D(1) room ok sl q(3,4) sendto]
    have s': "s' = s\<lparr>rq_storage := ?st, rq_points := (rq_points s)[i := Numbered ?p off slave ln ?rid]\<rparr>"
      using step True Looked_Up q w(1) by simp
    let ?a = "a\<lparr>at_storage := ?st, at_sent := (at_sent a)(i \<mapsto> (request_packet slave ?p off ln ?rid, ?rid))\<rparr>"
    have "atomic_run sendto ops [Whole_Call i] a = Inr ?a"
      using w(2) abs by (simp add: abstracts_def)
    moreover have "abstracts s' ?a"
      using abs True by (auto simp: abstracts_def s' nth_list_update)
    ultimately show ?thesis by blast
  next
    case (Numbered q off sl' ln rid)
    then have q: "q = ?p" "sl' = slave" "m_offset (request_data ?p) = Some off" "m_len (request_data ?p) = Some ln"
      using pok by auto
    let ?pk = "request_packet slave ?p off ln rid"
    have pk: "\<lparr>pk_socket = sd_m_socket slave, pk_to = m_cliaddr slave, pk_data = pk_data ?pk\<rparr> = ?pk"
      by (simp add: request_packet_def write_packet_def read_packet_def split: request_op.splits)
    have "request_step sendto (rq_points s ! i) (rq_storage s) = Inr (Sent ?pk rid, rq_storage s)"
      using request_datagram_ok [OF ok q(3,4), of rid slave] sendto
      by (simp add: Numbered q(1,2) send_packet_def request_packet_def [symmetric] pk)
    with step True have "s' = s\<lparr>rq_points := (rq_points s)[i := Sent ?pk rid]\<rparr>" by simp
    then show ?thesis using Numbered q by (intro stutter [of "Sent ?pk rid"]) simp_all
  next
    case (Sent pk rid)
    with step True have "s' = s\<lparr>rq_points := (rq_points s)[i := Sent pk rid]\<rparr>" by simp
    with Sent show ?thesis by (intro stutter [of "Sent pk rid"]) simp_all
  qed
next
  case False
  with step abs show ?thesis by (intro exI [of _ "[]"]) auto
qed

lemma Reply_simulated:
  assumes abs: "abstracts s a" and step: "system_step sendto (Reply i) s = Inr s'"
  shows "\<exists>es a'. atomic_run sendto ops es a = Inr a' \<and> abstracts s' a'"
proof (cases "i < length (rq_points s) \<and> i \<notin> fst ` set (rq_given s) \<and> (\<exists>pk rid. rq_points s ! i = Sent pk rid)")
  case True
  then obtain pk rid where i: "i < length (rq_points s)" "i \<notin> fst ` set (rq_given s)" "rq_points s ! i = Sent pk rid" by auto
  with step obtain h st where c: "claim_handler (rq_storage s) rid = Inr (h, st)"
    and s': "s' = s\<lparr>rq_storage := st, rq_given := rq_given s @ [(i, h)]\<rparr>" by (auto simp: bindE_Inr_iff)
  have "atomic_run sendto ops [Answer i] a = Inr (a\<lparr>at_storage := st, at_given := at_given a @ [(i, h)]\<rparr>)"
    using abs i c by (simp add: abstracts_def)
  moreover have "abstracts s' (a\<lparr>at_storage := st, at_given := at_given a @ [(i, h)]\<rparr>)"
    using abs by (simp add: abstracts_def s')
  ultimately show ?thesis by blast
next
  case False
  with step have "s' = s" by (auto split: request_point.splits if_splits)
  with abs show ?thesis by (intro exI [of _ "[]"]) simp
qed

lemma run_simulated:
  assumes ops: "\<forall>p \<in> set ops. request_ok p" and sendto: "\<forall>pk. sendto pk"
  shows "system_inv slave ops s \<Longrightarrow> abstracts s a \<Longrightarrow> system_run sendto events s = Inr s' \<Longrightarrow>
    \<exists>es a'. atomic_run sendto ops es a = Inr a' \<and> abstracts s' a'"
proof (induction events arbitrary: s a)
  case Nil
  then show ?case by (intro exI [of _ "[]"]) simp
next
  case (Cons e events)
  then obtain s1 where s1: "system_step sendto e s = Inr s1" "system_run sendto events s1 = Inr s'"
    by (auto simp: bindE_Inr_iff)
  have "system_run sendto [e] s = Inr s1" using s1(1) by simp
  with system_run_ok [OF ops sendto Cons.prems(1), of "[e]"] have inv: "system_inv slave ops s1" by simp
  obtain es a1 where a1: "atomic_run sendto ops es a = Inr a1" "abstracts s1 a1"
  proof (cases e)
    case (Call i)
    with Call_simulated [OF Cons.prems(1) ops sendto Cons.prems(2)] s1(1) that show ?thesis by blast
  next
    case (Reply i)
    with Reply_simulated [OF Cons.prems(2)] s1(1) that show ?thesis by blast
  qed
  from Cons.IH [OF inv a1(2) s1(2)] obtain es' a' where
    "atomic_run sendto ops es' a1 = Inr a'" "abstracts s' a'" by blast
  with a1(1) show ?case by (intro exI [of _ "es @ es'"]) (simp add: atomic_run_append)
qed

section \<open>Properties\<close>

text \<open>
  C15: workers that run \<open>Write\<close> and \<open>Read\<close> at the same time, while replies to the datagrams that were sent already
  come in, in any interleaving: no step faults; every datagram that was sent is the one of its request, with an id that no
  other request that waits for its reply has; and a reply is given the handle of the request it answers, each handle once.
\<close>

theorem concurrent_requests_match:
  assumes "ids_inv st" and "m_slaves st = (k, slave) # m" and "length ops \<le> ids_left st"
    and "\<forall>p \<in> set ops. request_ok p" and "\<forall>pk. sendto pk"
  shows "\<exists>s. system_run sendto events (system_start st ops) = Inr s \<and>
    (\<forall>i pk rid. i < length ops \<longrightarrow> rq_points s ! i = Sent pk rid \<longrightarrow> point_ok slave (ops ! i) (Sent pk rid)) \<and>
    (\<forall>i j rid. active_id s i = Some rid \<longrightarrow> active_id s j = Some rid \<longrightarrow> i = j) \<and>
    (\<forall>(i, h) \<in> set (rq_given s). i < length ops \<and> h = m_handler (request_data (ops ! i))) \<and>
    distinct (map fst (rq_given s))"
proof -
  from system_run_ok [OF assms(4,5) system_inv_start [OF assms(1-3)]] obtain s where
    run: "system_run sendto events (system_start st ops) = Inr s" and inv: "system_inv slave ops s" by blast
  note D = system_invD [OF inv]
  have "point_ok slave (ops ! i) (Sent pk rid)" if "i < length ops" "rq_points s ! i = Sent pk rid" for i pk rid
    using D(4) [OF that(1)] that(2) by (simp only:)
  moreover have "\<forall>(i, h) \<in> set (rq_given s). i < length ops \<and> h = m_handler (request_data (ops ! i))"
    using D(9) by auto
  ultimately show ?thesis using run D(7,8) by blast
qed

text \<open>A write and a read; the second one gets its id, and its reply, first.\<close>

definition two_requests :: "request_op list" where
  "two_requests =
     [Request_Write (new_DriverData\<lparr>m_handler := replicate 8 (Some 1), m_offset := Some 0, m_len := Some 1,
        m_buff := \<lparr>vsize = 0, vmem = [Some 9]\<rparr>\<rparr>),
      Request_Read (new_DriverData\<lparr>m_handler := replicate 8 (Some 2), m_offset := Some 0, m_len := Some 1\<rparr>)]"

definition two_requests_events :: "request_event list" where
  "two_requests_events = [Call 0, Call 1, Call 1, Call 0, Call 1, Reply 1, Call 0, Reply 0]"

theorem concurrent_requests_match_witness:
  "\<exists>s. system_run (\<lambda>pk. True) two_requests_events (system_start (one_slave \<lparr>sin_port = 1, sin_addr = 2\<rparr>) two_requests) = Inr s \<and>
    distinct (map fst (rq_given s)) \<and> set (rq_given s) \<subseteq> {(0, replicate 8 (Some 1)), (1, replicate 8 (Some 2))}"
proof -
  have ok: "\<forall>p \<in> set two_requests. request_ok p"
    by (simp add: two_requests_def request_ok_def is_handle_def HANDLE_SIZE_def)
  have room: "length two_requests \<le> ids_left (one_slave \<lparr>sin_port = 1, sin_addr = 2\<rparr>)"
    by (simp add: two_requests_def)
  from concurrent_requests_match [OF _ one_slave_facts(3) room ok, of "\<lambda>pk. True" two_requests_events]
  obtain s where s: "system_run (\<lambda>pk. True) two_requests_events
      (system_start (one_slave \<lparr>sin_port = 1, sin_addr = 2\<rparr>) two_requests) = Inr s" "distinct (map fst (rq_given s))"
    "\<forall>(i, h) \<in> set (rq_given s). i < length two_requests \<and> h = m_handler (request_data (two_requests ! i))"
    by auto
  from s(3) have "set (rq_given s) \<subseteq> {(0, replicate 8 (Some 1)), (1, replicate 8 (Some 2))}"
    by (auto simp: two_requests_def less_Suc_eq)
  with s(1,2) show ?thesis by blast
qed

text \<open>
  C16: each call has its effect at one moment: for every interleaving there is a sequence of whole calls of
  \<open>Write\<close> and \<open>Read\<close> and of replies after which the table, the counter and the handles given back are
  the same, and every datagram that was sent is the one that its whole call sent.
\<close>

theorem calls_appear_atomic:
  assumes "ids_inv st" and "m_slaves st = (k, slave) # m" and "length ops \<le> ids_left st"
    and "\<forall>p \<in> set ops. request_ok p" and "\<forall>pk. sendto pk"
    and "system_run sendto events (system_start st ops) = Inr s"
  shows "\<exists>es a. atomic_run sendto ops es \<lparr>at_storage = st, at_sent = (\<lambda>_. None), at_given = []\<rparr> = Inr a \<and>
    at_storage a = rq_storage s \<and> at_given a = rq_given s \<and>
    (\<forall>i pk rid. i < length (rq_points s) \<longrightarrow> rq_points s ! i = Sent pk rid \<longrightarrow> at_sent a i = Some (pk, rid))"
proof -
  have "abstracts (system_start st ops) \<lparr>at_storage = st, at_sent = (\<lambda>_. None), at_given = []\<rparr>"
    by (simp add: abstracts_def system_start_def)
  from run_simulated [OF assms(4,5) system_inv_start [OF assms(1-3)] this assms(6)] obtain es a where
    "atomic_run sendto ops es \<lparr>at_storage = st, at_sent = (\<lambda>_. None), at_given = []\<rparr> = Inr a" "abstracts s a" by blast
  then show ?thesis by (intro exI [of _ es] exI [of _ a]) (simp add: abstracts_def)
qed

theorem calls_appear_atomic_witness:
  "\<exists>s es a. system_run (\<lambda>pk. True) two_requests_events (system_start (one_slave \<lparr>sin_port = 1, sin_addr = 2\<rparr>) two_requests) = Inr s \<and>
    atomic_run (\<lambda>pk. True) two_requests es
      \<lparr>at_storage = one_slave \<lparr>sin_port = 1, sin_addr = 2\<rparr>, at_sent = (\<lambda>_. None), at_given = []\<rparr> = Inr a \<and>
    at_storage a = rq_storage s \<and> at_given a = rq_given s"
proof -
  have ok: "\<forall>p \<in> set two_requests. request_ok p"
    by (simp add: two_requests_def request_ok_def is_handle_def HANDLE_SIZE_def)
  have room: "length two_requests \<le> ids_left (one_slave \<lparr>sin_port = 1, sin_addr = 2\<rparr>)"
    by (simp add: two_requests_def)
  have send: "\<forall>pk :: packet. (\<lambda>pk. True) pk" by simp
  from system_run_ok [OF ok send system_inv_start [OF one_slave_facts(1,3) room], of two_requests_events] obtain s where
    s: "system_run (\<lambda>pk. True) two_requests_events
      (system_start (one_slave \<lparr>sin_port = 1, sin_addr = 2\<rparr>) two_requests) = Inr s" by blast
  from calls_appear_atomic [OF one_slave_facts(1,3) room ok send s] s show ?thesis by blast
qed

end
