(* ===== verification/Signal_Setup.thy ===== *)
theory Signal_Setup
  imports Programs Logger Plug_And_Play
begin

text \<open>
  The signal functions of all releases of the master (release/greencloud.0.1.cpp to
  release/greencloud.0.5.cpp): the mask of the main thread, the handlers it installs, and the lines
  they write to the log.  The releases differ in the lines of the source that the log names, and
  release/slave.cpp, whose functions are those of \<open>Programs\<close>, does not log at all.  Which thread
  takes a signal, and what that thread does then, follows from the masks.
\<close>

section \<open>The state of the process\<close>

text \<open>
  What the system keeps: the blocked signals of the main thread and, for each signal whose handler is
  \<open>ExitLoop\<close>, the mask during the handler.  \<open>SIGKILL\<close> and \<open>SIGSTOP\<close> cannot be blocked.
\<close>

record sig_process =
  blocked :: "string set"
  installed :: "string \<Rightarrow> string set option"

definition block_all_of :: "string set \<Rightarrow> string set" where
  "block_all_of m = m - {''SIGKILL'', ''SIGSTOP''}"

text \<open>
  A computation that logs: the calls of \<open>Logger::Write\<close> it makes, with their level, message and line, then its
  result.
\<close>

type_synonym log_call = "Loglvl \<times> string \<times> int"
type_synonym 'a logged = "log_call list \<times> 'a res"

definition bindL :: "'a logged \<Rightarrow> ('a \<Rightarrow> 'b logged) \<Rightarrow> 'b logged" where
  "bindL m f = (case m of (l, Inl e) \<Rightarrow> (l, Inl e) | (l, Inr v) \<Rightarrow> (case f v of (l', r) \<Rightarrow> (l @ l', r)))"

lemma bindL_simps [simp]:
  "bindL (l, Inl e) f = (l, Inl e)"
  "bindL (l, Inr v) f = (l @ fst (f v), snd (f v))"
  by (simp_all add: bindL_def split: prod.splits)

text \<open>The lines of a release whose numbers the log gets.\<close>

record log_lines =
  ln_SigAdd :: int
  ln_Sigaction :: int
  ln_SigEmpty :: int
  ln_SetSigMask :: int
  ln_begin :: int
  ln_done :: int

section \<open>The functions of the releases\<close>

text \<open>
  \<open>sys\<close> is what the calls return, 0 for success.  \<open>act\<close> is the \<open>sa_mask\<close> of the \<open>struct sigaction\<close>, whose
  handler is \<open>ExitLoop\<close> and whose flags are 0 from \<open>SigEmpty\<close> on.
\<close>

definition SigAdd_log :: "log_lines \<Rightarrow> (sig_call \<Rightarrow> int) \<Rightarrow> string set \<Rightarrow> string \<Rightarrow> string set logged" where
  "SigAdd_log ln sys act sig =
     (if sys (Sigaddset sig) \<noteq> 0
      then ([(LOG_ERROR, ''SigAdd() fail to set signals'', ln_SigAdd ln)],
            Inl (Runtime_Error ''SigAdd() - fail to set signals''))
      else ([], Inr (insert sig act)))"

definition Sigaction_log :: "log_lines \<Rightarrow> (sig_call \<Rightarrow> int) \<Rightarrow> string set \<Rightarrow> string \<Rightarrow> sig_process \<Rightarrow> sig_process logged" where
  "Sigaction_log ln sys act sig ps =
     (if sys (Sigaction sig) \<noteq> 0
      then ([(LOG_ERROR, ''Sigaction() fail to set signals'', ln_Sigaction ln)],
            Inl (Runtime_Error ''Sigaction() fail to set signals''))
      else ([], Inr (ps\<lparr>installed := (installed ps)(sig \<mapsto> act)\<rparr>)))"

definition SigEmpty_log :: "log_lines \<Rightarrow> (sig_call \<Rightarrow> int) \<Rightarrow> string set logged" where
  "SigEmpty_log ln sys =
     (if sys Sigemptyset \<noteq> 0
      then ([(LOG_ERROR, ''SigEmpty() fail to set signals'', ln_SigEmpty ln)],
            Inl (Runtime_Error ''SigEmpty() fail to set signals''))
      else ([], Inr {}))"

definition SetSigMask_log :: "log_lines \<Rightarrow> (sig_call \<Rightarrow> int) \<Rightarrow> sig_process \<Rightarrow> sig_process logged" where
  "SetSigMask_log ln sys ps =
     (if sys Sigfillset + sys (Sigdelset ''SIGINT'') + sys (Sigdelset ''SIGTERM'') + sys Sigprocmask \<noteq> 0
      then ([(LOG_ERROR, ''SetSigMask() fail to set signals'', ln_SetSigMask ln)],
            Inl (Runtime_Error ''SetSigMask() fail to set signals''))
      else ([], Inr (ps\<lparr>blocked := block_all_of (UNIV - {''SIGINT''} - {''SIGTERM''})\<rparr>)))"

definition MainThreadSetSignals_log :: "log_lines \<Rightarrow> (sig_call \<Rightarrow> int) \<Rightarrow> sig_process \<Rightarrow> sig_process logged" where
  "MainThreadSetSignals_log ln sys ps =
     bindL ([(LOG_DEBUG, ''setting main thread signls'', ln_begin ln)], Inr ()) (\<lambda>_.
     bindL (SetSigMask_log ln sys ps) (\<lambda>ps.
     bindL (SigEmpty_log ln sys) (\<lambda>act.
     bindL (SigAdd_log ln sys act ''SIGINT'') (\<lambda>act.
     bindL (SigAdd_log ln sys act ''SIGTERM'') (\<lambda>act.
     bindL (Sigaction_log ln sys act ''SIGINT'' ps) (\<lambda>ps.
     bindL (Sigaction_log ln sys act ''SIGTERM'' ps) (\<lambda>ps.
     ([(LOG_INFO, ''main thread signls are set'', ln_done ln)], Inr ps))))))))"

text \<open>The releases.\<close>

definition v01_MainThreadSetSignals :: "(sig_call \<Rightarrow> int) \<Rightarrow> sig_process \<Rightarrow> sig_process logged" where
  "v01_MainThreadSetSignals = MainThreadSetSignals_log
     \<lparr>ln_SigAdd = 232, ln_Sigaction = 247, ln_SigEmpty = 265, ln_SetSigMask = 286, ln_begin = 295, ln_done = 306\<rparr>"

definition v015_MainThreadSetSignals :: "(sig_call \<Rightarrow> int) \<Rightarrow> sig_process \<Rightarrow> sig_process logged" where
  "v015_MainThreadSetSignals = MainThreadSetSignals_log
     \<lparr>ln_SigAdd = 242, ln_Sigaction = 257, ln_SigEmpty = 275, ln_SetSigMask = 296, ln_begin = 305, ln_done = 316\<rparr>"

definition v02_MainThreadSetSignals :: "(sig_call \<Rightarrow> int) \<Rightarrow> sig_process \<Rightarrow> sig_process logged" where
  "v02_MainThreadSetSignals = MainThreadSetSignals_log
     \<lparr>ln_SigAdd = 227, ln_Sigaction = 242, ln_SigEmpty = 260, ln_SetSigMask = 281, ln_begin = 290, ln_done = 301\<rparr>"

definition v025_MainThreadSetSignals :: "(sig_call \<Rightarrow> int) \<Rightarrow> sig_process \<Rightarrow> sig_process logged" where
  "v025_MainThreadSetSignals = MainThreadSetSignals_log
     \<lparr>ln_SigAdd = 233, ln_Sigaction = 248, ln_SigEmpty = 266, ln_SetSigMask = 287, ln_begin = 296, ln_done = 307\<rparr>"

definition v03_MainThreadSetSignals :: "(sig_call \<Rightarrow> int) \<Rightarrow> sig_process \<Rightarrow> sig_process logged" where
  "v03_MainThreadSetSignals = MainThreadSetSignals_log
     \<lparr>ln_SigAdd = 178, ln_Sigaction = 193, ln_SigEmpty = 211, ln_SetSigMask = 232, ln_begin = 241, ln_done = 252\<rparr>"

definition v04_MainThreadSetSignals :: "(sig_call \<Rightarrow> int) \<Rightarrow> sig_process \<Rightarrow> sig_process logged" where
  "v04_MainThreadSetSignals = MainThreadSetSignals_log
     \<lparr>ln_SigAdd = 185, ln_Sigaction = 198, ln_SigEmpty = 214, ln_SetSigMask = 233, ln_begin = 241, ln_done = 253\<rparr>"

definition v05_lines :: log_lines where
  "v05_lines =
     \<lparr>ln_SigAdd = 181, ln_Sigaction = 194, ln_SigEmpty = 210, ln_SetSigMask = 229, ln_begin = 237, ln_done = 249\<rparr>"

text \<open>The lines of the log in the file, as \<open>Logger::Write\<close> appends them.\<close>

fun write_logs :: "int \<Rightarrow> cell list \<Rightarrow> byte list \<Rightarrow> cell list \<Rightarrow> log_call list \<Rightarrow> Logger \<Rightarrow> Logger res" where
  "write_logs pid time_str th_str src_file [] log = Inr log"
| "write_logs pid time_str th_str src_file ((lvl, msg, line) # calls) log =
     bindE (Logger_Write pid time_str th_str log lvl (bytes_of msg) src_file line)
       (write_logs pid time_str th_str src_file calls)"

section \<open>What the set-up reaches\<close>

definition signals_ready :: "sig_process" where
  "signals_ready =
     \<lparr>blocked = UNIV - {''SIGINT'', ''SIGTERM'', ''SIGKILL'', ''SIGSTOP''},
      installed = [''SIGINT'' \<mapsto> {''SIGINT'', ''SIGTERM''}, ''SIGTERM'' \<mapsto> {''SIGINT'', ''SIGTERM''}]\<rparr>"

lemma block_all_of_set_up:
  "block_all_of (UNIV - {''SIGINT''} - {''SIGTERM''}) = UNIV - {''SIGINT'', ''SIGTERM'', ''SIGKILL'', ''SIGSTOP''}"
  by (auto simp: block_all_of_def)

text \<open>The logging functions and those that do not log give the same result, apart from the state.\<close>

lemma MainThreadSetSignals_erase:
  "(case snd (MainThreadSetSignals_log ln sys ps) of Inl f \<Rightarrow> Inl f | Inr _ \<Rightarrow> Inr ()) = MainThreadSetSignals sys"
  by (simp add: MainThreadSetSignals_log_def MainThreadSetSignals_def SetSigMask_log_def SetSigMask_def
      SigEmpty_log_def SigEmpty_def SigAdd_log_def SigAdd_def Sigaction_log_def set_Sigaction_def)


section \<open>Who takes a signal\<close>

text \<open>
  The threads of the master.  The thread of the device is made by the driver before the set-up of the
  signals, with the mask \<open>m0\<close> that the main thread has then, and blocks all signals when it has called
  \<open>SubThreadSetSignals\<close>: \<open>Nbd_Thread\<close> says whether it has.  The workers of the pool and the thread of the
  \<open>DirMonitor\<close> are made by the request engine after the set-up and keep the mask of the main thread.
  A signal for the process is taken by any thread that does not block it.
\<close>

datatype thread = Main_Thread | Nbd_Thread bool | Monitor_Thread | Worker nat







section \<open>Properties\<close>

text \<open>
  The set-up of the signals, in every release: when the calls succeed, the main thread blocks
  every signal that can be blocked but \<open>SIGINT\<close> and \<open>SIGTERM\<close>, whose handlers are installed and block each
  other, and the log has two lines; when calls fail, the log has the first line and one error line, of the first function that
  failed, and the result is that of the functions without a log: the exception of that function.
\<close>

theorem signals_set_up:
  assumes "\<And>c. sys c \<in> {0, -1}"
  shows "MainThreadSetSignals_log ln sys \<lparr>blocked = m, installed = Map.empty\<rparr> =
    (if \<forall>c \<in> {Sigfillset, Sigdelset ''SIGINT'', Sigdelset ''SIGTERM'', Sigprocmask, Sigemptyset,
              Sigaddset ''SIGINT'', Sigaddset ''SIGTERM'', Sigaction ''SIGINT'', Sigaction ''SIGTERM''}. sys c = 0
     then ([(LOG_DEBUG, ''setting main thread signls'', ln_begin ln),
            (LOG_INFO, ''main thread signls are set'', ln_done ln)], Inr signals_ready)
     else let (name, text, line) =
         (if \<exists>c \<in> {Sigfillset, Sigdelset ''SIGINT'', Sigdelset ''SIGTERM'', Sigprocmask}. sys c \<noteq> 0
          then (''SetSigMask()'', ''SetSigMask() fail to set signals'', ln_SetSigMask ln)
          else if sys Sigemptyset \<noteq> 0 then (''SigEmpty()'', ''SigEmpty() fail to set signals'', ln_SigEmpty ln)
          else if sys (Sigaddset ''SIGINT'') \<noteq> 0 \<or> sys (Sigaddset ''SIGTERM'') \<noteq> 0
          then (''SigAdd()'', ''SigAdd() - fail to set signals'', ln_SigAdd ln)
          else (''Sigaction()'', ''Sigaction() fail to set signals'', ln_Sigaction ln))
       in ([(LOG_DEBUG, ''setting main thread signls'', ln_begin ln),
            (LOG_ERROR, name @ '' fail to set signals'', line)], Inl (Runtime_Error text)))"
proof -
  have neg: "sys c \<le> 0" for c using assms [of c] by auto
  have "sys Sigfillset + sys (Sigdelset ''SIGINT'') + sys (Sigdelset ''SIGTERM'') + sys Sigprocmask = 0 \<longleftrightarrow>
      sys Sigfillset = 0 \<and> sys (Sigdelset ''SIGINT'') = 0 \<and> sys (Sigdelset ''SIGTERM'') = 0 \<and> sys Sigprocmask = 0"
    using neg [of Sigfillset] neg [of "Sigdelset ''SIGINT''"] neg [of "Sigdelset ''SIGTERM''"] neg [of Sigprocmask]
    by linarith
  then show ?thesis
    by (simp add: MainThreadSetSignals_log_def SetSigMask_log_def SigEmpty_log_def SigAdd_log_def
        Sigaction_log_def block_all_of_set_up signals_ready_def insert_commute)
qed

theorem signals_set_up_witness:
  "MainThreadSetSignals_log v05_lines (\<lambda>c. 0) \<lparr>blocked = {}, installed = Map.empty\<rparr> =
     ([(LOG_DEBUG, ''setting main thread signls'', 237), (LOG_INFO, ''main thread signls are set'', 249)], Inr signals_ready) \<and>
   MainThreadSetSignals_log v05_lines (\<lambda>c. if c = Sigaddset ''SIGTERM'' then -1 else 0) \<lparr>blocked = {}, installed = Map.empty\<rparr> =
     ([(LOG_DEBUG, ''setting main thread signls'', 237), (LOG_ERROR, ''SigAdd() fail to set signals'', 181)],
      Inl (Runtime_Error ''SigAdd() - fail to set signals''))"
  using signals_set_up [of "\<lambda>c. 0" v05_lines "{}"]
    signals_set_up [of "\<lambda>c. if c = Sigaddset ''SIGTERM'' then -1 else 0" v05_lines "{}"]
  by (simp add: v05_lines_def)



end
