(* ===== verification/Reentrant_Notify.thy ===== *)
theory Reentrant_Notify
  imports Dispatcher
begin

text \<open>
  \<open>Dispatcher::NotifyAll\<close> (dispatcher_callback.hpp) when the observers change the subscriptions while they
  are notified: \<open>Remove\<close> makes the vector shorter and \<open>Add\<close> may give it a new buffer, and the loop goes on with
  its two old iterators.  The abstract specification is the view that one dispatcher has of the store; the
  store of \<open>Dispatcher\<close> refines it.
\<close>

section \<open>The specification: one vector and the loop\<close>

text \<open>
  The vector of one dispatcher with its capacity and a number for its buffer, and the callbacks that
  exist.  An observer destroys callbacks, its own too, or creates them at the dispatcher; it holds
  them in pointers that are reset when they are destroyed, so that it never destroys one twice.
\<close>

record 'm subject =
  m_callbacks :: "nat list"
  vec_capacity :: nat
  vec_buffer :: nat
  existing :: "nat set"
  notified :: "(nat \<times> 'm) list"

datatype reaction = Destroy nat | Create nat

definition subject_Remove :: "nat \<Rightarrow> 'm subject \<Rightarrow> 'm subject" where
  "subject_Remove c s =
     (if c \<in> existing s
      then s\<lparr>m_callbacks := Dispatcher_Remove c (m_callbacks s), existing := existing s - {c}\<rparr> else s)"

text \<open>\<open>grow\<close> is the new capacity that the library chooses, at least one more than the old one.\<close>

definition subject_Add :: "(nat \<Rightarrow> nat) \<Rightarrow> nat \<Rightarrow> 'm subject \<Rightarrow> 'm subject" where
  "subject_Add grow c s =
     (let s' = s\<lparr>m_callbacks := Dispatcher_Add c (m_callbacks s), existing := insert c (existing s)\<rparr>
      in if length (m_callbacks s) < vec_capacity s then s'
         else s'\<lparr>vec_capacity := max (Suc (vec_capacity s)) (grow (vec_capacity s)), vec_buffer := Suc (vec_buffer s)\<rparr>)"

fun react :: "(nat \<Rightarrow> nat) \<Rightarrow> reaction \<Rightarrow> 'm subject \<Rightarrow> 'm subject" where
  "react grow (Destroy c) s = subject_Remove c s"
| "react grow (Create c) s = subject_Add grow c s"

definition observer_Notify :: "(nat \<Rightarrow> nat) \<Rightarrow> (nat \<Rightarrow> reaction list) \<Rightarrow> 'm \<Rightarrow> nat \<Rightarrow> 'm subject \<Rightarrow> 'm subject res" where
  "observer_Notify grow reactions msg c s =
     (if c \<in> existing s
      then Inr (fold (react grow) (reactions c) (s\<lparr>notified := notified s @ [(c, msg)]\<rparr>))
      else Inl Dangling)"

text \<open>\<open>k\<close> elements are left between the iterator, at position \<open>i\<close> of the buffer \<open>b\<close>, and the old \<open>end()\<close>.\<close>

fun notify_loop :: "(nat \<Rightarrow> nat) \<Rightarrow> (nat \<Rightarrow> reaction list) \<Rightarrow> 'm \<Rightarrow> nat \<Rightarrow> nat \<Rightarrow> nat \<Rightarrow> 'm subject \<Rightarrow> 'm subject res" where
  "notify_loop grow reactions msg b 0 i s = Inr s"
| "notify_loop grow reactions msg b (Suc k) i s =
     (if vec_buffer s \<noteq> b then Inl Dangling
      else if length (m_callbacks s) \<le> i then Inl OutOfBounds
      else bindE (observer_Notify grow reactions msg (m_callbacks s ! i) s)
             (notify_loop grow reactions msg b k (Suc i)))"

definition subject_NotifyAll :: "(nat \<Rightarrow> nat) \<Rightarrow> (nat \<Rightarrow> reaction list) \<Rightarrow> 'm \<Rightarrow> 'm subject \<Rightarrow> 'm subject res" where
  "subject_NotifyAll grow reactions msg s =
     notify_loop grow reactions msg (vec_buffer s) (length (m_callbacks s)) 0 s"

text \<open>The subjects of the program: what is subscribed exists, once, and fits the buffer.\<close>

definition subject_ok :: "'m subject \<Rightarrow> bool" where
  "subject_ok s \<longleftrightarrow> distinct (m_callbacks s) \<and> set (m_callbacks s) \<subseteq> existing s \<and>
     length (m_callbacks s) \<le> vec_capacity s"

section \<open>Observers that destroy callbacks\<close>

fun destroys :: "reaction \<Rightarrow> bool" where
  "destroys (Destroy c) = True"
| "destroys (Create c) = False"

lemma Dispatcher_Remove_absent: "c \<notin> set cs \<Longrightarrow> Dispatcher_Remove c cs = cs"
proof -
  have "c \<notin> set cs \<Longrightarrow> remove_loop c cs i = cs" for i
  proof (induction c cs i rule: remove_loop.induct)
    case (1 c cs i)
    then show ?case by (subst remove_loop.simps) auto
  qed
  then show "c \<notin> set cs \<Longrightarrow> Dispatcher_Remove c cs = cs" by (simp add: Dispatcher_Remove_def)
qed

lemma destroy_fold:
  assumes "subject_ok s" and "\<forall>r \<in> set rs. destroys r"
  shows "subject_ok (fold (react grow) rs s) \<and> vec_buffer (fold (react grow) rs s) = vec_buffer s \<and>
    notified (fold (react grow) rs s) = notified s \<and>
    length (m_callbacks (fold (react grow) rs s)) \<le> length (m_callbacks s) \<and>
    ((\<exists>c \<in> set (m_callbacks s). Destroy c \<in> set rs) \<longrightarrow>
       length (m_callbacks (fold (react grow) rs s)) < length (m_callbacks s)) \<and>
    ((\<forall>c \<in> set (m_callbacks s). Destroy c \<notin> set rs) \<longrightarrow>
       m_callbacks (fold (react grow) rs s) = m_callbacks s)"
  using assms
proof (induction rs arbitrary: s)
  case (Cons r rs)
  then obtain c where r: "r = Destroy c" by (cases r) auto
  let ?s = "subject_Remove c s"
  have d: "distinct (m_callbacks s)" "set (m_callbacks s) \<subseteq> existing s"
    using Cons.prems(1) by (auto simp: subject_ok_def)
  have cs: "m_callbacks ?s = Dispatcher_Remove c (m_callbacks s)"
  proof (cases "c \<in> existing s")
    case False
    with d(2) have "c \<notin> set (m_callbacks s)" by auto
    with False show ?thesis by (simp add: subject_Remove_def Dispatcher_Remove_absent)
  qed (simp add: subject_Remove_def)
  have ok: "subject_ok ?s"
    using Cons.prems(1) distinct_Dispatcher_Remove [OF d(1), of c] length_Dispatcher_Remove [of c "m_callbacks s"]
    by (auto simp: subject_ok_def subject_Remove_def split: if_splits)
  have same: "vec_buffer ?s = vec_buffer s" "notified ?s = notified s" by (simp_all add: subject_Remove_def)
  have len: "length (m_callbacks ?s) = (if c \<in> set (m_callbacks s) then length (m_callbacks s) - 1 else length (m_callbacks s))"
    by (simp add: cs length_Dispatcher_Remove)
  have sub: "set (m_callbacks ?s) = set (m_callbacks s) - {c}"
    by (simp add: cs distinct_Dispatcher_Remove [OF d(1)])
  note IH = Cons.IH [OF ok]
  have rs: "\<forall>r \<in> set rs. destroys r" using Cons.prems(2) by simp
  show ?case
  proof (cases "c \<in> set (m_callbacks s)")
    case True
    then have "0 < length (m_callbacks s)" by (auto simp: in_set_conv_nth)
    with IH [OF rs] same len True show ?thesis by (auto simp: r)
  next
    case False
    then have "m_callbacks ?s = m_callbacks s" by (simp add: cs Dispatcher_Remove_absent)
    with IH [OF rs] same False show ?thesis by (auto simp: r)
  qed
qed simp

lemma observer_destroys:
  assumes "subject_ok s" and "i < length (m_callbacks s)" and "\<forall>c. \<forall>r \<in> set (reactions c). destroys r"
  obtains s' where "observer_Notify grow reactions msg (m_callbacks s ! i) s = Inr s'" "subject_ok s'"
    "vec_buffer s' = vec_buffer s" "notified s' = notified s @ [(m_callbacks s ! i, msg)]"
    "length (m_callbacks s') \<le> length (m_callbacks s)"
    "\<exists>c \<in> set (m_callbacks s). Destroy c \<in> set (reactions (m_callbacks s ! i)) \<Longrightarrow>
       length (m_callbacks s') < length (m_callbacks s)"
    "\<forall>c \<in> set (m_callbacks s). Destroy c \<notin> set (reactions (m_callbacks s ! i)) \<Longrightarrow> m_callbacks s' = m_callbacks s"
proof -
  let ?c = "m_callbacks s ! i" and ?s = "s\<lparr>notified := notified s @ [(m_callbacks s ! i, msg)]\<rparr>"
  have "?c \<in> existing s" using assms(1,2) by (auto simp: subject_ok_def)
  moreover have "subject_ok ?s" using assms(1) by (simp add: subject_ok_def)
  ultimately show ?thesis
    using destroy_fold [of ?s "reactions ?c" grow] assms(3)
    by (intro that [of "fold (react grow) (reactions ?c) ?s"]) (auto simp: observer_Notify_def)
qed

text \<open>Once the vector is shorter than the loop expects, the loop leaves it.\<close>

lemma short_vector:
  "subject_ok s \<Longrightarrow> vec_buffer s = b \<Longrightarrow> \<forall>c. \<forall>r \<in> set (reactions c). destroys r \<Longrightarrow>
   length (m_callbacks s) < i + Suc k \<Longrightarrow> notify_loop grow reactions msg b (Suc k) i s = Inl OutOfBounds"
proof (induction k arbitrary: i s)
  case (Suc k)
  show ?case
  proof (cases "i < length (m_callbacks s)")
    case True
    obtain s' where "observer_Notify grow reactions msg (m_callbacks s ! i) s = Inr s'" "subject_ok s'"
      "vec_buffer s' = vec_buffer s" "length (m_callbacks s') \<le> length (m_callbacks s)"
      using observer_destroys [OF Suc.prems(1) True Suc.prems(3)] by metis
    with Suc.IH [of s' "Suc i"] Suc.prems True show ?thesis by simp
  qed (use Suc.prems in simp)
qed simp

text \<open>Some observer from the position \<open>i\<close> on, but the last, destroys a subscribed callback.\<close>

definition unsubscribes :: "(nat \<Rightarrow> reaction list) \<Rightarrow> nat list \<Rightarrow> nat \<Rightarrow> bool" where
  "unsubscribes reactions cs i \<longleftrightarrow>
     (\<exists>j. i \<le> j \<and> Suc j < length cs \<and> (\<exists>c \<in> set cs. Destroy c \<in> set (reactions (cs ! j))))"

lemma destroying_loop:
  assumes "\<forall>c. \<forall>r \<in> set (reactions c). destroys r"
  shows "subject_ok s \<Longrightarrow> vec_buffer s = b \<Longrightarrow> length (m_callbacks s) = i + k \<Longrightarrow> m_callbacks s = cs \<Longrightarrow>
    (if unsubscribes reactions cs i
     then notify_loop grow reactions msg b k i s = Inl OutOfBounds
     else \<exists>s'. notify_loop grow reactions msg b k i s = Inr s' \<and>
       notified s' = notified s @ map (\<lambda>c. (c, msg)) (drop i cs))"
proof (induction k arbitrary: i s)
  case (Suc k)
  have i: "i < length (m_callbacks s)" using Suc.prems by simp
  obtain s' where s': "observer_Notify grow reactions msg (m_callbacks s ! i) s = Inr s'" "subject_ok s'"
    "vec_buffer s' = vec_buffer s" "notified s' = notified s @ [(m_callbacks s ! i, msg)]"
    "\<exists>c \<in> set (m_callbacks s). Destroy c \<in> set (reactions (m_callbacks s ! i)) \<Longrightarrow>
       length (m_callbacks s') < length (m_callbacks s)"
    "\<forall>c \<in> set (m_callbacks s). Destroy c \<notin> set (reactions (m_callbacks s ! i)) \<Longrightarrow> m_callbacks s' = m_callbacks s"
    using observer_destroys [OF Suc.prems(1) i assms] by metis
  have step: "notify_loop grow reactions msg b (Suc k) i s = notify_loop grow reactions msg b k (Suc i) s'"
    using i s'(1) Suc.prems(2) by simp
  have drop: "drop i cs = cs ! i # drop (Suc i) cs" using i Suc.prems(4) by (simp add: Cons_nth_drop_Suc)
  show ?case
  proof (cases "\<exists>c \<in> set cs. Destroy c \<in> set (reactions (cs ! i))")
    case True
    show ?thesis
    proof (cases k)
      case 0
      with Suc.prems have "\<not> unsubscribes reactions cs i" by (auto simp: unsubscribes_def)
      with 0 Suc.prems s'(4) step drop show ?thesis by auto
    next
      case (Suc k')
      with True s'(5) Suc.prems have "length (m_callbacks s') < Suc i + Suc k'" by simp
      from short_vector [OF s'(2) _ assms this, of b grow msg] s'(3) Suc.prems(2) Suc step
      have "notify_loop grow reactions msg b (Suc (Suc k')) i s = Inl OutOfBounds" by simp
      moreover have "Suc i < length cs" using Suc Suc.prems(3,4) by simp
      then have "unsubscribes reactions cs i" using True by (auto simp: unsubscribes_def)
      ultimately show ?thesis using Suc by (simp del: notify_loop.simps)
    qed
  next
    case False
    with s'(6) Suc.prems(4) have same: "m_callbacks s' = cs" by blast
    have "unsubscribes reactions cs i \<longleftrightarrow> unsubscribes reactions cs (Suc i)"
      unfolding unsubscribes_def using False by (metis Suc_leD le_antisym not_less_eq_eq)
    with Suc.IH [of s' "Suc i"] s' same Suc.prems step drop show ?thesis
      by (cases "unsubscribes reactions cs (Suc i)") simp_all
  qed
qed (auto simp: unsubscribes_def)

section \<open>Observers that create callbacks\<close>

fun creates :: "reaction \<Rightarrow> bool" where
  "creates (Create c) = True"
| "creates (Destroy c) = False"

lemma create_fold:
  assumes "\<forall>r \<in> set rs. creates r" and "length (m_callbacks s) \<le> vec_capacity s"
  shows "\<exists>new. length new = length rs \<and> m_callbacks (fold (react grow) rs s) = m_callbacks s @ new \<and>
    existing s \<subseteq> existing (fold (react grow) rs s) \<and> notified (fold (react grow) rs s) = notified s \<and>
    vec_buffer s \<le> vec_buffer (fold (react grow) rs s) \<and>
    length (m_callbacks (fold (react grow) rs s)) \<le> vec_capacity (fold (react grow) rs s) \<and>
    (if length (m_callbacks s) + length rs \<le> vec_capacity s
     then vec_buffer (fold (react grow) rs s) = vec_buffer s \<and> vec_capacity (fold (react grow) rs s) = vec_capacity s
     else vec_buffer s < vec_buffer (fold (react grow) rs s))"
  using assms
proof (induction rs arbitrary: s)
  case (Cons r rs)
  then obtain c where r: "r = Create c" by (cases r) auto
  let ?s = "subject_Add grow c s"
  have step: "m_callbacks ?s = m_callbacks s @ [c]" "existing s \<subseteq> existing ?s" "notified ?s = notified s"
    by (auto simp: subject_Add_def Dispatcher_Add_def Let_def)
  have buf: "if length (m_callbacks s) < vec_capacity s then vec_buffer ?s = vec_buffer s \<and> vec_capacity ?s = vec_capacity s
     else vec_buffer ?s = Suc (vec_buffer s)"
    by (simp add: subject_Add_def Let_def)
  have fits: "length (m_callbacks ?s) \<le> vec_capacity ?s"
    using Cons.prems(2) by (auto simp: subject_Add_def Dispatcher_Add_def Let_def)
  from Cons.IH [OF _ fits] Cons.prems(1) obtain new where
    new: "length new = length rs" "m_callbacks (fold (react grow) rs ?s) = m_callbacks ?s @ new"
      "existing ?s \<subseteq> existing (fold (react grow) rs ?s)" "notified (fold (react grow) rs ?s) = notified ?s"
      "vec_buffer ?s \<le> vec_buffer (fold (react grow) rs ?s)"
      "length (m_callbacks (fold (react grow) rs ?s)) \<le> vec_capacity (fold (react grow) rs ?s)"
      "if length (m_callbacks ?s) + length rs \<le> vec_capacity ?s
       then vec_buffer (fold (react grow) rs ?s) = vec_buffer ?s \<and> vec_capacity (fold (react grow) rs ?s) = vec_capacity ?s
       else vec_buffer ?s < vec_buffer (fold (react grow) rs ?s)" by auto
  have "if length (m_callbacks s) + length (r # rs) \<le> vec_capacity s
     then vec_buffer (fold (react grow) (r # rs) s) = vec_buffer s \<and> vec_capacity (fold (react grow) (r # rs) s) = vec_capacity s
     else vec_buffer s < vec_buffer (fold (react grow) (r # rs) s)"
    using new(5,7) buf step(1) by (auto simp: r split: if_splits)
  then show ?case
    using new step buf by (intro exI [of _ "c # new"]) (auto simp: r split: if_splits)
qed simp

text \<open>What the observers at the positions from \<open>i\<close> on, but the last, create.\<close>

definition created :: "(nat \<Rightarrow> reaction list) \<Rightarrow> nat list \<Rightarrow> nat" where
  "created reactions cs = (\<Sum>c \<leftarrow> butlast cs. length (reactions c))"

lemma creating_loop:
  assumes cr: "\<forall>c. \<forall>r \<in> set (reactions c). creates r"
  shows "set cs \<subseteq> existing s \<Longrightarrow> vec_buffer s = b \<Longrightarrow> length (m_callbacks s) \<le> vec_capacity s \<Longrightarrow>
    m_callbacks s = old @ cs @ rest \<Longrightarrow> length old = i \<Longrightarrow>
    (if length (m_callbacks s) + created reactions cs \<le> vec_capacity s
     then \<exists>s'. notify_loop grow reactions msg b (length cs) i s = Inr s' \<and> notified s' = notified s @ map (\<lambda>c. (c, msg)) cs
     else notify_loop grow reactions msg b (length cs) i s = Inl Dangling)"
proof (induction cs arbitrary: old i s rest)
  case (Cons c cs)
  let ?told = "s\<lparr>notified := notified s @ [(c, msg)]\<rparr>"
  let ?s = "fold (react grow) (reactions c) ?told"
  have "length (m_callbacks ?told) \<le> vec_capacity ?told" using Cons.prems(3) by simp
  from create_fold [OF _ this, of "reactions c" grow] cr obtain new where
    new: "length new = length (reactions c)" "m_callbacks ?s = m_callbacks s @ new" "existing s \<subseteq> existing ?s"
      "notified ?s = notified s @ [(c, msg)]" "length (m_callbacks ?s) \<le> vec_capacity ?s"
      "if length (m_callbacks s) + length (reactions c) \<le> vec_capacity s
       then vec_buffer ?s = b \<and> vec_capacity ?s = vec_capacity s else b < vec_buffer ?s"
    using Cons.prems(2) by (auto split: if_splits)
  have at: "m_callbacks s ! i = c" "i < length (m_callbacks s)"
    using Cons.prems(4,5) by (auto simp: nth_append)
  have step: "notify_loop grow reactions msg b (length (c # cs)) i s = notify_loop grow reactions msg b (length cs) (Suc i) ?s"
    using Cons.prems(1,2) at by (simp add: observer_Notify_def)
  show ?case
  proof (cases cs)
    case Nil
    then show ?thesis using step new(4) Cons.prems(3) by (simp add: created_def)
  next
    case (Cons d ds)
    have sum: "created reactions (c # cs) = length (reactions c) + created reactions cs"
      by (simp add: created_def Cons)
    show ?thesis
    proof (cases "length (m_callbacks s) + length (reactions c) \<le> vec_capacity s")
      case True
      have "set cs \<subseteq> existing ?s" using Cons.prems(1) new(3) by auto
      moreover have "m_callbacks ?s = (old @ [c]) @ cs @ (rest @ new)" using new(2) Cons.prems(4) by simp
      ultimately have "if length (m_callbacks ?s) + created reactions cs \<le> vec_capacity ?s
         then \<exists>s'. notify_loop grow reactions msg b (length cs) (Suc i) ?s = Inr s' \<and> notified s' = notified ?s @ map (\<lambda>c. (c, msg)) cs
         else notify_loop grow reactions msg b (length cs) (Suc i) ?s = Inl Dangling"
        using True new(5,6) Cons.prems(5)
        by (intro Cons.IH [where old = "old @ [c]" and rest = "rest @ new"]) auto
      with step True new sum show ?thesis by (auto split: if_splits)
    next
      case False
      with new(6) step sum Cons show ?thesis by auto
    qed
  qed
qed (auto simp: created_def)

lemma map_sum_eq_iff:
  "map_sum f g x = Inl e \<longleftrightarrow> (\<exists>y. x = Inl y \<and> f y = e)"
  "map_sum f g x = Inr v \<longleftrightarrow> (\<exists>y. x = Inr y \<and> g y = v)"
  by (cases x; auto)+

section \<open>The store refines the specification\<close>

fun bus_reacts :: "nat \<Rightarrow> reaction list \<Rightarrow> 'm bus \<Rightarrow> 'm bus res" where
  "bus_reacts d [] s = Inr s"
| "bus_reacts d (Destroy c # rs) s =
     bindE (if callbacks s c = None then Inr s else CallBack_dtor c s) (bus_reacts d rs)"
| "bus_reacts d (Create c # rs) s = bindE (CallBack_ctor c (Some d) False s) (bus_reacts d rs)"

definition reacting :: "nat \<Rightarrow> (nat \<Rightarrow> reaction list) \<Rightarrow> 'm observers" where
  "reacting d reactions = \<lparr>on_action = (\<lambda>c msg s. bus_reacts d (reactions c) s), on_stop = (\<lambda>c s. Inr s)\<rparr>"

definition told_messages :: "'m told list \<Rightarrow> (nat \<times> 'm) list" where
  "told_messages ts = concat (map (\<lambda>t. case t of Acted c msg \<Rightarrow> [(c, msg)] | Stopped c \<Rightarrow> []) ts)"

definition view :: "nat \<Rightarrow> 'm bus \<Rightarrow> 'm subject" where
  "view d s = \<lparr>m_callbacks = the (dispatchers s d), vec_capacity = bus_capacity s d, vec_buffer = bus_buffer s d,
     existing = dom (callbacks s), notified = told_messages (trace s)\<rparr>"

lemma view_simps [simp]:
  "m_callbacks (view d s) = the (dispatchers s d)" "vec_capacity (view d s) = bus_capacity s d"
  "vec_buffer (view d s) = bus_buffer s d" "c \<in> existing (view d s) \<longleftrightarrow> callbacks s c \<noteq> None"
  "notified (view d s) = told_messages (trace s)"
  by (auto simp: view_def)

text \<open>The vector of \<open>d\<close> lists only callbacks that point to \<open>d\<close>, and all callbacks point to live dispatchers.\<close>

definition seen_by :: "nat \<Rightarrow> 'm bus \<Rightarrow> bool" where
  "seen_by d s \<longleftrightarrow> dispatchers s d \<noteq> None \<and>
     (\<forall>c cb. callbacks s c = Some cb \<and> c \<in> set (the (dispatchers s d)) \<longrightarrow> m_dispatcher cb = Some d) \<and>
     (\<forall>c cb d'. callbacks s c = Some cb \<and> m_dispatcher cb = Some d' \<longrightarrow> dispatchers s d' \<noteq> None)"

lemma seen_by_wf:
  assumes "wf_bus s" and "dispatchers s d = Some cs"
  shows "seen_by d s"
  unfolding seen_by_def
proof (intro conjI allI impI)
  show "dispatchers s d \<noteq> None" using assms(2) by simp
  fix c cb
  show "m_dispatcher cb = Some d" if "callbacks s c = Some cb \<and> c \<in> set (the (dispatchers s d))"
    using that assms(2) wf_busD(2) [OF assms] by auto
  show "dispatchers s d' \<noteq> None" if "callbacks s c = Some cb \<and> m_dispatcher cb = Some d'" for d'
    using that wf_busD(3) [OF assms(1)] by blast
qed

lemma set_Dispatcher_Remove_subset: "set (Dispatcher_Remove c cs) \<subseteq> set cs"
proof -
  have "set_mset (mset (Dispatcher_Remove c cs)) \<subseteq> set_mset (mset cs)"
    unfolding subs.members_remove by (auto dest: in_diffD)
  then show ?thesis by simp
qed

lemma destroy_refines:
  assumes "seen_by d s" and "callbacks s c = Some cb"
  shows "\<exists>s'. CallBack_dtor c s = Inr s' \<and> seen_by d s' \<and> view d s' = subject_Remove c (view d s) \<and>
    bus_growth s' = bus_growth s"
proof -
  obtain cs where cs: "dispatchers s d = Some cs" using assms(1) by (auto simp: seen_by_def)
  note sub = set_Dispatcher_Remove_subset [of c cs, THEN subsetD]
  show ?thesis
  proof (cases "m_dispatcher cb = Some d")
    case True
    with assms cs sub show ?thesis
      by (auto simp: CallBack_dtor_def seen_by_def view_def subject_Remove_def dom_def)
  next
    case False
    with assms cs have absent: "Dispatcher_Remove c cs = cs"
      by (auto simp: seen_by_def intro: Dispatcher_Remove_absent)
    show ?thesis
    proof (cases "m_dispatcher cb")
      case None
      with assms cs absent show ?thesis
        by (auto simp: CallBack_dtor_def seen_by_def view_def subject_Remove_def dom_def)
    next
      case (Some d')
      with False assms obtain cs' where "dispatchers s d' = Some cs'" "d' \<noteq> d" unfolding seen_by_def by blast
      with assms cs absent Some show ?thesis
        by (auto simp: CallBack_dtor_def seen_by_def view_def subject_Remove_def dom_def)
    qed
  qed
qed

lemma create_refines:
  assumes "seen_by d s"
  shows "\<exists>s'. CallBack_ctor c (Some d) stop s = Inr s' \<and> seen_by d s' \<and>
    view d s' = subject_Add (bus_growth s) c (view d s) \<and> bus_growth s' = bus_growth s"
proof -
  obtain cs where cs: "dispatchers s d = Some cs" using assms by (auto simp: seen_by_def)
  let ?s = "bus_Add d c cs (s\<lparr>callbacks := (callbacks s)(c \<mapsto> \<lparr>m_dispatcher = Some d, m_stop_method = stop\<rparr>)\<rparr>)"
  have "view d ?s = subject_Add (bus_growth s) c (view d s)"
    using cs by (auto simp: view_def subject_Add_def bus_Add_def Let_def dom_def)
  moreover have "seen_by d ?s" using assms cs by (auto simp: seen_by_def split: if_splits)
  ultimately show ?thesis using cs by (auto simp: CallBack_ctor_def)
qed

lemma reacts_refines:
  "seen_by d s \<Longrightarrow> \<exists>s'. bus_reacts d rs s = Inr s' \<and> seen_by d s' \<and>
     view d s' = fold (react (bus_growth s)) rs (view d s) \<and> bus_growth s' = bus_growth s"
proof (induction d rs s rule: bus_reacts.induct)
  case (2 d c rs s)
  show ?case
  proof (cases "callbacks s c")
    case None
    then have "subject_Remove c (view d s) = view d s" by (simp add: subject_Remove_def)
    with 2 None show ?thesis by auto
  next
    case (Some cb)
    from destroy_refines [OF "2.prems" Some] obtain s1 where s1: "CallBack_dtor c s = Inr s1" "seen_by d s1"
      "view d s1 = subject_Remove c (view d s)" "bus_growth s1 = bus_growth s" by blast
    with "2.IH" [of s1] Some show ?thesis by simp
  qed
next
  case (3 d c rs s)
  from create_refines [OF "3.prems"] obtain s1 where s1: "CallBack_ctor c (Some d) False s = Inr s1" "seen_by d s1"
    "view d s1 = subject_Add (bus_growth s) c (view d s)" "bus_growth s1 = bus_growth s" by blast
  with "3.IH" [of s1] show ?case by simp
qed simp

lemma observer_refines:
  assumes "seen_by d s"
  shows "map_sum id (view d) (CallBack_Notify (reacting d reactions) msg c s) =
      observer_Notify (bus_growth s) reactions msg c (view d s) \<and>
    (\<forall>s'. CallBack_Notify (reacting d reactions) msg c s = Inr s' \<longrightarrow> seen_by d s' \<and> bus_growth s' = bus_growth s)"
proof (cases "callbacks s c")
  case (Some cb)
  let ?s = "s\<lparr>trace := trace s @ [Acted c msg]\<rparr>"
  have "seen_by d ?s" using assms by (simp add: seen_by_def)
  from reacts_refines [OF this, of "reactions c"] obtain s' where s': "bus_reacts d (reactions c) ?s = Inr s'" "seen_by d s'"
    "view d s' = fold (react (bus_growth s)) (reactions c) (view d ?s)" "bus_growth s' = bus_growth s" by auto
  moreover have "view d ?s = view d s\<lparr>notified := notified (view d s) @ [(c, msg)]\<rparr>"
    by (simp add: view_def told_messages_def)
  ultimately show ?thesis using Some by (simp add: CallBack_Notify_def observer_Notify_def reacting_def)
qed (simp add: CallBack_Notify_def observer_Notify_def)

lemma loop_refines:
  "seen_by d s \<Longrightarrow> map_sum id (view d) (range_for (CallBack_Notify (reacting d reactions) msg) d b k i s) =
     notify_loop (bus_growth s) reactions msg b k i (view d s)"
proof (induction k arbitrary: i s)
  case (Suc k)
  then obtain cs where cs: "dispatchers s d = Some cs" by (auto simp: seen_by_def)
  note o = observer_refines [OF Suc.prems, of reactions msg "cs ! i"]
  show ?case
  proof (cases "CallBack_Notify (reacting d reactions) msg (cs ! i) s")
    case (Inl f)
    then show ?thesis using o cs by (auto simp: eq_commute [of "Inl f"])
  next
    case (Inr s')
    then have "observer_Notify (bus_growth s) reactions msg (cs ! i) (view d s) = Inr (view d s')" using o by simp
    with Inr o cs Suc.IH [of s' "Suc i"] show ?thesis by simp
  qed
qed simp

lemma NotifyAll_refines:
  assumes "wf_bus s" and "dispatchers s d = Some cs"
  shows "map_sum id (view d) (Dispatcher_NotifyAll (reacting d reactions) d msg s) =
    subject_NotifyAll (bus_growth s) reactions msg (view d s)"
  using loop_refines [OF seen_by_wf [OF assms], of reactions msg "bus_buffer s d" "length cs" 0] assms(2)
  by (simp add: Dispatcher_NotifyAll_def subject_NotifyAll_def)

lemma view_ok:
  assumes "wf_bus s" and "dispatchers s d = Some cs"
  shows "subject_ok (view d s)"
  using wf_busD [OF assms(1)] assms(2) by (auto simp: subject_ok_def)

section \<open>Properties\<close>

text \<open>
  C37: subjects and observers never reach a destroyed object as long as the observers, while they are
  notified, leave the vector of their dispatcher alone: every state a program can get to is well-formed, and from it
  every use, notification and destruction of live objects succeeds, in whatever order the two sides are destroyed, and
  leads to a well-formed state.  An observer that does not leave it alone breaks the loop: if any but the last one destroys a
  subscribed callback the loop reads past the end of the vector, and if all but the last one create more callbacks than the
  capacity has room for it reads a buffer that was freed.
\<close>

theorem bus_type_safety:
  assumes "bus_reachable ob s"
  shows "wf_bus s \<and> (\<forall>p. allowed ob s p \<longrightarrow> (\<exists>s'. bus_exec ob p s = Inr s' \<and> wf_bus s')) \<and>
    (\<forall>d cs reactions msg. dispatchers s d = Some cs \<longrightarrow>
      ((\<forall>c. \<forall>r \<in> set (reactions c). destroys r) \<longrightarrow>
         (if unsubscribes reactions cs 0 then Dispatcher_NotifyAll (reacting d reactions) d msg s = Inl OutOfBounds
          else \<exists>s'. Dispatcher_NotifyAll (reacting d reactions) d msg s = Inr s')) \<and>
      ((\<forall>c. \<forall>r \<in> set (reactions c). creates r) \<longrightarrow>
         (if length cs + created reactions cs \<le> bus_capacity s d
          then \<exists>s'. Dispatcher_NotifyAll (reacting d reactions) d msg s = Inr s'
          else Dispatcher_NotifyAll (reacting d reactions) d msg s = Inl Dangling)))"
proof (intro conjI allI impI)
  note wf = bus_preservation [OF assms]
  show "wf_bus s" by (rule wf)
  show "\<exists>s'. bus_exec ob p s = Inr s' \<and> wf_bus s'" if "allowed ob s p" for p using bus_progress [OF wf that] .
  fix d cs reactions msg assume d: "dispatchers s d = Some cs"
  note ok = view_ok [OF wf d] and sim = NotifyAll_refines [OF wf d, of reactions msg]
  have at: "m_callbacks (view d s) = cs" using d by simp
  show "if unsubscribes reactions cs 0 then Dispatcher_NotifyAll (reacting d reactions) d msg s = Inl OutOfBounds
      else \<exists>s'. Dispatcher_NotifyAll (reacting d reactions) d msg s = Inr s'"
    if "\<forall>c. \<forall>r \<in> set (reactions c). destroys r"
    using destroying_loop [OF that ok refl, of 0 "length cs" cs "bus_growth s" msg] sim at
    by (auto simp: subject_NotifyAll_def map_sum_eq_iff split: if_splits)
  show "if length cs + created reactions cs \<le> bus_capacity s d
      then \<exists>s'. Dispatcher_NotifyAll (reacting d reactions) d msg s = Inr s'
      else Dispatcher_NotifyAll (reacting d reactions) d msg s = Inl Dangling"
    if "\<forall>c. \<forall>r \<in> set (reactions c). creates r"
    using creating_loop [OF that, of cs "view d s" "vec_buffer (view d s)" "[]" "[]" 0 "bus_growth s" msg] ok sim at
    by (auto simp: subject_NotifyAll_def subject_ok_def map_sum_eq_iff split: if_splits)
qed

text \<open>
  A dispatcher 1 with the callback 5, which wants to be told about its end: both may be destroyed first.  With
  a second callback an observer may no longer destroy the callback 5 while it is notified, unless it is the last one.
\<close>

theorem bus_type_safety_witness:
  "wf_bus (ex_bus True :: nat bus) \<and>
   (\<exists>s'. bus_exec passive_observers (DelDispatcher 1) (ex_bus True :: nat bus) = Inr s' \<and> wf_bus s') \<and>
   (\<exists>s'. bus_exec passive_observers (DelCallBack 5) (ex_bus True :: nat bus) = Inr s' \<and> wf_bus s') \<and>
   (\<exists>s'. bus_exec passive_observers (NotifyAll 1 7) (ex_bus True :: nat bus) = Inr s' \<and> wf_bus s') \<and>
   (\<exists>s s' :: nat bus. bus_exec passive_observers (NewCallBack 6 (Some 1) False) (ex_bus True) = Inr s \<and>
      Dispatcher_NotifyAll (reacting 1 (\<lambda>c. if c = 5 then [Destroy 5] else [])) 1 7 s = Inl OutOfBounds \<and>
      Dispatcher_NotifyAll (reacting 1 (\<lambda>c. if c = 6 then [Destroy 5] else [])) 1 7 s = Inr s')"
proof -
  note r = ex_bus_reachable [of "passive_observers :: nat observers" True]
  have "allowed passive_observers (ex_bus True :: nat bus) (DelDispatcher 1)"
    and "allowed passive_observers (ex_bus True :: nat bus) (DelCallBack 5)"
    and "allowed passive_observers (ex_bus True :: nat bus) (NotifyAll 1 7)" by (simp_all add: ex_bus_def)
  note uses = this [THEN mp [OF spec [OF conjunct1 [OF conjunct2 [OF bus_type_safety [OF r]]]]]]
  have new: "allowed passive_observers (ex_bus True :: nat bus) (NewCallBack 6 (Some 1) False)" by (simp add: ex_bus_def)
  obtain s :: "nat bus" where s: "bus_exec passive_observers (NewCallBack 6 (Some 1) False) (ex_bus True) = Inr s"
    and at: "dispatchers s 1 = Some [5, 6]"
    by (simp add: ex_bus_def CallBack_ctor_def Dispatcher_Add_def)
  note reacts = bus_type_safety [OF bus_reachable.step [OF r new s], THEN conjunct2, THEN conjunct2, rule_format, OF at, THEN conjunct1]
  have "unsubscribes (\<lambda>c. if c = 5 then [Destroy 5] else []) [5, 6] 0"
    unfolding unsubscribes_def by (rule exI [of _ 0]) simp
  with reacts [of "\<lambda>c. if c = 5 then [Destroy 5] else []" 7]
  have "Dispatcher_NotifyAll (reacting 1 (\<lambda>c. if c = 5 then [Destroy 5] else [])) 1 7 s = Inl OutOfBounds" by simp
  moreover have "\<not> unsubscribes (\<lambda>c. if c = 6 then [Destroy 5] else []) [5, 6] 0"
    by (auto simp: unsubscribes_def)
  with reacts [of "\<lambda>c. if c = 6 then [Destroy 5] else []" 7]
  have "\<exists>s'. Dispatcher_NotifyAll (reacting 1 (\<lambda>c. if c = 6 then [Destroy 5] else [])) 1 7 s = Inr s'" by simp
  ultimately show ?thesis using uses s bus_type_safety [OF r] by blast
qed

text \<open>
  An observer must not destroy a subscribed callback, its own or another one, while it is notified, unless it is the
  last one: the vector gets shorter, the loop goes on to its old end and reads past the end of the vector.  When no observer does
  so, each one is notified once.
\<close>

theorem unsubscribing_while_notified:
  assumes "subject_ok s" and "\<forall>c. \<forall>r \<in> set (reactions c). destroys r"
  shows "if unsubscribes reactions (m_callbacks s) 0
    then subject_NotifyAll grow reactions msg s = Inl OutOfBounds
    else \<exists>s'. subject_NotifyAll grow reactions msg s = Inr s' \<and>
      notified s' = notified s @ map (\<lambda>c. (c, msg)) (m_callbacks s)"
  using destroying_loop [OF assms(2,1) refl, of 0 "length (m_callbacks s)" "m_callbacks s" grow msg]
  by (simp add: subject_NotifyAll_def split: if_splits)

text \<open>
  An observer that creates callbacks at the dispatcher while it is notified does no harm as long as the capacity of the
  vector is large enough for what all but the last one create: the new callbacks are not notified and the old ones once; otherwise
  the vector moves and the loop reads the buffer that was freed.
\<close>

theorem subscribing_while_notified:
  assumes "subject_ok s" and "\<forall>c. \<forall>r \<in> set (reactions c). creates r"
  shows "if length (m_callbacks s) + created reactions (m_callbacks s) \<le> vec_capacity s
    then \<exists>s'. subject_NotifyAll grow reactions msg s = Inr s' \<and>
      notified s' = notified s @ map (\<lambda>c. (c, msg)) (m_callbacks s)
    else subject_NotifyAll grow reactions msg s = Inl Dangling"
  using creating_loop [OF assms(2), of "m_callbacks s" s "vec_buffer s" "[]" "[]" 0 grow msg] assms(1)
  by (simp add: subject_NotifyAll_def subject_ok_def)

text \<open>Three callbacks in a vector of capacity 4.\<close>

definition three_callbacks :: "bool subject" where
  "three_callbacks =
     \<lparr>m_callbacks = [1, 2, 3], vec_capacity = 4, vec_buffer = 0, existing = {1, 2, 3}, notified = []\<rparr>"

theorem unsubscribing_while_notified_witness:
  "subject_NotifyAll (\<lambda>n. 2 * n) (\<lambda>c. if c = 2 then [Destroy 2] else []) True three_callbacks = Inl OutOfBounds \<and>
   (\<exists>s'. subject_NotifyAll (\<lambda>n. 2 * n) (\<lambda>c. if c = 3 then [Destroy 1] else []) True three_callbacks = Inr s' \<and>
      notified s' = [(1, True), (2, True), (3, True)])"
proof
  have ok: "subject_ok three_callbacks" by (simp add: subject_ok_def three_callbacks_def)
  have "unsubscribes (\<lambda>c. if c = 2 then [Destroy 2] else []) (m_callbacks three_callbacks) 0"
    unfolding unsubscribes_def by (rule exI [of _ 1]) (simp add: three_callbacks_def)
  with unsubscribing_while_notified [OF ok, of "\<lambda>c. if c = 2 then [Destroy 2] else []" "\<lambda>n. 2 * n" True]
  show "subject_NotifyAll (\<lambda>n. 2 * n) (\<lambda>c. if c = 2 then [Destroy 2] else []) True three_callbacks = Inl OutOfBounds"
    by simp
  have "\<not> unsubscribes (\<lambda>c. if c = 3 then [Destroy 1] else []) (m_callbacks three_callbacks) 0"
    by (auto simp: unsubscribes_def three_callbacks_def nth_Cons' split: if_splits)
  with unsubscribing_while_notified [OF ok, of "\<lambda>c. if c = 3 then [Destroy 1] else []" "\<lambda>n. 2 * n" True]
  show "\<exists>s'. subject_NotifyAll (\<lambda>n. 2 * n) (\<lambda>c. if c = 3 then [Destroy 1] else []) True three_callbacks = Inr s' \<and>
      notified s' = [(1, True), (2, True), (3, True)]"
    by (simp add: three_callbacks_def)
qed

theorem subscribing_while_notified_witness:
  "subject_NotifyAll (\<lambda>n. 2 * n) (\<lambda>c. [Create (c + 3)]) True three_callbacks = Inl Dangling \<and>
   (\<exists>s'. subject_NotifyAll (\<lambda>n. 2 * n) (\<lambda>c. if c = 1 then [Create 4] else []) True three_callbacks = Inr s' \<and>
      notified s' = [(1, True), (2, True), (3, True)])"
proof -
  have ok: "subject_ok three_callbacks" by (simp add: subject_ok_def three_callbacks_def)
  from subscribing_while_notified [OF ok, of "\<lambda>c. [Create (c + 3)]" "\<lambda>n. 2 * n" True]
    subscribing_while_notified [OF ok, of "\<lambda>c. if c = 1 then [Create 4] else []" "\<lambda>n. 2 * n" True]
  show ?thesis by (simp add: three_callbacks_def created_def)
qed

end
