(* ===== verification/Plugins.thy ===== *)
theory Plugins
  imports Plug_And_Play Programs
begin

text \<open>
  The plugin of the repository (libtest.cpp): a library whose constructor function, which \<open>dlopen\<close> runs,
  registers a creator at the request engine of the process.  In the model the registration is a change of
  the engine; in the program it happens in the thread of the \<open>DirMonitor\<close>, without a lock.
\<close>

section \<open>libtest.cpp\<close>

definition CCC :: "TaskInfo \<Rightarrow> master_task" where
  "CCC info = NBDRead info"

definition InitSharedObjet :: "('w, FactoryKey, TaskInfo, master_task) RequestEngine \<Rightarrow>
    ('w, FactoryKey, TaskInfo, master_task) RequestEngine" where
  "InitSharedObjet req_eng = RequestEngine_AddTask READ CCC req_eng"

text \<open>
  A plugin as the engine sees it: the key and the creator that its constructor registers, or nothing
  when the library cannot be loaded.  A library that is loaded already does not run its constructor again.
\<close>

fun load_plugins :: "(string \<Rightarrow> (FactoryKey \<times> (TaskInfo \<Rightarrow> master_task)) option) \<Rightarrow> string list \<Rightarrow> string list \<Rightarrow>
    ('w, FactoryKey, TaskInfo, master_task) RequestEngine \<Rightarrow> ('w, FactoryKey, TaskInfo, master_task) RequestEngine" where
  "load_plugins libs loaded [] re = re"
| "load_plugins libs loaded (path # paths) re =
     (case libs path of
        None \<Rightarrow> load_plugins libs loaded paths re
      | Some (key, creator) \<Rightarrow>
          if path \<in> set loaded then load_plugins libs loaded paths re
          else load_plugins libs (path # loaded) paths (RequestEngine_AddTask key creator re))"

definition engine_creates :: "('w, FactoryKey, TaskInfo, master_task) RequestEngine \<Rightarrow> FactoryKey \<Rightarrow> TaskInfo \<Rightarrow> master_task res" where
  "engine_creates re key info = Factory_Create (m_factory re) key info"

lemma engine_creates_AddTask:
  "engine_creates (RequestEngine_AddTask key f re) key' info =
     (if key' = key then Inr (f info) else engine_creates re key' info)"
  by (simp add: engine_creates_def RequestEngine_AddTask_def Factory_Create_Add)

text \<open>With its plugin the master makes the same tasks as without.\<close>

lemma InitSharedObjet_keeps_tasks:
  "engine_creates (InitSharedObjet (add_tasks master_creators re)) key info =
   engine_creates (add_tasks master_creators re) key info"
proof -
  have "engine_creates (add_tasks master_creators re) READ info = Inr (NBDRead info)"
    by (simp add: engine_creates_def master_creators_def add_creators_def Factory_Create_Add)
  then show ?thesis by (simp add: InitSharedObjet_def engine_creates_AddTask CCC_def)
qed

text \<open>The keys that no plugin registers keep their tasks, whatever is loaded.\<close>

lemma load_plugins_other_keys:
  "(\<And>path c. libs path \<noteq> Some (key, c)) \<Longrightarrow>
   engine_creates (load_plugins libs loaded paths re) key info = engine_creates re key info"
proof (induction libs loaded paths re rule: load_plugins.induct)
  case (2 libs loaded path paths re)
  then show ?case by (auto simp: engine_creates_AddTask split: option.splits)
qed simp

section \<open>From the directory to the engine\<close>

text \<open>
  The plugins of a run of the monitor: it sends the path \<open>dir/name\<close> of the first new file, and behind it
  only paths in which a slash follows the name of a file, which no library has.
\<close>

lemma load_plugins_unknown:
  "\<forall>path \<in> set paths. libs path = None \<Longrightarrow> load_plugins libs loaded paths re = re"
  by (induction paths) simp_all

text \<open>
  Of the plugins that are put into the directory while the master runs only the first one is registered: whatever
  their number, the engine afterwards is the one with the creator of the first file, and the other files change no task.
\<close>

theorem only_first_plugin_registered:
  assumes "\<And>path. (\<exists>m. path = dir @ ''/'' @ m \<and> CHR ''/'' \<in> set m) \<Longrightarrow> libs path = None"
    and "libs (dir @ ''/'' @ n) = Some (key, creator)"
  shows "engine_creates (load_plugins libs [] (sent_paths [] dir (n # names)) re) key' info =
    (if key' = key then Inr (creator info) else engine_creates re key' info)"
proof -
  let ?first = "dir @ ''/'' @ n"
  have "libs p = None" if later: "p \<in> set (sent_paths ?first dir names)" for p
  proof (rule assms(1))
    show "\<exists>m. p = dir @ ''/'' @ m \<and> CHR ''/'' \<in> set m" by (rule later_paths_have_slash [OF refl later])
  qed
  then have rest: "load_plugins libs [?first] (sent_paths ?first dir names) re' = re'" for re' ::
      "('w, FactoryKey, TaskInfo, master_task) RequestEngine"
    by (intro load_plugins_unknown) blast
  have "sent_paths [] dir (n # names) = ?first # sent_paths ?first dir names" by (simp add: plugin_path_def)
  then have "load_plugins libs [] (sent_paths [] dir (n # names)) re = RequestEngine_AddTask key creator re"
    using assms(2) rest by simp
  then show ?thesis by (simp add: engine_creates_AddTask)
qed

text \<open>Two plugins for two tasks; the write keeps its task.\<close>

definition two_plugins :: "string \<Rightarrow> (FactoryKey \<times> (TaskInfo \<Rightarrow> master_task)) option" where
  "two_plugins path =
     (if path = ''p/a'' then Some (READ, CCC) else if path = ''p/b'' then Some (WRITE, CCC) else None)"

theorem only_first_plugin_registered_witness:
  "engine_creates (load_plugins two_plugins [] (sent_paths [] ''p'' [''a'', ''b'']) (add_tasks master_creators re)) WRITE Null_TaskInfo =
    Inr (NBDWrite Null_TaskInfo)"
proof -
  have "two_plugins path = None" if "\<exists>m. path = ''p'' @ ''/'' @ m \<and> CHR ''/'' \<in> set m" for path
    using that by (auto simp: two_plugins_def)
  then have "engine_creates (load_plugins two_plugins [] (sent_paths [] ''p'' (''a'' # [''b''])) (add_tasks master_creators re)) WRITE Null_TaskInfo =
      (if WRITE = READ then Inr (CCC Null_TaskInfo) else engine_creates (add_tasks master_creators re) WRITE Null_TaskInfo)"
    by (rule only_first_plugin_registered) (simp_all add: two_plugins_def)
  then show ?thesis
    by (simp add: engine_creates_def master_creators_def add_creators_def Factory_Create_Add)
qed

end
