(* ===== verification/Cluster.thy ===== *)
theory Cluster
  imports End_To_End
begin

text \<open>
  The master, its slave, the network between them and the two pools of workers, with any number of
  requests of the kernel on their way at the same time.  The workers take tasks in any order, datagrams may
  overtake each other or never arrive, and a task is one step (\<open>Concurrent_Requests\<close>, \<open>Concurrent_Replies\<close> and
  \<open>Concurrent_Storages\<close> show for which tasks that is the same as their single steps).
\<close>

section \<open>The system\<close>

text \<open>
  \<open>cl_kernel\<close> are the requests that \<open>NBDDriverProxy::ReceiveRequest\<close> will return, \<open>cl_tasks\<close> and
  \<open>cl_slave_tasks\<close> the tasks handed to the pools, \<open>cl_requests\<close> and \<open>cl_replies\<close> the datagrams on their way, with
  their destinations.
\<close>

record cluster =
  cl_kernel :: "DriverData list"
  cl_master :: master
  cl_tasks :: "master_task list"
  cl_requests :: "packet list"
  cl_slave :: slave
  cl_slave_tasks :: "slave_task list"
  cl_replies :: "(sockaddr_in \<times> cell list) list"

datatype cluster_event =
    Kernel_Sends                \<comment> \<open>the main loop of the master reads a request of the kernel\<close>
  | Master_Works nat "io list"  \<comment> \<open>a worker of the master runs a task\<close>
  | Request_Arrives nat         \<comment> \<open>the main loop of the slave reads a datagram\<close>
  | Slave_Works nat             \<comment> \<open>a worker of the slave runs a task\<close>
  | Reply_Arrives nat           \<comment> \<open>the main loop of the master reads a datagram\<close>

definition remove_nth :: "nat \<Rightarrow> 'a list \<Rightarrow> 'a list" where
  "remove_nth k xs = take k xs @ drop (Suc k) xs"

record addresses =
  master_addr :: sockaddr_in
  slave_addr :: sockaddr_in

fun cluster_step :: "master_env \<Rightarrow> addresses \<Rightarrow> cluster_event \<Rightarrow> cluster \<Rightarrow> cluster res" where
  "cluster_step env addrs Kernel_Sends c =
     (case cl_kernel c of
        [] \<Rightarrow> Inr c
      | data # rest \<Rightarrow>
          bindE (DriverProxyGateWay_Read data) (\<lambda>(key, info, stop).
          bindE (Factory_Create master_factory key info) (\<lambda>task.
          Inr (c\<lparr>cl_kernel := rest, cl_tasks := cl_tasks c @ [task]\<rparr>))))"
| "cluster_step env addrs (Master_Works k ios) c =
     (if k < length (cl_tasks c)
      then bindE (master_Execute env ((cl_master c)\<lparr>ms_ios := ios, ms_sent := []\<rparr>) (cl_tasks c ! k)) (\<lambda>m.
           Inr (c\<lparr>cl_master := m, cl_tasks := remove_nth k (cl_tasks c), cl_requests := cl_requests c @ ms_sent m\<rparr>))
      else Inr c)"
| "cluster_step env addrs (Request_Arrives k) c =
     (if k < length (cl_requests c) \<and> pk_to (cl_requests c ! k) = slave_addr addrs
      then bindE (SlaveDriverProxy_ReceiveRequest (sl_driver (cl_slave c))
                   (Recv (master_addr addrs) (pk_data (cl_requests c ! k)))) (\<lambda>(drv, data).
           bindE (DriverProxyGateWay_Read data) (\<lambda>(key, info, stop).
           bindE (Factory_Create slave_factory key info) (\<lambda>task.
           Inr (c\<lparr>cl_requests := remove_nth k (cl_requests c), cl_slave := (cl_slave c)\<lparr>sl_driver := drv\<rparr>,
                  cl_slave_tasks := cl_slave_tasks c @ [task]\<rparr>))))
      else Inr c)"
| "cluster_step env addrs (Slave_Works k) c =
     (if k < length (cl_slave_tasks c)
      then bindE (slave_Execute ((cl_slave c)\<lparr>sl_sent := []\<rparr>) (cl_slave_tasks c ! k)) (\<lambda>sl.
           Inr (c\<lparr>cl_slave := sl, cl_slave_tasks := remove_nth k (cl_slave_tasks c),
                  cl_replies := cl_replies c @ sl_sent sl\<rparr>))
      else Inr c)"
| "cluster_step env addrs (Reply_Arrives k) c =
     (if k < length (cl_replies c) \<and> fst (cl_replies c ! k) = master_addr addrs
      then bindE (SlaveGateway_Read (ms_storage (cl_master c)) (Recv (slave_addr addrs) (snd (cl_replies c ! k))))
             (\<lambda>(key, info, storage).
           bindE (Factory_Create master_factory key info) (\<lambda>task.
           Inr (c\<lparr>cl_replies := remove_nth k (cl_replies c), cl_master := (cl_master c)\<lparr>ms_storage := storage\<rparr>,
                  cl_tasks := cl_tasks c @ [task]\<rparr>)))
      else Inr c)"

fun cluster_run :: "master_env \<Rightarrow> addresses \<Rightarrow> cluster_event list \<Rightarrow> cluster \<Rightarrow> cluster res" where
  "cluster_run env addrs [] c = Inr c"
| "cluster_run env addrs (e # es) c = bindE (cluster_step env addrs e c) (cluster_run env addrs es)"

lemma cluster_run_append:
  "cluster_run env addrs (es @ es') c = bindE (cluster_run env addrs es c) (cluster_run env addrs es')"
  by (induction es arbitrary: c) (auto simp: bindE_assoc intro!: bindE_cong)

text \<open>The requests that still wait somewhere.\<close>

definition idle :: "cluster \<Rightarrow> bool" where
  "idle c \<longleftrightarrow> cl_kernel c = [] \<and> cl_tasks c = [] \<and> cl_requests c = [] \<and> cl_slave_tasks c = [] \<and> cl_replies c = []"

section \<open>The specification: a device that serves one request after another\<close>

text \<open>
  The text a request gets from the disk, and the disk behind it.  A read gets a C string
  (\<open>through_c_string\<close>).
\<close>

definition request_offset :: "DriverData \<Rightarrow> nat" where
  "request_offset d = unat (the (m_offset d))"

definition request_len :: "DriverData \<Rightarrow> nat" where
  "request_len d = unat (the (m_len d))"

definition device_exec :: "DriverData \<Rightarrow> cell list \<Rightarrow> byte list \<times> cell list" where
  "device_exec d disk =
     (if m_key d = Some READ then (text_prefix (map the (stored_at disk (request_offset d) (request_len d))), disk)
      else if m_key d = Some WRITE then ([], overwrite disk (request_offset d) (payload d))
      else ([], disk))"

fun device_run :: "DriverData list \<Rightarrow> nat list \<Rightarrow> cell list \<Rightarrow> (nat \<times> byte list) list \<times> cell list" where
  "device_run reqs [] disk = ([], disk)"
| "device_run reqs (i # order) disk =
     (let (body, disk) = device_exec (reqs ! i) disk; (bodies, disk) = device_run reqs order disk
      in ((i, body) # bodies, disk))"

definition text_for :: "DriverData list \<Rightarrow> nat list \<Rightarrow> cell list \<Rightarrow> nat \<Rightarrow> byte list" where
  "text_for reqs order disk i = the (map_of (fst (device_run reqs order disk)) i)"

text \<open>What the kernel gets: in the reply to a read or a write the error code was never stored.\<close>

definition kernel_answer :: "nbd_abi \<Rightarrow> DriverData \<Rightarrow> byte list \<Rightarrow> cell list" where
  "kernel_answer abi d body =
     reply_cells abi (InitReaply abi (if m_key d \<in> {Some READ, Some WRITE} then None else m_status d) (m_handler d)) @
     (if m_key d = Some READ then through_c_string body (request_len d) else [])"

text \<open>
  \<open>served\<close>: the disk of the slave is that of a device that served the requests \<open>order\<close>, and the kernel got
  the answers of that device to the requests \<open>answered\<close>.
\<close>

definition served :: "nbd_abi \<Rightarrow> DriverData list \<Rightarrow> cell list \<Rightarrow> cell list \<Rightarrow> cluster \<Rightarrow> nat list \<Rightarrow> nat list \<Rightarrow> bool" where
  "served abi reqs disk out c order answered \<longleftrightarrow>
     distinct order \<and> set order \<subseteq> {..<length reqs - length (cl_kernel c)} \<and>
     distinct answered \<and> set answered \<subseteq> set order \<and>
     mmap_content (sl_storage (cl_slave c)) = snd (device_run reqs order disk) \<and>
     ms_out (cl_master c) = out @ concat (map (\<lambda>i. kernel_answer abi (reqs ! i) (text_for reqs order disk i)) answered)"

lemma device_run_append:
  "device_run reqs (order @ later) disk =
     (let (bodies, disk) = device_run reqs order disk; (bodies', disk) = device_run reqs later disk
      in (bodies @ bodies', disk))"
  by (induction order arbitrary: disk) (auto simp: split_beta Let_def)

lemma map_fst_device_run [simp]: "map fst (fst (device_run reqs order disk)) = order"
  by (induction order arbitrary: disk) (auto simp: split_beta Let_def)

lemma text_for_append:
  assumes "i \<in> set order" shows "text_for reqs (order @ later) disk i = text_for reqs order disk i"
proof -
  have "i \<in> fst ` set (fst (device_run reqs order disk))"
    using assms map_fst_device_run [of reqs order disk] by (metis image_set)
  then obtain t where "map_of (fst (device_run reqs order disk)) i = Some t"
    by (cases "map_of (fst (device_run reqs order disk)) i") (auto simp: map_of_eq_None_iff)
  then show ?thesis by (simp add: text_for_def device_run_append split_beta Let_def map_add_Some_iff)
qed

lemma text_for_new:
  assumes "i \<notin> set order"
  shows "text_for reqs (order @ [i]) disk i = fst (device_exec (reqs ! i) (snd (device_run reqs order disk)))"
proof -
  have "map_of (fst (device_run reqs order disk)) i = None"
    using assms map_fst_device_run [of reqs order disk] by (metis image_set map_of_eq_None_iff)
  then show ?thesis by (simp add: text_for_def device_run_append split_beta Let_def map_add_def)
qed

lemma device_run_new:
  "snd (device_run reqs (order @ [i]) disk) = snd (device_exec (reqs ! i) (snd (device_run reqs order disk)))"
  by (simp add: device_run_append split_beta Let_def)

section \<open>The requests that the system can serve\<close>

text \<open>
  The payloads travel as C strings: a write must not have a zero byte, and a read needs one in its block.
  \<open>zeros\<close> are addresses that hold a zero byte and that no write touches, such as the ends of lines of a text file.
\<close>

definition servable :: "nat set \<Rightarrow> nat \<Rightarrow> DriverData \<Rightarrow> bool" where
  "servable zeros n d \<longleftrightarrow>
     is_handle (m_handler d) \<and>
     m_key d \<in> {Some READ, Some WRITE, Some FLUSH, Some TRIM, Some BAD_REQUEST} \<and>
     (m_key d \<in> {Some READ, Some WRITE} \<longrightarrow>
        m_offset d \<noteq> None \<and> m_len d \<noteq> None \<and> request_offset d + request_len d \<le> n) \<and>
     (m_key d = Some READ \<longrightarrow>
        request_len d \<le> 4096 \<and> (\<exists>z \<in> zeros. request_offset d \<le> z \<and> z < request_offset d + request_len d)) \<and>
     (m_key d = Some WRITE \<longrightarrow>
        request_len d \<le> 4089 \<and> (\<exists>bs. payload d = map Some bs \<and> length bs = request_len d \<and> 0 \<notin> set bs) \<and>
        (\<forall>z \<in> zeros. z < request_offset d \<or> request_offset d + request_len d \<le> z))"

definition good_disk :: "nat set \<Rightarrow> nat \<Rightarrow> cell list \<Rightarrow> bool" where
  "good_disk zeros n disk \<longleftrightarrow> length disk = n \<and> None \<notin> set disk \<and> (\<forall>z \<in> zeros. z < n \<longrightarrow> disk ! z = Some 0)"

lemma device_exec_good:
  assumes "good_disk zeros n disk" and "servable zeros n d"
  shows "good_disk zeros n (snd (device_exec d disk))"
proof (cases "m_key d = Some WRITE")
  case True
  with assms(2) obtain bs where bs: "payload d = map Some bs" "length bs = request_len d"
    and in_range: "request_offset d + request_len d \<le> n"
    and z: "\<forall>z \<in> zeros. z < request_offset d \<or> request_offset d + request_len d \<le> z"
    by (auto simp: servable_def)
  have disk: "length disk = n" "None \<notin> set disk" "\<forall>z \<in> zeros. z < n \<longrightarrow> disk ! z = Some 0"
    using assms(1) by (auto simp: good_disk_def)
  let ?disk = "overwrite disk (request_offset d) (payload d)"
  have "length ?disk = n" using bs disk in_range by simp
  moreover have "None \<notin> set ?disk" using bs disk
    by (auto simp: overwrite_def dest: in_set_takeD in_set_dropD)
  moreover have "?disk ! a = Some 0" if "a \<in> zeros" "a < n" for a
    using that z disk in_range bs by (auto simp: nth_overwrite)
  ultimately show ?thesis using True by (auto simp: good_disk_def device_exec_def)
qed (use assms in \<open>auto simp: device_exec_def\<close>)

lemma device_run_good:
  "good_disk zeros n disk \<Longrightarrow> \<forall>d \<in> set reqs. servable zeros n d \<Longrightarrow> set order \<subseteq> {..<length reqs} \<Longrightarrow>
   good_disk zeros n (snd (device_run reqs order disk))"
  by (induction order arbitrary: disk) (auto simp: split_beta Let_def device_exec_good)

lemma map_Some_the: "None \<notin> set xs \<Longrightarrow> map Some (map the xs) = xs"
  by (induction xs) auto

text \<open>The block of a read is a string.\<close>

lemma good_block:
  assumes "good_disk zeros n disk" and "servable zeros n d" and "m_key d = Some READ"
  shows "\<exists>cs. stored_at disk (request_offset d) (request_len d) = map Some cs \<and> 0 \<in> set cs \<and> length cs = request_len d"
proof -
  from assms obtain z where z: "z \<in> zeros" "request_offset d \<le> z" "z < request_offset d + request_len d"
    and in_range: "request_offset d + request_len d \<le> n" by (auto simp: servable_def)
  let ?b = "stored_at disk (request_offset d) (request_len d)"
  have disk: "length disk = n" "None \<notin> set disk" "disk ! z = Some 0"
    using assms(1) z in_range by (auto simp: good_disk_def)
  have "None \<notin> set ?b" using disk by (auto simp: stored_at_def dest: in_set_takeD in_set_dropD)
  then have b: "?b = map Some (map the ?b)" by (rule map_Some_the [symmetric])
  have len: "length ?b = request_len d" using disk in_range by (simp add: stored_at_def)
  have "?b ! (z - request_offset d) = Some 0" using z disk in_range by (simp add: stored_at_def)
  then have "Some 0 \<in> set ?b" using z len by (metis add.commute less_diff_conv2 nth_mem)
  then have "0 \<in> set (map the ?b)" by force
  with b len show ?thesis by (intro exI [of _ "map the ?b"]) simp
qed

end
