(* ===== verification/Cluster_Runs.thy ===== *)
theory Cluster_Runs
  imports Cluster
begin

text \<open>
  What every run of the \<open>Cluster\<close> reaches: each request of the kernel is in one place at a time, the disk of
  the slave and the replies are those of a device that serves one request after another, and every
  request is answered when nothing is left to do.
\<close>

section \<open>Where a request is\<close>

datatype phase = Coming | Waiting | Asked "32 word" | Reached "32 word" | Served "32 word" "byte list"
  | Back "byte list" | Answered

definition request_task :: "DriverData \<Rightarrow> master_task" where
  "request_task d =
     (if m_key d = Some READ then NBDRead else if m_key d = Some WRITE then NBDWrite
      else if m_key d = Some FLUSH then NBDFlush else if m_key d = Some TRIM then NBDTrim
      else NBDBadRequest) (TaskInfo (Some d))"

definition op_char :: "DriverData \<Rightarrow> byte" where
  "op_char d = (if m_key d = Some READ then 48 else 49)"

text \<open>The data that the gateway of the master makes of a reply.\<close>

definition reply_data :: "DriverData \<Rightarrow> byte list \<Rightarrow> DriverData" where
  "reply_data d body = new_DriverData\<lparr>m_offset := Some 0, m_len := m_len d, m_handler := m_handler d, m_key := m_key d,
     m_buff := (if m_key d = Some READ
        then \<lparr>vsize = 0, vmem = overwrite (replicate (BUFF_SIZE + 1) None) 0 (map Some (body @ [0]))\<rparr>
        else empty_vec)\<rparr>"

text \<open>What a request in a phase contributes to each place.\<close>

fun master_tasks_of :: "DriverData \<Rightarrow> phase \<Rightarrow> master_task list" where
  "master_tasks_of d Waiting = [request_task d]"
| "master_tasks_of d (Back body) = [NBDReplay (TaskInfo (Some (reply_data d body)))]"
| "master_tasks_of d _ = []"

fun packets_of :: "SlaveData \<Rightarrow> DriverData \<Rightarrow> phase \<Rightarrow> packet list" where
  "packets_of slave d (Asked rid) =
     [if m_key d = Some READ then read_packet slave (the (m_offset d)) (the (m_len d)) rid
      else write_packet slave (the (m_offset d)) (the (m_len d)) rid (payload d)]"
| "packets_of slave d _ = []"

fun slave_tasks_of :: "DriverData \<Rightarrow> phase \<Rightarrow> slave_task list" where
  "slave_tasks_of d (Reached rid) =
     [if m_key d = Some READ then SlaveRead (TaskInfo (Some (parsed_request (the (m_offset d)) (the (m_len d)) rid 48)))
      else SlaveWrite (TaskInfo (Some (write_received (the (m_offset d)) (the (m_len d)) rid (map the (payload d)))))]"
| "slave_tasks_of d _ = []"

fun replies_of :: "sockaddr_in \<Rightarrow> DriverData \<Rightarrow> phase \<Rightarrow> (sockaddr_in \<times> cell list) list" where
  "replies_of to d (Served rid body) =
     [(to, message (BUFF_SIZE + 1) (reply_text (the (m_len d)) rid (op_char d)) (map Some body))]"
| "replies_of to d _ = []"

fun phase_id :: "phase \<Rightarrow> 32 word option" where
  "phase_id (Asked rid) = Some rid"
| "phase_id (Reached rid) = Some rid"
| "phase_id (Served rid body) = Some rid"
| "phase_id _ = None"

fun unasked :: "phase \<Rightarrow> bool" where
  "unasked Coming = True"
| "unasked Waiting = True"
| "unasked _ = False"

fun was_served :: "phase \<Rightarrow> bool" where
  "was_served (Served rid body) = True"
| "was_served (Back body) = True"
| "was_served Answered = True"
| "was_served _ = False"

text \<open>The text that a reply on its way carries.\<close>

fun carried :: "phase \<Rightarrow> byte list option" where
  "carried (Served rid body) = Some body"
| "carried (Back body) = Some body"
| "carried _ = None"

text \<open>The phases of a request that goes to the slave.\<close>

fun away :: "phase \<Rightarrow> bool" where
  "away (Asked rid) = True"
| "away (Reached rid) = True"
| "away (Served rid body) = True"
| "away (Back body) = True"
| "away _ = False"

section \<open>Multisets of what the requests contribute\<close>

definition spread :: "('d \<Rightarrow> 'p \<Rightarrow> 'a list) \<Rightarrow> 'd list \<Rightarrow> 'p list \<Rightarrow> 'a multiset" where
  "spread f ds ps = (\<Sum>i < length ds. mset (f (ds ! i) (ps ! i)))"

lemma spread_update:
  assumes "i < length ds" and "length ps = length ds"
  shows "spread f ds (ps[i := p]) + mset (f (ds ! i) (ps ! i)) = spread f ds ps + mset (f (ds ! i) p)"
proof -
  have "(\<Sum>j \<in> {..<length ds} - {i}. mset (f (ds ! j) (ps[i := p] ! j))) =
      (\<Sum>j \<in> {..<length ds} - {i}. mset (f (ds ! j) (ps ! j)))"
    by (rule sum.cong) auto
  then show ?thesis
    using assms unfolding spread_def by (simp add: sum.remove [of "{..<length ds}" i])
qed

lemma spread_member:
  "x \<in># spread f ds ps \<Longrightarrow> \<exists>i < length ds. x \<in> set (f (ds ! i) (ps ! i))"
  by (auto simp: spread_def set_mset_sum)

lemma spread_part: "i < length ds \<Longrightarrow> mset (f (ds ! i) (ps ! i)) \<subseteq># spread f ds ps"
  unfolding spread_def by (simp add: sum.remove [of "{..<length ds}" i])

lemma spread_updated:
  assumes "i < length ds" and "length ps = length ds"
  shows "spread f ds (ps[i := p]) = spread f ds ps - mset (f (ds ! i) (ps ! i)) + mset (f (ds ! i) p)"
  using spread_part [OF assms(1), of f ps] spread_update [OF assms, of f p]
  by (metis add_diff_cancel_right' subset_mset.add_diff_assoc2)

lemma mset_remove_nth: "k < length xs \<Longrightarrow> mset (remove_nth k xs) = mset xs - {#xs ! k#}"
  using arg_cong [OF id_take_nth_drop, of k xs mset] by (simp add: remove_nth_def)

text \<open>A task or a datagram that is there belongs to a request.\<close>

lemma spread_nth:
  assumes "mset xs = spread f ds ps" and "k < length xs"
  obtains i where "i < length ds" and "xs ! k \<in> set (f (ds ! i) (ps ! i))"
  using spread_member [of "xs ! k" f ds ps] assms by (metis nth_mem set_mset_mset)

section \<open>The table of the master\<close>

definition table_inv :: "DriverData list \<Rightarrow> SlaveData \<Rightarrow> CloudStorage \<Rightarrow> phase list \<Rightarrow> bool" where
  "table_inv reqs slave st ph \<longleftrightarrow>
     ids_inv st \<and> (\<exists>k m. m_slaves st = (k, slave) # m) \<and> length (filter unasked ph) \<le> ids_left st \<and>
     (\<forall>i < length ph. \<forall>rid. phase_id (ph ! i) = Some rid \<longrightarrow> in_flight st rid = Some (m_handler (reqs ! i))) \<and>
     (\<forall>i < length ph. \<forall>j < length ph. \<forall>rid.
        phase_id (ph ! i) = Some rid \<longrightarrow> phase_id (ph ! j) = Some rid \<longrightarrow> i = j)"

lemma filter_update:
  "i < length xs \<Longrightarrow> P (xs ! i) = P x \<Longrightarrow> length (filter P (xs[i := x])) = length (filter P xs)"
  "i < length xs \<Longrightarrow> P (xs ! i) \<Longrightarrow> \<not> P x \<Longrightarrow> Suc (length (filter P (xs[i := x]))) = length (filter P xs)"
  by (induction xs arbitrary: i; auto split: nat.splits simp: less_Suc_eq_0_disj)+

lemma table_same:
  assumes "table_inv reqs slave st ph" and "i < length ph"
    and "phase_id p = phase_id (ph ! i)" and "unasked p \<Longrightarrow> unasked (ph ! i)"
  shows "table_inv reqs slave st (ph[i := p])"
proof -
  have "length (filter unasked (ph[i := p])) \<le> length (filter unasked ph)"
    using filter_update [OF assms(2), of unasked p] assms(4)
    by (cases "unasked p = unasked (ph ! i)") auto
  moreover have "phase_id (ph[i := p] ! j) = phase_id (ph ! j)" for j
    using assms(2,3) by (cases "j = i") simp_all
  ultimately show ?thesis using assms(1) unfolding table_inv_def by fastforce
qed

lemma table_put:
  assumes inv: "table_inv reqs slave st ph" and i: "i < length ph" "unasked (ph ! i)" "is_handle (m_handler (reqs ! i))"
    and st': "st' = st\<lparr>cs_m_req_id := cs_m_req_id st + 1, m_list := (cs_m_req_id st + 1, m_handler (reqs ! i)) # m_list st\<rparr>"
  shows "0 < ids_left st" and "table_inv reqs slave st' (ph[i := Asked (cs_m_req_id st + 1)])"
proof -
  let ?rid = "cs_m_req_id st + 1" and ?h = "m_handler (reqs ! i)"
  have "0 < length (filter unasked ph)" using i nth_mem [OF i(1)] by (auto simp: filter_empty_conv)
  moreover have "length (filter unasked ph) \<le> ids_left st" using inv by (simp add: table_inv_def)
  ultimately show room: "0 < ids_left st" by (rule less_le_trans)
  have ids: "ids_inv st" using inv by (simp add: table_inv_def)
  from HandlerToId_law [OF ids i(3) room] HandlerToId_ok [OF ids i(3) room] st'
  have law: "ids_inv st'" "in_flight st ?rid = None" "in_flight st' = (in_flight st)(?rid \<mapsto> ?h)"
    "Suc (ids_left st') = ids_left st" by auto
  have pid: "phase_id (ph[i := Asked ?rid] ! j) = (if j = i then Some ?rid else phase_id (ph ! j))" for j
    using i(1) by (cases "j = i") simp_all
  have fresh: "phase_id (ph ! j) \<noteq> Some ?rid" if "j < length ph" for j
    using inv that law(2) by (auto simp: table_inv_def)
  have "length (filter unasked (ph[i := Asked ?rid])) \<le> ids_left st'"
    using filter_update(2) [OF i(1), of unasked "Asked ?rid"] i(2) law(4) inv by (simp add: table_inv_def)
  moreover have "\<exists>k m. m_slaves st' = (k, slave) # m" using inv st' by (simp add: table_inv_def)
  moreover have "in_flight st' rid = Some (m_handler (reqs ! j))"
    if "j < length ph" "phase_id (ph[i := Asked ?rid] ! j) = Some rid" for j rid
    using that inv fresh [of j] by (auto simp: pid law(3) table_inv_def split: if_splits)
  moreover have "a = b" if "a < length ph" "b < length ph" "phase_id (ph[i := Asked ?rid] ! a) = Some rid"
    "phase_id (ph[i := Asked ?rid] ! b) = Some rid" for a b rid
    using that inv fresh [of a] fresh [of b] by (auto simp: pid table_inv_def split: if_splits)
  ultimately show "table_inv reqs slave st' (ph[i := Asked ?rid])"
    using law(1) unfolding table_inv_def by simp
qed

lemma table_claim:
  assumes inv: "table_inv reqs slave st ph" and i: "i < length ph" "phase_id (ph ! i) = Some rid"
  obtains st' where "in_flight st rid = Some (m_handler (reqs ! i))"
    and "claim_handler st rid = Inr (m_handler (reqs ! i), st')" and "ids_inv st"
    and "table_inv reqs slave st' (ph[i := Back body])" and "in_flight st' rid = None"
proof -
  let ?h = "m_handler (reqs ! i)"
  have ids: "ids_inv st" and h: "in_flight st rid = Some ?h" using inv i by (auto simp: table_inv_def)
  from claim_handler_law [OF ids h] obtain st' where
    st': "claim_handler st rid = Inr (?h, st')" "ids_inv st'" "in_flight st' = (in_flight st)(rid := None)"
      "ids_left st' = ids_left st" by blast
  have slaves: "m_slaves st' = m_slaves st"
    using st'(1) by (auto simp: claim_handler_def IdToHandler_def bindE_Inr_iff split: if_splits)
  have pid: "phase_id (ph[i := Back body] ! j) = (if j = i then None else phase_id (ph ! j))" for j
    using i(1) by (cases "j = i") simp_all
  have "\<not> unasked (ph ! i)" using i(2) by (cases "ph ! i") simp_all
  then have "length (filter unasked (ph[i := Back body])) \<le> ids_left st'"
    using filter_update(1) [OF i(1), of unasked "Back body"] st'(4) inv by (simp add: table_inv_def)
  moreover have "in_flight st' r = Some (m_handler (reqs ! j))"
    if "j < length ph" "phase_id (ph[i := Back body] ! j) = Some r" for j r
    using that inv i by (auto simp: pid st'(3) table_inv_def split: if_splits)
  moreover have "a = b" if "a < length ph" "b < length ph" "phase_id (ph[i := Back body] ! a) = Some r"
    "phase_id (ph[i := Back body] ! b) = Some r" for a b r
    using that inv by (auto simp: pid table_inv_def split: if_splits)
  ultimately have "table_inv reqs slave st' (ph[i := Back body])"
    using st'(2) inv unfolding table_inv_def slaves by simp
  moreover have "in_flight st' rid = None" by (simp add: st'(3))
  ultimately show ?thesis using that [OF h st'(1) ids] by blast
qed

section \<open>The invariant\<close>

text \<open>The requests, the disk and the output at the start, and the surroundings.\<close>

record scene =
  sc_reqs :: "DriverData list"
  sc_disk :: "cell list"
  sc_out :: "cell list"
  sc_zeros :: "nat set"
  sc_slave :: SlaveData
  sc_env :: master_env
  sc_addrs :: addresses

definition scene_ok :: "scene \<Rightarrow> bool" where
  "scene_ok sc \<longleftrightarrow>
     (\<forall>d \<in> set (sc_reqs sc). servable (sc_zeros sc) (length (sc_disk sc)) d) \<and>
     good_disk (sc_zeros sc) (length (sc_disk sc)) (sc_disk sc) \<and>
     m_cliaddr (sc_slave sc) = slave_addr (sc_addrs sc) \<and> (\<forall>p. env_sendto (sc_env sc) p)"

definition places_ok :: "scene \<Rightarrow> cluster \<Rightarrow> phase list \<Rightarrow> bool" where
  "places_ok sc c ph \<longleftrightarrow>
     mset (cl_tasks c) = spread master_tasks_of (sc_reqs sc) ph \<and>
     mset (cl_requests c) = spread (packets_of (sc_slave sc)) (sc_reqs sc) ph \<and>
     mset (cl_slave_tasks c) = spread slave_tasks_of (sc_reqs sc) ph \<and>
     mset (cl_replies c) = spread (replies_of (master_addr (sc_addrs sc))) (sc_reqs sc) ph"

definition kernel_ok :: "scene \<Rightarrow> cluster \<Rightarrow> phase list \<Rightarrow> bool" where
  "kernel_ok sc c ph \<longleftrightarrow>
     (\<exists>m \<le> length (sc_reqs sc). cl_kernel c = drop m (sc_reqs sc) \<and>
        (\<forall>i < length (sc_reqs sc). ph ! i = Coming \<longleftrightarrow> m \<le> i))"

definition history_ok :: "scene \<Rightarrow> phase list \<Rightarrow> nat list \<Rightarrow> nat list \<Rightarrow> bool" where
  "history_ok sc ph order answered \<longleftrightarrow>
     distinct order \<and> distinct answered \<and>
     set order = {i. i < length (sc_reqs sc) \<and> was_served (ph ! i)} \<and>
     set answered = {i. i < length (sc_reqs sc) \<and> ph ! i = Answered} \<and>
     (\<forall>i < length (sc_reqs sc).
        (\<forall>body. carried (ph ! i) = Some body \<longrightarrow> body = text_for (sc_reqs sc) order (sc_disk sc) i) \<and>
        (away (ph ! i) \<longrightarrow> m_key (sc_reqs sc ! i) \<in> {Some READ, Some WRITE}))"

definition slave_ok :: "scene \<Rightarrow> cluster \<Rightarrow> nat list \<Rightarrow> bool" where
  "slave_ok sc c order \<longleftrightarrow>
     mapped (sl_storage (cl_slave c)) \<and>
     mmap_content (sl_storage (cl_slave c)) = snd (device_run (sc_reqs sc) order (sc_disk sc)) \<and>
     (cl_slave_tasks c \<noteq> [] \<longrightarrow> sdp_m_servaddr (sl_driver (cl_slave c)) = master_addr (sc_addrs sc))"

definition answers :: "scene \<Rightarrow> nat list \<Rightarrow> nat list \<Rightarrow> cell list" where
  "answers sc order answered = sc_out sc @ concat (map (\<lambda>i. kernel_answer (env_abi (sc_env sc)) (sc_reqs sc ! i)
     (text_for (sc_reqs sc) order (sc_disk sc) i)) answered)"

definition cluster_inv :: "scene \<Rightarrow> cluster \<Rightarrow> phase list \<Rightarrow> nat list \<Rightarrow> nat list \<Rightarrow> bool" where
  "cluster_inv sc c ph order answered \<longleftrightarrow>
     length ph = length (sc_reqs sc) \<and> kernel_ok sc c ph \<and> places_ok sc c ph \<and> slave_ok sc c order \<and>
     table_inv (sc_reqs sc) (sc_slave sc) (ms_storage (cl_master c)) ph \<and> history_ok sc ph order answered \<and>
     ms_out (cl_master c) = answers sc order answered"

lemma history_same:
  assumes "history_ok sc ph order answered" and "i < length (sc_reqs sc)" and "length ph = length (sc_reqs sc)"
    and "was_served p = was_served (ph ! i)" and "carried p = None \<or> carried p = carried (ph ! i)"
    and "(p = Answered) = (ph ! i = Answered)"
    and "away p \<Longrightarrow> m_key (sc_reqs sc ! i) \<in> {Some READ, Some WRITE}"
  shows "history_ok sc (ph[i := p]) order answered"
proof -
  have "was_served (ph[i := p] ! j) = was_served (ph ! j)"
    and "(ph[i := p] ! j = Answered) = (ph ! j = Answered)"
    and "carried (ph[i := p] ! j) = Some body \<Longrightarrow> carried (ph ! j) = Some body"
    and "away (ph[i := p] ! j) \<Longrightarrow> away (ph ! j) \<or> m_key (sc_reqs sc ! j) \<in> {Some READ, Some WRITE}" for j body
    using assms by (cases "j = i"; auto)+
  with assms(1) show ?thesis unfolding history_ok_def by (simp only: simp_thms) blast
qed

lemma history_served:
  assumes "history_ok sc ph order answered" and "i < length (sc_reqs sc)" and "length ph = length (sc_reqs sc)"
    and "\<not> was_served (ph ! i)" and "was_served p"
    and "\<And>body. carried p = Some body \<Longrightarrow>
      body = fst (device_exec (sc_reqs sc ! i) (snd (device_run (sc_reqs sc) order (sc_disk sc))))"
    and "away p \<Longrightarrow> m_key (sc_reqs sc ! i) \<in> {Some READ, Some WRITE}"
    and "extra = (if p = Answered then [i] else [])"
  shows "history_ok sc (ph[i := p]) (order @ [i]) (answered @ extra)"
proof -
  have new: "i \<notin> set order" "i \<notin> set answered" "ph ! i \<noteq> Answered" using assms(1,4) by (auto simp: history_ok_def)
  have old: "text_for (sc_reqs sc) (order @ [i]) (sc_disk sc) j = text_for (sc_reqs sc) order (sc_disk sc) j"
    if "j \<in> set order" for j using that by (rule text_for_append)
  have "carried (ph ! j) = Some body \<Longrightarrow> was_served (ph ! j)" for j body by (cases "ph ! j") simp_all
  then have "body = text_for (sc_reqs sc) (order @ [i]) (sc_disk sc) j"
    if "j < length (sc_reqs sc)" "carried (ph[i := p] ! j) = Some body" for j body
    using that assms(1,2,3,6) old [of j] text_for_new [OF new(1)]
    by (cases "j = i") (auto simp: history_ok_def)
  moreover have "m_key (sc_reqs sc ! j) \<in> {Some READ, Some WRITE}"
    if "j < length (sc_reqs sc)" "away (ph[i := p] ! j)" for j
    using that assms(1,3,7) by (cases "j = i") (auto simp: history_ok_def)
  moreover have "set (order @ [i]) = {j. j < length (sc_reqs sc) \<and> was_served (ph[i := p] ! j)}"
    using assms(1,2,3,5) by (auto simp: history_ok_def nth_list_update)
  moreover have "set (answered @ extra) = {j. j < length (sc_reqs sc) \<and> ph[i := p] ! j = Answered}"
    using assms(1,2,3,8) new(3) by (auto simp: history_ok_def nth_list_update)
  ultimately show ?thesis using assms(1,8) new unfolding history_ok_def by auto
qed

lemma history_answered:
  assumes "history_ok sc ph order answered" and "i < length (sc_reqs sc)" and "length ph = length (sc_reqs sc)"
    and "was_served (ph ! i)" and "ph ! i \<noteq> Answered"
  shows "history_ok sc (ph[i := Answered]) order (answered @ [i])"
proof -
  have "was_served (ph[i := Answered] ! j) = was_served (ph ! j)"
    and "carried (ph[i := Answered] ! j) = Some body \<Longrightarrow> carried (ph ! j) = Some body"
    and "away (ph[i := Answered] ! j) \<Longrightarrow> away (ph ! j)" for j body
    using assms by (cases "j = i"; auto)+
  moreover have "set (answered @ [i]) = {j. j < length (sc_reqs sc) \<and> ph[i := Answered] ! j = Answered}"
    using assms(1,2,3) by (auto simp: history_ok_def nth_list_update)
  moreover have "i \<notin> set answered" using assms(1,5) by (auto simp: history_ok_def)
  ultimately show ?thesis using assms(1) unfolding history_ok_def by auto
qed

lemma answers_append:
  assumes "set answered \<subseteq> set order"
  shows "answers sc (order @ later) answered = answers sc order answered"
proof -
  have "map (\<lambda>i. kernel_answer (env_abi (sc_env sc)) (sc_reqs sc ! i) (text_for (sc_reqs sc) (order @ later) (sc_disk sc) i)) answered =
      map (\<lambda>i. kernel_answer (env_abi (sc_env sc)) (sc_reqs sc ! i) (text_for (sc_reqs sc) order (sc_disk sc) i)) answered"
    using assms by (intro map_cong) (auto simp: text_for_append)
  then show ?thesis by (simp only: answers_def)
qed

lemma history_subset: "history_ok sc ph order answered \<Longrightarrow> set answered \<subseteq> set order"
  by (auto simp: history_ok_def)

end
