(* ===== verification/Cluster_Steps.thy ===== *)
theory Cluster_Steps
  imports Cluster_Runs
begin

text \<open>
  Each event of the \<open>Cluster\<close> moves one request on and keeps the invariant; no event fails.
\<close>

section \<open>What one event does\<close>

text \<open>The way a request still has to go.\<close>

fun weight :: "phase \<Rightarrow> nat" where
  "weight Coming = 6"
| "weight Waiting = 5"
| "weight (Asked rid) = 4"
| "weight (Reached rid) = 3"
| "weight (Served rid body) = 2"
| "weight (Back body) = 1"
| "weight Answered = 0"

definition advances :: "scene \<Rightarrow> phase list \<Rightarrow> nat list \<Rightarrow> nat list \<Rightarrow> cluster \<Rightarrow> bool" where
  "advances sc ph order answered c \<longleftrightarrow>
     (\<exists>i p later new. i < length ph \<and> weight p < weight (ph ! i) \<and>
        cluster_inv sc c (ph[i := p]) (order @ later) (answered @ new))"

text \<open>The socket of the kernel takes the reply, however it cuts it.\<close>

fun patient :: "nbd_abi \<Rightarrow> cluster_event \<Rightarrow> bool" where
  "patient abi (Master_Works k ios) \<longleftrightarrow>
     no_fail ios \<and> (\<forall>status h. length (reply_cells abi (InitReaply abi status h)) + 4096 \<le> length ios)"
| "patient abi _ \<longleftrightarrow> True"

fun enabled :: "cluster_event \<Rightarrow> cluster \<Rightarrow> bool" where
  "enabled Kernel_Sends c \<longleftrightarrow> cl_kernel c \<noteq> []"
| "enabled (Master_Works k ios) c \<longleftrightarrow> k < length (cl_tasks c)"
| "enabled (Request_Arrives k) c \<longleftrightarrow> k < length (cl_requests c)"
| "enabled (Slave_Works k) c \<longleftrightarrow> k < length (cl_slave_tasks c)"
| "enabled (Reply_Arrives k) c \<longleftrightarrow> k < length (cl_replies c)"

lemma not_enabled: "\<not> enabled e c \<Longrightarrow> cluster_step env addrs e c = Inr c"
  by (cases e) auto

lemma cluster_invD:
  assumes "cluster_inv sc c ph order answered"
  shows "length ph = length (sc_reqs sc)" "kernel_ok sc c ph" "places_ok sc c ph" "slave_ok sc c order"
    "table_inv (sc_reqs sc) (sc_slave sc) (ms_storage (cl_master c)) ph" "history_ok sc ph order answered"
    "ms_out (cl_master c) = answers sc order answered"
  using assms by (auto simp: cluster_inv_def)

lemma servable_request:
  assumes "scene_ok sc" and "i < length (sc_reqs sc)"
  shows "servable (sc_zeros sc) (length (sc_disk sc)) (sc_reqs sc ! i)"
  using assms by (simp add: scene_ok_def)

lemma kernel_update:
  assumes "kernel_ok sc c ph" and "i < length (sc_reqs sc)" and "length ph = length (sc_reqs sc)"
    and "ph ! i \<noteq> Coming" and "p \<noteq> Coming" and "cl_kernel c' = cl_kernel c"
  shows "kernel_ok sc c' (ph[i := p])"
  using assms unfolding kernel_ok_def by (fastforce simp: nth_list_update)

section \<open>The main loop of the master\<close>

lemma master_factory_task:
  assumes "m_key d \<in> {Some READ, Some WRITE, Some FLUSH, Some TRIM, Some BAD_REQUEST}"
  shows "\<exists>key. DriverProxyGateWay_Read d = Inr (key, TaskInfo (Some d), False) \<and>
    Factory_Create master_factory key (TaskInfo (Some d)) = Inr (request_task d)"
  using assms by (auto simp: DriverProxyGateWay_Read_def request_task_def)

lemma kernel_sends:
  assumes inv: "cluster_inv sc c ph order answered" and ok: "scene_ok sc" and "enabled Kernel_Sends c"
  shows "\<exists>c'. cluster_step env addrs Kernel_Sends c = Inr c' \<and> advances sc ph order answered c'"
proof -
  note D = cluster_invD [OF inv]
  from D(2) obtain m where m: "m \<le> length (sc_reqs sc)" "cl_kernel c = drop m (sc_reqs sc)"
    "\<forall>i < length (sc_reqs sc). ph ! i = Coming \<longleftrightarrow> m \<le> i" by (auto simp: kernel_ok_def)
  with assms(3) have i: "m < length (sc_reqs sc)" by auto
  then have coming: "ph ! m = Coming" using m(3) by simp
  have kern: "cl_kernel c = sc_reqs sc ! m # drop (Suc m) (sc_reqs sc)" using m(2) i by (simp add: Cons_nth_drop_Suc)
  let ?d = "sc_reqs sc ! m"
  from servable_request [OF ok i] obtain key where
    "DriverProxyGateWay_Read ?d = Inr (key, TaskInfo (Some ?d), False)"
    "Factory_Create master_factory key (TaskInfo (Some ?d)) = Inr (request_task ?d)"
    using master_factory_task [of ?d] by (auto simp: servable_def)
  moreover define c' where "c' = c\<lparr>cl_kernel := drop (Suc m) (sc_reqs sc), cl_tasks := cl_tasks c @ [request_task ?d]\<rparr>"
  ultimately have step: "cluster_step env addrs Kernel_Sends c = Inr c'" by (simp add: kern)
  have "kernel_ok sc c' (ph[m := Waiting])"
    unfolding kernel_ok_def
    by (intro exI [of _ "Suc m"]) (use i m(3) D(1) in \<open>auto simp: c'_def nth_list_update\<close>)
  moreover have "places_ok sc c' (ph[m := Waiting])"
    using D(3) i D(1) coming by (simp add: places_ok_def c'_def spread_updated)
  moreover have "history_ok sc (ph[m := Waiting]) order answered"
    by (rule history_same [OF D(6) i D(1)]) (simp_all add: coming)
  moreover have "table_inv (sc_reqs sc) (sc_slave sc) (ms_storage (cl_master c)) (ph[m := Waiting])"
    by (rule table_same [OF D(5)]) (simp_all add: coming i D(1))
  ultimately have "cluster_inv sc c' (ph[m := Waiting]) (order @ []) (answered @ [])"
    using D by (simp add: cluster_inv_def c'_def slave_ok_def)
  moreover have "weight Waiting < weight (ph ! m)" by (simp add: coming)
  ultimately have "advances sc ph order answered c'" unfolding advances_def using i D(1) by metis
  with step show ?thesis by blast
qed

section \<open>The workers of the master\<close>

text \<open>A request that goes to the slave.\<close>

lemma master_asks:
  assumes d: "servable zeros n d" "m_key d \<in> {Some READ, Some WRITE}" and up: "\<forall>p. env_sendto env p"
    and st: "ids_inv (ms_storage m)" "0 < ids_left (ms_storage m)" "m_slaves (ms_storage m) = (k, slave) # rest"
    and rid: "rid = cs_m_req_id (ms_storage m) + 1"
  shows "master_Execute env m (request_task d) =
    Inr (m\<lparr>ms_storage := (ms_storage m)\<lparr>cs_m_req_id := rid, m_list := (rid, m_handler d) # m_list (ms_storage m)\<rparr>,
           ms_sent := ms_sent m @ packets_of slave d (Asked rid)\<rparr>)"
proof -
  from d obtain off len where some: "m_offset d = Some off" "m_len d = Some len" by (auto simp: servable_def)
  have h: "is_handle (m_handler d)" using d(1) by (simp add: servable_def)
  show ?thesis
  proof (cases "m_key d = Some READ")
    case True
    with CloudStorage_Read_eq [OF st(1,2) h st(3) some, of "env_sendto env"] up some rid show ?thesis
      by (simp add: request_task_def NBDRead_Execute_def Let_def)
  next
    case False
    with d obtain bs where key: "m_key d = Some WRITE" and bs: "payload d = map Some bs" "length bs = request_len d"
      and l: "request_len d \<le> 4089" by (auto simp: servable_def)
    have "length (payload d) = request_len d" using bs by simp
    then have "unat len \<le> length (vmem (m_buff d))" using some by (simp add: payload_def request_len_def)
    moreover have "length (request_text off len rid 49) + 1 + unat len \<le> BUFF_SIZE"
      using length_request_text [of off len rid 49] l some by (simp add: BUFF_SIZE_def request_len_def)
    ultimately show ?thesis
      using CloudStorage_Write_eq [OF st(1,2) h st(3) some, of "env_sendto env"] up some rid key
      by (simp add: request_task_def NBDWrite_Execute_def Let_def)
  qed
qed

text \<open>A reply to the kernel.\<close>

lemma master_answers:
  assumes abi: "patient (env_abi env) (Master_Works k ios)" "ms_ios m = ios"
    and key: "m_key data = Some key"
    and len: "key = READ \<Longrightarrow> m_len data = Some len \<and> unat len \<le> 4096 \<and> unat len \<le> length (vmem (m_buff data))"
    and body: "body = (if key = READ then take (unat len) (vmem (m_buff data)) else [])"
  shows "\<exists>ios'. reply_to_kernel env m (TaskInfo (Some data)) =
    Inr (m\<lparr>ms_ios := ios', ms_out := ms_out m @
      reply_cells (env_abi env) (InitReaply (env_abi env) (m_status data) (m_handler data)) @ body\<rparr>)"
proof -
  let ?r = "reply_cells (env_abi env) (InitReaply (env_abi env) (m_status data) (m_handler data))"
  have "no_fail ios" "length ?r + 4096 \<le> length ios" using abi(1) by simp_all
  moreover have "length body \<le> 4096" using len body by auto
  ultimately have "no_fail ios" "length ?r + length body \<le> length ios" by simp_all
  from SendReply_stream [OF key body _ refl this, of "ms_out m"] len abi(2) show ?thesis
    by (auto simp: reply_to_kernel_def)
qed

lemma text_for_bounds:
  assumes "i \<in> set order" and "distinct order"
  shows "0 \<notin> set (text_for reqs order disk i) \<and> length (text_for reqs order disk i) \<le> request_len (reqs ! i) \<and>
    (m_key (reqs ! i) \<noteq> Some READ \<longrightarrow> text_for reqs order disk i = [])"
proof -
  from assms obtain xs ys where order: "order = xs @ i # ys" "i \<notin> set xs" by (auto dest: split_list)
  then have "text_for reqs order disk i = text_for reqs (xs @ [i]) disk i"
    using text_for_append [of i "xs @ [i]" reqs ys disk] by simp
  then have "text_for reqs order disk i = fst (device_exec (reqs ! i) (snd (device_run reqs xs disk)))"
    by (simp add: text_for_new [OF order(2)])
  then show ?thesis
    using length_text_prefix [of "map the (stored_at (snd (device_run reqs xs disk)) (request_offset (reqs ! i)) (request_len (reqs ! i)))"]
    by (auto simp: device_exec_def stored_at_def)
qed

lemma reply_of_data:
  assumes d: "servable zeros n d" "m_key d \<in> {Some READ, Some WRITE}"
    and body: "0 \<notin> set body" "length body \<le> request_len d"
    and abi: "patient (env_abi env) (Master_Works k ios)" "ms_ios m = ios"
  shows "\<exists>ios'. master_Execute env m (NBDReplay (TaskInfo (Some (reply_data d body)))) =
    Inr (m\<lparr>ms_ios := ios', ms_out := ms_out m @ kernel_answer (env_abi env) d body\<rparr>)"
proof -
  from d obtain len where len: "m_len d = Some len" by (auto simp: servable_def)
  show ?thesis
  proof (cases "m_key d = Some READ")
    case True
    with d have l: "unat len \<le> 4096" using len by (simp add: servable_def request_len_def)
    define mem :: "cell list" where "mem = overwrite (replicate (BUFF_SIZE + 1) None) 0 (map Some (body @ [0]))"
    have lb: "length body < BUFF_SIZE + 1" using body(2) l len by (simp add: request_len_def BUFF_SIZE_def)
    then have "length mem = BUFF_SIZE + 1" by (simp add: mem_def del: replicate_Suc)
    then have lm: "unat len \<le> length mem" using l by (simp add: BUFF_SIZE_def)
    have tk: "take (unat len) mem = through_c_string body (unat len)"
      using take_c_string [of "unat len" "BUFF_SIZE + 1" body] l lb body(1)
      by (simp add: text_prefix_id BUFF_SIZE_def mem_def)
    have "m_key (reply_data d body) = Some READ" "m_len (reply_data d body) = Some len"
      "vmem (m_buff (reply_data d body)) = mem" "m_status (reply_data d body) = None"
      "m_handler (reply_data d body) = m_handler d"
      using True len by (simp_all add: reply_data_def mem_def)
    note data = this
    from master_answers [OF abi data(1) _ refl, of len] data(2-5) l lm
    show ?thesis by (simp add: kernel_answer_def True request_len_def len tk)
  next
    case False
    with d have key: "m_key d = Some WRITE" by auto
    then have "m_key (reply_data d body) = Some WRITE" "m_status (reply_data d body) = None"
      "m_handler (reply_data d body) = m_handler d" by (simp_all add: reply_data_def)
    note data = this
    from master_answers [OF abi data(1) _ refl, of len] data(2,3)
    show ?thesis by (simp add: kernel_answer_def key)
  qed
qed

lemma answers_snoc:
  "answers sc order (answered @ [i]) = answers sc order answered @
     kernel_answer (env_abi (sc_env sc)) (sc_reqs sc ! i) (text_for (sc_reqs sc) order (sc_disk sc) i)"
  by (simp add: answers_def)

lemma history_away:
  assumes "history_ok sc ph order answered" and "i < length (sc_reqs sc)" and "away (ph ! i)"
  shows "m_key (sc_reqs sc ! i) \<in> {Some READ, Some WRITE}"
  using assms by (auto simp: history_ok_def)

lemma works_ask:
  assumes inv: "cluster_inv sc c ph order answered" and ok: "scene_ok sc"
    and k: "k < length (cl_tasks c)" "cl_tasks c ! k = request_task (sc_reqs sc ! i)"
    and i: "i < length (sc_reqs sc)" "ph ! i = Waiting" and key: "m_key (sc_reqs sc ! i) \<in> {Some READ, Some WRITE}"
  shows "\<exists>c'. cluster_step (sc_env sc) addrs (Master_Works k ios) c = Inr c' \<and> advances sc ph order answered c'"
proof -
  note D = cluster_invD [OF inv]
  let ?d = "sc_reqs sc ! i" and ?m = "(cl_master c)\<lparr>ms_ios := ios, ms_sent := []\<rparr>"
  let ?st = "ms_storage (cl_master c)"
  let ?rid = "cs_m_req_id ?st + 1"
  let ?st' = "?st\<lparr>cs_m_req_id := ?rid, m_list := (?rid, m_handler ?d) # m_list ?st\<rparr>"
  note sv = servable_request [OF ok i(1)]
  have ids: "ids_inv ?st" and "\<exists>a m. m_slaves ?st = (a, sc_slave sc) # m" using D(5) by (auto simp: table_inv_def)
  then obtain a m where sl: "m_slaves ?st = (a, sc_slave sc) # m" by blast
  have un: "unasked (ph ! i)" and len: "i < length ph" using i D(1) by simp_all
  have "is_handle (m_handler ?d)" using sv by (simp add: servable_def)
  note put = table_put [OF D(5) len un this refl]
  have up: "\<forall>p. env_sendto (sc_env sc) p" using ok by (simp add: scene_ok_def)
  define c' where "c' = c\<lparr>cl_master := ?m\<lparr>ms_storage := ?st', ms_sent := packets_of (sc_slave sc) ?d (Asked ?rid)\<rparr>,
    cl_tasks := remove_nth k (cl_tasks c), cl_requests := cl_requests c @ packets_of (sc_slave sc) ?d (Asked ?rid)\<rparr>"
  have step: "cluster_step (sc_env sc) addrs (Master_Works k ios) c = Inr c'"
    using master_asks [OF sv key up, of ?m a "sc_slave sc" m ?rid] ids put(1) sl k
    by (simp add: c'_def del: packets_of.simps)
  have "places_ok sc c' (ph[i := Asked ?rid])"
    using D(3) i k D(1) by (simp add: places_ok_def c'_def spread_updated mset_remove_nth)
  moreover have "kernel_ok sc c' (ph[i := Asked ?rid])"
    by (rule kernel_update [OF D(2) i(1) D(1)]) (simp_all add: i(2) c'_def)
  moreover have "history_ok sc (ph[i := Asked ?rid]) order answered"
    by (rule history_same [OF D(6) i(1) D(1)]) (use i(2) key in simp_all)
  ultimately have "cluster_inv sc c' (ph[i := Asked ?rid]) (order @ []) (answered @ [])"
    using D put(2) by (simp add: cluster_inv_def c'_def slave_ok_def)
  moreover have "weight (Asked ?rid) < weight (ph ! i)" by (simp add: i(2))
  ultimately have "advances sc ph order answered c'" unfolding advances_def using len by metis
  with step show ?thesis by blast
qed

lemma works_answer_directly:
  assumes inv: "cluster_inv sc c ph order answered" and ok: "scene_ok sc"
    and patient: "patient (env_abi (sc_env sc)) (Master_Works k ios)"
    and k: "k < length (cl_tasks c)" "cl_tasks c ! k = request_task (sc_reqs sc ! i)"
    and i: "i < length (sc_reqs sc)" "ph ! i = Waiting" and key: "m_key (sc_reqs sc ! i) \<notin> {Some READ, Some WRITE}"
  shows "\<exists>c'. cluster_step (sc_env sc) addrs (Master_Works k ios) c = Inr c' \<and> advances sc ph order answered c'"
proof -
  note D = cluster_invD [OF inv]
  let ?d = "sc_reqs sc ! i" and ?m = "(cl_master c)\<lparr>ms_ios := ios, ms_sent := []\<rparr>"
  note sv = servable_request [OF ok i(1)]
  then obtain key where d: "m_key ?d = Some key" "key \<noteq> READ" "key \<in> {FLUSH, TRIM, BAD_REQUEST}"
    using key by (auto simp: servable_def)
  have "master_Execute (sc_env sc) ?m (request_task ?d) = reply_to_kernel (sc_env sc) ?m (TaskInfo (Some ?d))"
    using d by (auto simp: request_task_def)
  moreover have "kernel_answer (env_abi (sc_env sc)) ?d [] =
      reply_cells (env_abi (sc_env sc)) (InitReaply (env_abi (sc_env sc)) (m_status ?d) (m_handler ?d))"
    using d key by (auto simp: kernel_answer_def)
  moreover have "m_key ?d = Some key" "key = READ \<Longrightarrow> m_len ?d = Some 0 \<and> unat 0 \<le> 4096 \<and> unat 0 \<le> length (vmem (m_buff ?d))"
    using d by simp_all
  ultimately obtain ios' where run: "master_Execute (sc_env sc) ?m (request_task ?d) =
      Inr (?m\<lparr>ms_ios := ios', ms_out := ms_out (cl_master c) @ kernel_answer (env_abi (sc_env sc)) ?d []\<rparr>)"
    using master_answers [OF patient, of ?m ?d key 0 "[]"] d(2) by auto
  define c' where "c' = c\<lparr>cl_master := ?m\<lparr>ms_ios := ios', ms_out := ms_out (cl_master c) @ kernel_answer (env_abi (sc_env sc)) ?d []\<rparr>,
    cl_tasks := remove_nth k (cl_tasks c)\<rparr>"
  have step: "cluster_step (sc_env sc) addrs (Master_Works k ios) c = Inr c'"
    using run k by (simp add: c'_def)
  have exec: "device_exec ?d disk = ([], disk)" for disk using key by (simp add: device_exec_def)
  have "\<not> was_served (ph ! i)" by (simp add: i(2))
  then have new: "i \<notin> set order" using D(6) by (simp add: history_ok_def)
  have "places_ok sc c' (ph[i := Answered])"
    using D(3) i k D(1) by (simp add: places_ok_def c'_def spread_updated mset_remove_nth)
  moreover have "kernel_ok sc c' (ph[i := Answered])"
    by (rule kernel_update [OF D(2) i(1) D(1)]) (simp_all add: i(2) c'_def)
  moreover have "history_ok sc (ph[i := Answered]) (order @ [i]) (answered @ [i])"
    by (rule history_served [OF D(6) i(1) D(1)]) (simp_all add: i(2))
  moreover have "table_inv (sc_reqs sc) (sc_slave sc) (ms_storage (cl_master c)) (ph[i := Answered])"
    by (rule table_same [OF D(5)]) (simp_all add: i D(1))
  moreover have "answers sc (order @ [i]) (answered @ [i]) = ms_out (cl_master c')"
    using answers_append [OF history_subset [OF D(6)], of sc "[i]"] text_for_new [OF new] D(7)
    by (simp add: answers_snoc exec c'_def)
  ultimately have "cluster_inv sc c' (ph[i := Answered]) (order @ [i]) (answered @ [i])"
    using D by (simp add: cluster_inv_def c'_def slave_ok_def device_run_new exec)
  moreover have "weight Answered < weight (ph ! i)" "i < length ph" by (simp_all add: i D(1))
  ultimately have "advances sc ph order answered c'" unfolding advances_def by metis
  with step show ?thesis by blast
qed

lemma works_reply:
  assumes inv: "cluster_inv sc c ph order answered" and ok: "scene_ok sc"
    and patient: "patient (env_abi (sc_env sc)) (Master_Works k ios)"
    and k: "k < length (cl_tasks c)" "cl_tasks c ! k = NBDReplay (TaskInfo (Some (reply_data (sc_reqs sc ! i) body)))"
    and i: "i < length (sc_reqs sc)" "ph ! i = Back body"
  shows "\<exists>c'. cluster_step (sc_env sc) addrs (Master_Works k ios) c = Inr c' \<and> advances sc ph order answered c'"
proof -
  note D = cluster_invD [OF inv]
  let ?d = "sc_reqs sc ! i" and ?m = "(cl_master c)\<lparr>ms_ios := ios, ms_sent := []\<rparr>"
  have body: "body = text_for (sc_reqs sc) order (sc_disk sc) i" and "i \<in> set order" "distinct order"
    using D(6) i by (auto simp: history_ok_def)
  note b = text_for_bounds [OF this(2,3), of "sc_reqs sc" "sc_disk sc", folded body]
  have key: "m_key ?d \<in> {Some READ, Some WRITE}" by (rule history_away [OF D(6) i(1)]) (simp add: i(2))
  from reply_of_data [OF servable_request [OF ok i(1)] key _ _ patient, of body ?m] b obtain ios' where
    run: "master_Execute (sc_env sc) ?m (NBDReplay (TaskInfo (Some (reply_data ?d body)))) =
      Inr (?m\<lparr>ms_ios := ios', ms_out := ms_out (cl_master c) @ kernel_answer (env_abi (sc_env sc)) ?d body\<rparr>)" by auto
  define c' where "c' = c\<lparr>cl_master := ?m\<lparr>ms_ios := ios', ms_out := ms_out (cl_master c) @ kernel_answer (env_abi (sc_env sc)) ?d body\<rparr>,
    cl_tasks := remove_nth k (cl_tasks c)\<rparr>"
  have step: "cluster_step (sc_env sc) addrs (Master_Works k ios) c = Inr c'"
    using run k by (simp add: c'_def del: master_Execute.simps)
  have "places_ok sc c' (ph[i := Answered])"
    using D(3) i k D(1) by (simp add: places_ok_def c'_def spread_updated mset_remove_nth)
  moreover have "kernel_ok sc c' (ph[i := Answered])"
    by (rule kernel_update [OF D(2) i(1) D(1)]) (simp_all add: i(2) c'_def)
  moreover have "history_ok sc (ph[i := Answered]) order (answered @ [i])"
    by (rule history_answered [OF D(6) i(1) D(1)]) (simp_all add: i(2))
  moreover have "table_inv (sc_reqs sc) (sc_slave sc) (ms_storage (cl_master c)) (ph[i := Answered])"
    by (rule table_same [OF D(5)]) (simp_all add: i D(1))
  moreover have "answers sc order (answered @ [i]) = ms_out (cl_master c')"
    using D(7) by (simp add: answers_snoc body c'_def)
  ultimately have "cluster_inv sc c' (ph[i := Answered]) (order @ []) (answered @ [i])"
    using D by (simp add: cluster_inv_def c'_def slave_ok_def)
  moreover have "weight Answered < weight (ph ! i)" "i < length ph" by (simp_all add: i D(1))
  ultimately have "advances sc ph order answered c'" unfolding advances_def by metis
  with step show ?thesis by blast
qed

lemma master_works:
  assumes inv: "cluster_inv sc c ph order answered" and ok: "scene_ok sc"
    and patient: "patient (env_abi (sc_env sc)) (Master_Works k ios)" and k: "enabled (Master_Works k ios) c"
  shows "\<exists>c'. cluster_step (sc_env sc) addrs (Master_Works k ios) c = Inr c' \<and> advances sc ph order answered c'"
proof -
  have k: "k < length (cl_tasks c)" using k by simp
  have "mset (cl_tasks c) = spread master_tasks_of (sc_reqs sc) ph"
    using cluster_invD(3) [OF inv] by (simp add: places_ok_def)
  from spread_nth [OF this k] obtain i where
    i: "i < length (sc_reqs sc)" "cl_tasks c ! k \<in> set (master_tasks_of (sc_reqs sc ! i) (ph ! i))" by blast
  show ?thesis
  proof (cases "ph ! i")
    case Waiting
    with i have "cl_tasks c ! k = request_task (sc_reqs sc ! i)" by simp
    with works_ask [OF inv ok k _ i(1) Waiting] works_answer_directly [OF inv ok patient k _ i(1) Waiting]
    show ?thesis by blast
  next
    case (Back body)
    with i have "cl_tasks c ! k = NBDReplay (TaskInfo (Some (reply_data (sc_reqs sc ! i) body)))" by simp
    with works_reply [OF inv ok patient k _ i(1) Back] show ?thesis by blast
  qed (use i in simp_all)
qed

section \<open>The slave\<close>

text \<open>What the main loop of the slave makes of the datagram of a request.\<close>

lemma slave_receives:
  assumes d: "servable zeros n d" "m_key d \<in> {Some READ, Some WRITE}" and p: "packets_of slave d (Asked rid) = [p]"
  shows "pk_to p = m_cliaddr slave \<and>
    (\<exists>data key. SlaveDriverProxy_ReceiveRequest drv (Recv from (pk_data p)) = Inr (drv\<lparr>sdp_m_servaddr := from\<rparr>, data) \<and>
       DriverProxyGateWay_Read data = Inr (key, TaskInfo (Some data), False) \<and>
       [Factory_Create slave_factory key (TaskInfo (Some data))] = map Inr (slave_tasks_of d (Reached rid)))"
proof -
  from d obtain off len where some: "m_offset d = Some off" "m_len d = Some len" by (auto simp: servable_def)
  show ?thesis
  proof (cases "m_key d = Some READ")
    case True
    with p some have p: "p = read_packet slave off len rid" by simp
    have "SlaveDriverProxy_ReceiveRequest drv (Recv from (pk_data p)) =
        Inr (drv\<lparr>sdp_m_servaddr := from\<rparr>, parsed_request off len rid 48)"
      by (simp add: p read_packet_def ReceiveRequest_no_payload)
    then show ?thesis
      using True some by (simp add: DriverProxyGateWay_Read_def parsed_request_def Factory_Create_slave p read_packet_def)
  next
    case False
    with d obtain bs where bs: "payload d = map Some bs" "length bs = request_len d"
      and l: "request_len d \<le> 4089" by (auto simp: servable_def)
    from False p some have p: "p = write_packet slave off len rid (payload d)" by simp
    have len: "length bs = unat len" using bs(2) some by (simp add: request_len_def)
    have "length (request_text off len rid 49) + 1 + unat len \<le> BUFF_SIZE"
      using length_request_text [of off len rid 49] l some by (simp add: BUFF_SIZE_def request_len_def)
    from ReceiveRequest_write_message [OF len this, of drv "from"]
    have "SlaveDriverProxy_ReceiveRequest drv (Recv from (pk_data p)) =
        Inr (drv\<lparr>sdp_m_servaddr := from\<rparr>, write_received off len rid bs)"
      by (simp add: p write_packet_def bs(1))
    moreover have "map the (payload d) = bs" by (simp add: bs(1) comp_def)
    ultimately show ?thesis
      using False some
      by (simp add: DriverProxyGateWay_Read_def write_received_def parsed_request_def Factory_Create_slave p write_packet_def)
  qed
qed

lemma request_arrives:
  assumes inv: "cluster_inv sc c ph order answered" and ok: "scene_ok sc" and "enabled (Request_Arrives k) c"
  shows "\<exists>c'. cluster_step env (sc_addrs sc) (Request_Arrives k) c = Inr c' \<and> advances sc ph order answered c'"
proof -
  note D = cluster_invD [OF inv]
  have k: "k < length (cl_requests c)" using assms(3) by simp
  have "mset (cl_requests c) = spread (packets_of (sc_slave sc)) (sc_reqs sc) ph" using D(3) by (simp add: places_ok_def)
  from spread_nth [OF this k] obtain i where i: "i < length (sc_reqs sc)"
    "cl_requests c ! k \<in> set (packets_of (sc_slave sc) (sc_reqs sc ! i) (ph ! i))" by blast
  then obtain rid where ph: "ph ! i = Asked rid" by (cases "ph ! i") simp_all
  let ?d = "sc_reqs sc ! i" and ?p = "cl_requests c ! k" and ?drv = "sl_driver (cl_slave c)"
  have p: "packets_of (sc_slave sc) ?d (Asked rid) = [?p]" using i(2) ph by simp
  have key: "m_key ?d \<in> {Some READ, Some WRITE}" by (rule history_away [OF D(6) i(1)]) (simp add: ph)
  obtain task where task: "slave_tasks_of ?d (Reached rid) = [task]" by simp
  from slave_receives [OF servable_request [OF ok i(1)] key p, of ?drv "master_addr (sc_addrs sc)"] obtain data key where
    recv: "pk_to ?p = m_cliaddr (sc_slave sc)"
      "SlaveDriverProxy_ReceiveRequest ?drv (Recv (master_addr (sc_addrs sc)) (pk_data ?p)) =
        Inr (?drv\<lparr>sdp_m_servaddr := master_addr (sc_addrs sc)\<rparr>, data)"
      "DriverProxyGateWay_Read data = Inr (key, TaskInfo (Some data), False)"
      "Factory_Create slave_factory key (TaskInfo (Some data)) = Inr task"
    unfolding task by auto
  define c' where "c' = c\<lparr>cl_requests := remove_nth k (cl_requests c),
    cl_slave := (cl_slave c)\<lparr>sl_driver := ?drv\<lparr>sdp_m_servaddr := master_addr (sc_addrs sc)\<rparr>\<rparr>,
    cl_slave_tasks := cl_slave_tasks c @ [task]\<rparr>"
  have step: "cluster_step env (sc_addrs sc) (Request_Arrives k) c = Inr c'"
    using recv k ok by (simp add: c'_def scene_ok_def)
  have "places_ok sc c' (ph[i := Reached rid])"
    using D(3) i k D(1) ph p task by (simp add: places_ok_def c'_def spread_updated mset_remove_nth)
  moreover have "kernel_ok sc c' (ph[i := Reached rid])"
    by (rule kernel_update [OF D(2) i(1) D(1)]) (simp_all add: ph c'_def)
  moreover have "history_ok sc (ph[i := Reached rid]) order answered"
    by (rule history_same [OF D(6) i(1) D(1)]) (use history_away [OF D(6) i(1)] ph in simp_all)
  moreover have "table_inv (sc_reqs sc) (sc_slave sc) (ms_storage (cl_master c)) (ph[i := Reached rid])"
    by (rule table_same [OF D(5)]) (simp_all add: i D(1) ph)
  ultimately have "cluster_inv sc c' (ph[i := Reached rid]) (order @ []) (answered @ [])"
    using D by (simp add: cluster_inv_def c'_def slave_ok_def)
  moreover have "weight (Reached rid) < weight (ph ! i)" "i < length ph" by (simp_all add: i D(1) ph)
  ultimately have "advances sc ph order answered c'" unfolding advances_def by metis
  with step show ?thesis by blast
qed

text \<open>What a worker of the slave does.\<close>

lemma slave_runs:
  assumes d: "servable zeros n d" "m_key d \<in> {Some READ, Some WRITE}" and task: "slave_tasks_of d (Reached rid) = [task]"
    and disk: "mapped (sl_storage sl)" "good_disk zeros n (mmap_content (sl_storage sl))"
  shows "\<exists>st. slave_Execute sl task =
      Inr (sl\<lparr>sl_storage := st, sl_sent := sl_sent sl @
        replies_of (sdp_m_servaddr (sl_driver sl)) d (Served rid (fst (device_exec d (mmap_content (sl_storage sl)))))\<rparr>) \<and>
    mapped st \<and> mmap_content st = snd (device_exec d (mmap_content (sl_storage sl)))"
proof -
  from d obtain off len where some: "m_offset d = Some off" "m_len d = Some len" by (auto simp: servable_def)
  have "length (mmap_content (sl_storage sl)) = n" using disk(2) by (simp add: good_disk_def)
  then have bounds: "unat off + unat len \<le> length (mmap_content (sl_storage sl))"
    using d some by (auto simp: servable_def request_offset_def request_len_def)
  show ?thesis
  proof (cases "m_key d = Some READ")
    case True
    from good_block [OF disk(2) d(1) True] obtain cs where
      cs: "stored_at (mmap_content (sl_storage sl)) (unat off) (unat len) = map Some cs" "0 \<in> set cs"
      using some by (auto simp: request_offset_def request_len_def)
    have "unat len \<le> 4096" using d True some by (simp add: servable_def request_len_def)
    from SlaveRead_Execute_ok [OF disk(1) bounds cs(1) this, of rid] cs(2) True task some show ?thesis
      using disk(1)
      by (intro exI [of _ "sl_storage sl"])
        (auto simp: device_exec_def request_offset_def request_len_def cs(1) comp_def op_char_def)
  next
    case False
    with d have key: "m_key d = Some WRITE" by auto
    with d obtain bs where bs: "payload d = map Some bs" "length bs = request_len d" "0 \<notin> set bs"
      and l: "request_len d \<le> 4089" by (auto simp: servable_def)
    have len: "length bs = unat len" using bs(2) some by (simp add: request_len_def)
    have short: "unat len < BUFF_SIZE" using l some by (simp add: request_len_def BUFF_SIZE_def)
    have mp: "map the (payload d) = bs" by (simp add: bs(1) comp_def)
    let ?st = "(sl_storage sl)\<lparr>m_mmap := Some (overwrite (mmap_content (sl_storage sl)) (unat off) (map Some bs))\<rparr>"
    have "mapped ?st" using disk(1) bounds len by (simp add: mapped_def mmap_content_def)
    moreover have "mmap_content ?st = snd (device_exec d (mmap_content (sl_storage sl)))"
      using key some by (simp add: device_exec_def mmap_content_def bs(1) request_offset_def)
    moreover have "through_c_string bs (unat len) = map Some bs" by (rule through_c_string_text [OF bs(3) len])
    then have "slave_Execute sl task =
        Inr (sl\<lparr>sl_storage := ?st, sl_sent := sl_sent sl @ replies_of (sdp_m_servaddr (sl_driver sl)) d (Served rid [])\<rparr>)"
      using SlaveWrite_Execute_ok [OF disk(1) bounds len short, of rid] key task some mp by (auto simp: op_char_def)
    ultimately show ?thesis using key by (intro exI [of _ ?st]) (simp add: device_exec_def)
  qed
qed

lemma slave_works:
  assumes inv: "cluster_inv sc c ph order answered" and ok: "scene_ok sc" and "enabled (Slave_Works k) c"
  shows "\<exists>c'. cluster_step env addrs (Slave_Works k) c = Inr c' \<and> advances sc ph order answered c'"
proof -
  note D = cluster_invD [OF inv]
  have k: "k < length (cl_slave_tasks c)" using assms(3) by simp
  have "mset (cl_slave_tasks c) = spread slave_tasks_of (sc_reqs sc) ph" using D(3) by (simp add: places_ok_def)
  from spread_nth [OF this k] obtain i where i: "i < length (sc_reqs sc)"
    "cl_slave_tasks c ! k \<in> set (slave_tasks_of (sc_reqs sc ! i) (ph ! i))" by blast
  then obtain rid where ph: "ph ! i = Reached rid" by (cases "ph ! i") simp_all
  let ?d = "sc_reqs sc ! i" and ?task = "cl_slave_tasks c ! k" and ?sl = "(cl_slave c)\<lparr>sl_sent := []\<rparr>"
  let ?disk = "snd (device_run (sc_reqs sc) order (sc_disk sc))"
  have task: "slave_tasks_of ?d (Reached rid) = [?task]" using i(2) ph by simp
  have key: "m_key ?d \<in> {Some READ, Some WRITE}" by (rule history_away [OF D(6) i(1)]) (simp add: ph)
  have sl: "mapped (sl_storage ?sl)" "mmap_content (sl_storage ?sl) = ?disk"
    and addr: "sdp_m_servaddr (sl_driver ?sl) = master_addr (sc_addrs sc)"
    using D(4) k by (auto simp: slave_ok_def)
  have "set order \<subseteq> {..<length (sc_reqs sc)}" using D(6) by (auto simp: history_ok_def)
  with ok have good: "good_disk (sc_zeros sc) (length (sc_disk sc)) ?disk"
    unfolding scene_ok_def by (intro device_run_good) auto
  let ?body = "fst (device_exec ?d ?disk)"
  from slave_runs [OF servable_request [OF ok i(1)] key task sl(1)] good obtain st where
    run: "slave_Execute ?sl ?task = Inr (?sl\<lparr>sl_storage := st,
        sl_sent := replies_of (master_addr (sc_addrs sc)) ?d (Served rid ?body)\<rparr>)"
      "mapped st" "mmap_content st = snd (device_exec ?d ?disk)"
    unfolding sl(2) addr by auto
  define c' where "c' = c\<lparr>cl_slave := ?sl\<lparr>sl_storage := st,
      sl_sent := replies_of (master_addr (sc_addrs sc)) ?d (Served rid ?body)\<rparr>,
    cl_slave_tasks := remove_nth k (cl_slave_tasks c),
    cl_replies := cl_replies c @ replies_of (master_addr (sc_addrs sc)) ?d (Served rid ?body)\<rparr>"
  have step: "cluster_step env addrs (Slave_Works k) c = Inr c'"
    using run(1) k by (simp add: c'_def del: replies_of.simps)
  have "places_ok sc c' (ph[i := Served rid ?body])"
    using D(3) i k D(1) ph task by (simp add: places_ok_def c'_def spread_updated mset_remove_nth)
  moreover have "kernel_ok sc c' (ph[i := Served rid ?body])"
    by (rule kernel_update [OF D(2) i(1) D(1)]) (simp_all add: ph c'_def)
  moreover have "history_ok sc (ph[i := Served rid ?body]) (order @ [i]) (answered @ [])"
    by (rule history_served [OF D(6) i(1) D(1)]) (use key ph in simp_all)
  moreover have "table_inv (sc_reqs sc) (sc_slave sc) (ms_storage (cl_master c)) (ph[i := Served rid ?body])"
    by (rule table_same [OF D(5)]) (simp_all add: i D(1) ph)
  moreover have "answers sc (order @ [i]) (answered @ []) = ms_out (cl_master c)"
    using answers_append [OF history_subset [OF D(6)], of sc "[i]"] D(7) by simp
  ultimately have "cluster_inv sc c' (ph[i := Served rid ?body]) (order @ [i]) (answered @ [])"
    using D run(2,3) addr by (simp add: cluster_inv_def c'_def slave_ok_def device_run_new)
  moreover have "weight (Served rid ?body) < weight (ph ! i)" "i < length ph" by (simp_all add: i D(1) ph)
  ultimately have "advances sc ph order answered c'" unfolding advances_def by metis
  with step show ?thesis by blast
qed

section \<open>Replies\<close>

lemma gateway_reads:
  assumes d: "servable zeros n d" "m_key d \<in> {Some READ, Some WRITE}"
    and body: "0 \<notin> set body" "length body \<le> request_len d" "m_key d \<noteq> Some READ \<Longrightarrow> body = []"
    and r: "replies_of to d (Served rid body) = [r]"
    and st: "ids_inv st" "in_flight st rid = Some (m_handler d)" "claim_handler st rid = Inr (m_handler d, st')"
  shows "SlaveGateway_Read st (Recv from (snd r)) = Inr (REPLAY, TaskInfo (Some (reply_data d body)), st')"
proof -
  from d obtain len where len: "m_len d = Some len" by (auto simp: servable_def)
  have l: "length body \<le> 4096" using d body(2) by (auto simp: servable_def)
  have "length (reply_text len rid (op_char d)) + 1 + length body < BUFF_SIZE"
    using length_reply_text [of len rid "op_char d"] l by (simp add: BUFF_SIZE_def)
  from SlaveGateway_Read_reply [OF st this _ body(1), of "from"] len r d show ?thesis
    by (auto simp: op_char_def reply_data_def)
qed

lemma gateway_reads_again:
  assumes d: "servable zeros n d" "m_key d \<in> {Some READ, Some WRITE}" and body: "length body \<le> request_len d"
    and r: "replies_of to d (Served rid body) = [r]" and st: "ids_inv st" "in_flight st rid = None"
  shows "SlaveGateway_Read st (Recv from (snd r)) = Inl End_Deref"
proof -
  from d obtain len where len: "m_len d = Some len" by (auto simp: servable_def)
  have "length body \<le> 4096" using d body by (auto simp: servable_def)
  then have "length (reply_text len rid (op_char d)) + 1 + length body < BUFF_SIZE"
    using length_reply_text [of len rid "op_char d"] by (simp add: BUFF_SIZE_def)
  from SlaveGateway_Read_unknown [OF st this, of "from"] len r show ?thesis by auto
qed

lemma reply_arrives:
  assumes inv: "cluster_inv sc c ph order answered" and ok: "scene_ok sc" and "enabled (Reply_Arrives k) c"
  shows "\<exists>c'. cluster_step env (sc_addrs sc) (Reply_Arrives k) c = Inr c' \<and> advances sc ph order answered c' \<and>
    fst (cl_replies c ! k) = master_addr (sc_addrs sc) \<and>
    SlaveGateway_Read (ms_storage (cl_master c')) (Recv (slave_addr (sc_addrs sc)) (snd (cl_replies c ! k))) = Inl End_Deref"
proof -
  note D = cluster_invD [OF inv]
  have k: "k < length (cl_replies c)" using assms(3) by simp
  have "mset (cl_replies c) = spread (replies_of (master_addr (sc_addrs sc))) (sc_reqs sc) ph"
    using D(3) by (simp add: places_ok_def)
  from spread_nth [OF this k] obtain i where i: "i < length (sc_reqs sc)"
    "cl_replies c ! k \<in> set (replies_of (master_addr (sc_addrs sc)) (sc_reqs sc ! i) (ph ! i))" by blast
  then obtain rid body where ph: "ph ! i = Served rid body" by (cases "ph ! i") simp_all
  let ?d = "sc_reqs sc ! i" and ?r = "cl_replies c ! k" and ?st = "ms_storage (cl_master c)"
  have r: "replies_of (master_addr (sc_addrs sc)) ?d (Served rid body) = [?r]" using i(2) ph by simp
  have to: "fst ?r = master_addr (sc_addrs sc)" using i(2) ph by simp
  have key: "m_key ?d \<in> {Some READ, Some WRITE}" by (rule history_away [OF D(6) i(1)]) (simp add: ph)
  have body: "body = text_for (sc_reqs sc) order (sc_disk sc) i" and "i \<in> set order" "distinct order"
    using D(6) i ph by (auto simp: history_ok_def)
  note b = text_for_bounds [OF this(2,3), of "sc_reqs sc" "sc_disk sc", folded body]
  have len: "i < length ph" and pid: "phase_id (ph ! i) = Some rid" using i D(1) ph by simp_all
  from table_claim [OF D(5) this, of body] obtain st' where st': "in_flight ?st rid = Some (m_handler ?d)"
    "claim_handler ?st rid = Inr (m_handler ?d, st')" "ids_inv ?st"
    "table_inv (sc_reqs sc) (sc_slave sc) st' (ph[i := Back body])" "in_flight st' rid = None" by blast
  note sv = servable_request [OF ok i(1)]
  have gw: "SlaveGateway_Read ?st (Recv (slave_addr (sc_addrs sc)) (snd ?r)) =
      Inr (REPLAY, TaskInfo (Some (reply_data ?d body)), st')"
    by (rule gateway_reads [OF sv key _ _ _ r st'(3,1,2)]) (use b in auto)
  have again: "SlaveGateway_Read st' (Recv (slave_addr (sc_addrs sc)) (snd ?r)) = Inl End_Deref"
    by (rule gateway_reads_again [OF sv key _ r _ st'(5)]) (use b st'(4) in \<open>auto simp: table_inv_def\<close>)
  define c' where "c' = c\<lparr>cl_replies := remove_nth k (cl_replies c), cl_master := (cl_master c)\<lparr>ms_storage := st'\<rparr>,
    cl_tasks := cl_tasks c @ [NBDReplay (TaskInfo (Some (reply_data ?d body)))]\<rparr>"
  have step: "cluster_step env (sc_addrs sc) (Reply_Arrives k) c = Inr c'"
    using gw k to by (simp add: c'_def)
  have "places_ok sc c' (ph[i := Back body])"
    using D(3) i k D(1) ph r by (simp add: places_ok_def c'_def spread_updated mset_remove_nth)
  moreover have "kernel_ok sc c' (ph[i := Back body])"
    by (rule kernel_update [OF D(2) i(1) D(1)]) (simp_all add: ph c'_def)
  moreover have "history_ok sc (ph[i := Back body]) order answered"
    by (rule history_same [OF D(6) i(1) D(1)]) (use key ph in simp_all)
  ultimately have "cluster_inv sc c' (ph[i := Back body]) (order @ []) (answered @ [])"
    using D st'(4) by (simp add: cluster_inv_def c'_def slave_ok_def)
  moreover have "weight (Back body) < weight (ph ! i)" by (simp add: ph)
  ultimately have "advances sc ph order answered c'" unfolding advances_def using len by metis
  with step to again show ?thesis by (auto simp: c'_def)
qed

section \<open>Every event\<close>

lemma cluster_step_advances:
  assumes "cluster_inv sc c ph order answered" and "scene_ok sc" and "patient (env_abi (sc_env sc)) e"
    and "enabled e c"
  shows "\<exists>c'. cluster_step (sc_env sc) (sc_addrs sc) e c = Inr c' \<and> advances sc ph order answered c'"
  using kernel_sends [OF assms(1,2)] master_works [OF assms(1,2)] request_arrives [OF assms(1,2)]
    slave_works [OF assms(1,2)] reply_arrives [OF assms(1,2)] assms(3,4)
  by (cases e) blast+

end
