(* ===== verification/Cluster_Results.thy ===== *)
theory Cluster_Results
  imports Cluster_Steps
begin

text \<open>
  The runs of the \<open>Cluster\<close>: no run fails, the kernel sees a device that serves its requests one after another,
  and every run comes to an end.
\<close>

section \<open>Runs\<close>

definition cluster_starts :: "scene \<Rightarrow> cluster \<Rightarrow> bool" where
  "cluster_starts sc c \<longleftrightarrow>
     cl_kernel c = sc_reqs sc \<and> cl_tasks c = [] \<and> cl_requests c = [] \<and> cl_slave_tasks c = [] \<and> cl_replies c = [] \<and>
     ids_inv (ms_storage (cl_master c)) \<and> (\<exists>k m. m_slaves (ms_storage (cl_master c)) = (k, sc_slave sc) # m) \<and>
     length (sc_reqs sc) \<le> ids_left (ms_storage (cl_master c)) \<and> ms_out (cl_master c) = sc_out sc \<and>
     mapped (sl_storage (cl_slave c)) \<and> mmap_content (sl_storage (cl_slave c)) = sc_disk sc"

lemma spread_Coming:
  "(\<And>d. f d Coming = []) \<Longrightarrow> spread f ds (replicate (length ds) Coming) = {#}"
  by (simp add: spread_def)

lemma cluster_inv_start:
  assumes "cluster_starts sc c"
  shows "cluster_inv sc c (replicate (length (sc_reqs sc)) Coming) [] []"
proof -
  have "kernel_ok sc c (replicate (length (sc_reqs sc)) Coming)"
    using assms unfolding kernel_ok_def by (intro exI [of _ 0]) (auto simp: cluster_starts_def)
  moreover have "history_ok sc (replicate (length (sc_reqs sc)) Coming) [] []"
    by (simp add: history_ok_def)
  moreover have "table_inv (sc_reqs sc) (sc_slave sc) (ms_storage (cl_master c)) (replicate (length (sc_reqs sc)) Coming)"
    using assms by (simp add: table_inv_def cluster_starts_def)
  ultimately show ?thesis
    using assms by (simp add: cluster_inv_def cluster_starts_def places_ok_def spread_Coming slave_ok_def answers_def)
qed

text \<open>The events of a run that change something.\<close>

fun effective :: "master_env \<Rightarrow> addresses \<Rightarrow> cluster_event list \<Rightarrow> cluster \<Rightarrow> nat" where
  "effective env addrs [] c = 0"
| "effective env addrs (e # es) c =
     (case cluster_step env addrs e c of
        Inl f \<Rightarrow> 0
      | Inr c' \<Rightarrow> (if enabled e c then 1 else 0) + effective env addrs es c')"

definition way_to_go :: "phase list \<Rightarrow> nat" where
  "way_to_go ph = sum_list (map weight ph)"

lemma way_to_go_update:
  "i < length ph \<Longrightarrow> weight p < weight (ph ! i) \<Longrightarrow> way_to_go (ph[i := p]) < way_to_go ph"
proof (induction ph arbitrary: i)
  case (Cons q ph)
  show ?case
  proof (cases i)
    case (Suc j)
    with Cons.IH [of j] Cons.prems show ?thesis by (simp add: way_to_go_def)
  qed (use Cons.prems in \<open>simp add: way_to_go_def\<close>)
qed simp

lemma cluster_run_inv:
  assumes "scene_ok sc"
  shows "cluster_inv sc c ph order answered \<Longrightarrow> \<forall>e \<in> set es. patient (env_abi (sc_env sc)) e \<Longrightarrow>
    \<exists>c' ph' later new. cluster_run (sc_env sc) (sc_addrs sc) es c = Inr c' \<and>
      cluster_inv sc c' ph' (order @ later) (answered @ new) \<and>
      effective (sc_env sc) (sc_addrs sc) es c + way_to_go ph' \<le> way_to_go ph"
proof (induction es arbitrary: c ph order answered)
  case Nil
  then show ?case by (intro exI [of _ c] exI [of _ ph] exI [of _ "[]"]) simp
next
  case (Cons e es)
  show ?case
  proof (cases "enabled e c")
    case False
    from Cons.IH [OF Cons.prems(1)] Cons.prems(2) not_enabled [OF False, of "sc_env sc" "sc_addrs sc"] False
    show ?thesis by simp
  next
    case True
    with cluster_step_advances [OF Cons.prems(1) assms _ True] Cons.prems(2) obtain c1 i p later new where
      c1: "cluster_step (sc_env sc) (sc_addrs sc) e c = Inr c1" "i < length ph" "weight p < weight (ph ! i)"
        "cluster_inv sc c1 (ph[i := p]) (order @ later) (answered @ new)"
      unfolding advances_def by auto
    note less = way_to_go_update [OF c1(2,3)]
    from Cons.IH [OF c1(4)] Cons.prems(2) obtain c2 ph2 later2 new2 where
      "cluster_run (sc_env sc) (sc_addrs sc) es c1 = Inr c2"
      "cluster_inv sc c2 ph2 ((order @ later) @ later2) ((answered @ new) @ new2)"
      "effective (sc_env sc) (sc_addrs sc) es c1 + way_to_go ph2 \<le> way_to_go (ph[i := p])" by auto
    with c1(1) less True show ?thesis
      by (intro exI [of _ c2] exI [of _ ph2] exI [of _ "later @ later2"] exI [of _ "new @ new2"]) simp
  qed
qed

lemma served_inv:
  assumes "cluster_inv sc c ph order answered"
  shows "served (env_abi (sc_env sc)) (sc_reqs sc) (sc_disk sc) (sc_out sc) c order answered"
proof -
  note D = cluster_invD [OF assms]
  from D(2) obtain m where m: "m \<le> length (sc_reqs sc)" "cl_kernel c = drop m (sc_reqs sc)"
    "\<forall>i < length (sc_reqs sc). ph ! i = Coming \<longleftrightarrow> m \<le> i" by (auto simp: kernel_ok_def)
  have "i < m" if "i \<in> set order" for i
  proof -
    from that D(6) have "i < length (sc_reqs sc)" "was_served (ph ! i)" by (auto simp: history_ok_def)
    with m(3) show ?thesis by (cases "ph ! i") (auto simp: not_le)
  qed
  then have "set order \<subseteq> {..<length (sc_reqs sc) - length (cl_kernel c)}" using m by auto
  with D(4,6,7) show ?thesis by (auto simp: served_def slave_ok_def history_ok_def answers_def)
qed

text \<open>When nothing waits anywhere, all requests are answered.\<close>

lemma spread_empty:
  "spread f ds ps = {#} \<Longrightarrow> i < length ds \<Longrightarrow> f (ds ! i) (ps ! i) = []"
  using spread_part [of i ds f ps] by simp

lemma idle_answered:
  assumes "cluster_inv sc c ph order answered" and "idle c"
  shows "set answered = {..<length (sc_reqs sc)}"
proof -
  note D = cluster_invD [OF assms(1)]
  from D(2) assms(2) have coming: "ph ! i \<noteq> Coming" if "i < length (sc_reqs sc)" for i
    using that by (auto simp: kernel_ok_def idle_def)
  have "spread master_tasks_of (sc_reqs sc) ph = {#}" "spread (packets_of (sc_slave sc)) (sc_reqs sc) ph = {#}"
    "spread slave_tasks_of (sc_reqs sc) ph = {#}" "spread (replies_of (master_addr (sc_addrs sc))) (sc_reqs sc) ph = {#}"
    using D(3) assms(2) by (auto simp: places_ok_def idle_def)
  then have "ph ! i = Answered" if "i < length (sc_reqs sc)" for i
    using that coming [OF that]
    by (cases "ph ! i") (auto dest!: spread_empty [of _ _ _ i])
  with D(6) show ?thesis by (auto simp: history_ok_def)
qed

section \<open>Properties\<close>

text \<open>
  C1: the whole system, with any number of requests on their way: for requests of the kernel
  that fit the protocol (payloads of writes without a zero byte, a zero byte in the block of each read) no
  event fails, in whatever order the workers, the network and the main loops act; the disk of the slave
  and the replies are those of a device that serves the requests one after another, in an order in which
  requests only ever follow those that were served before.  In particular a request
  that is answered is served before each one that the master has not read yet.
\<close>

theorem cluster_is_linearizable:
  assumes "scene_ok sc" and "cluster_starts sc c" and "\<forall>e \<in> set (es @ es'). patient (env_abi (sc_env sc)) e"
  shows "\<exists>c1 c2 order later answered new.
    cluster_run (sc_env sc) (sc_addrs sc) es c = Inr c1 \<and> cluster_run (sc_env sc) (sc_addrs sc) es' c1 = Inr c2 \<and>
    served (env_abi (sc_env sc)) (sc_reqs sc) (sc_disk sc) (sc_out sc) c1 order answered \<and>
    served (env_abi (sc_env sc)) (sc_reqs sc) (sc_disk sc) (sc_out sc) c2 (order @ later) (answered @ new)"
proof -
  from cluster_run_inv [OF assms(1) cluster_inv_start [OF assms(2)], of es] assms(3) obtain c1 ph1 order answered where
    c1: "cluster_run (sc_env sc) (sc_addrs sc) es c = Inr c1" "cluster_inv sc c1 ph1 order answered" by auto
  from cluster_run_inv [OF assms(1) c1(2), of es'] assms(3) obtain c2 ph2 later new where
    c2: "cluster_run (sc_env sc) (sc_addrs sc) es' c1 = Inr c2"
      "cluster_inv sc c2 ph2 (order @ later) (answered @ new)" by auto
  from c1 c2 served_inv [OF c1(2)] served_inv [OF c2(2)] show ?thesis by blast
qed

text \<open>
  C2: each request is answered exactly once: however the events are ordered, at most six per
  request have an effect, and when none is left that could have one, the replies that the kernel got are
  those to all of its requests, each of them once, with the text that a serial device gives.
\<close>

theorem cluster_answers_all:
  assumes "scene_ok sc" and "cluster_starts sc c" and "\<forall>e \<in> set es. patient (env_abi (sc_env sc)) e"
  shows "effective (sc_env sc) (sc_addrs sc) es c \<le> 6 * length (sc_reqs sc) \<and>
    (\<exists>c'. cluster_run (sc_env sc) (sc_addrs sc) es c = Inr c' \<and>
       ((\<exists>e. enabled e c') \<or>
        (\<exists>order answered. distinct answered \<and> set answered = {..<length (sc_reqs sc)} \<and>
           ms_out (cl_master c') = sc_out sc @ concat (map (\<lambda>i. kernel_answer (env_abi (sc_env sc)) (sc_reqs sc ! i)
             (text_for (sc_reqs sc) order (sc_disk sc) i)) answered) \<and>
           distinct order \<and> set order = {..<length (sc_reqs sc)})))"
proof -
  from cluster_run_inv [OF assms(1) cluster_inv_start [OF assms(2)] assms(3)] obtain c' ph order answered where
    c': "cluster_run (sc_env sc) (sc_addrs sc) es c = Inr c'" "cluster_inv sc c' ph order answered"
    and bound: "effective (sc_env sc) (sc_addrs sc) es c + way_to_go ph \<le>
      way_to_go (replicate (length (sc_reqs sc)) Coming)" by auto
  have "effective (sc_env sc) (sc_addrs sc) es c \<le> 6 * length (sc_reqs sc)"
    using bound by (simp add: way_to_go_def sum_list_replicate)
  moreover have "(\<exists>e. enabled e c') \<or> idle c'"
  proof -
    consider "cl_kernel c' \<noteq> []" | "cl_tasks c' \<noteq> []" | "cl_requests c' \<noteq> []" | "cl_slave_tasks c' \<noteq> []"
      | "cl_replies c' \<noteq> []" | "idle c'" by (auto simp: idle_def)
    then show ?thesis
      by cases (use enabled.simps(1) [of c'] enabled.simps(2) [of 0 "[]" c'] enabled.simps(3) [of 0 c']
        enabled.simps(4) [of 0 c'] enabled.simps(5) [of 0 c'] in blast)+
  qed
  moreover have "set answered = {..<length (sc_reqs sc)} \<and> set order = {..<length (sc_reqs sc)}" if "idle c'"
    using idle_answered [OF c'(2) that] history_subset [OF cluster_invD(6) [OF c'(2)]] cluster_invD(6) [OF c'(2)]
    by (auto simp: history_ok_def)
  ultimately show ?thesis using c' served_inv [OF c'(2)] unfolding served_def by blast
qed

text \<open>
  C3: when the network delivers the datagram of a reply twice, as it may, the master is lost: the first one takes the
  entry of the request out of the table, and for the second one the search for it reads the end of the
  list, at whatever moment of a run that is.
\<close>

theorem doubled_reply_breaks_master:
  assumes "scene_ok sc" and "cluster_starts sc c" and "\<forall>e \<in> set es. patient (env_abi (sc_env sc)) e"
    and "cluster_run (sc_env sc) (sc_addrs sc) es c = Inr c1" and "k < length (cl_replies c1)"
  shows "\<exists>c2. cluster_step (sc_env sc) (sc_addrs sc) (Reply_Arrives k) c1 = Inr c2 \<and>
    cluster_step (sc_env sc) (sc_addrs sc) (Reply_Arrives (length (cl_replies c2)))
      (c2\<lparr>cl_replies := cl_replies c2 @ [cl_replies c1 ! k]\<rparr>) = Inl End_Deref"
proof -
  from cluster_run_inv [OF assms(1) cluster_inv_start [OF assms(2)] assms(3)] assms(4) obtain ph order answered where
    inv: "cluster_inv sc c1 ph order answered" by auto
  from reply_arrives [OF inv assms(1), of k] assms(5) show ?thesis by fastforce
qed

text \<open>A disk of four bytes whose third one stays zero, a write of the first two bytes, a read, and a flush.\<close>

definition small_scene :: scene where
  "small_scene =
     \<lparr>sc_reqs =
        [(write_data 0 [7, 8])\<lparr>m_handler := replicate 8 (Some 1)\<rparr>,
         new_DriverData\<lparr>m_offset := Some 0, m_len := Some 3, m_key := Some READ, m_handler := replicate 8 (Some 2)\<rparr>,
         new_DriverData\<lparr>m_key := Some FLUSH, m_status := Some 0, m_handler := replicate 8 (Some 3)\<rparr>],
      sc_disk = map Some [1, 2, 0, 4], sc_out = [], sc_zeros = {2},
      sc_slave = \<lparr>sd_m_socket = 3, m_cliaddr = \<lparr>sin_port = 1, sin_addr = 2\<rparr>\<rparr>,
      sc_env = ex_env, sc_addrs = \<lparr>master_addr = \<lparr>sin_port = 9, sin_addr = 9\<rparr>, slave_addr = \<lparr>sin_port = 1, sin_addr = 2\<rparr>\<rparr>\<rparr>"

definition small_cluster :: cluster where
  "small_cluster =
     \<lparr>cl_kernel = sc_reqs small_scene, cl_master = ex_master, cl_tasks = [], cl_requests = [],
      cl_slave = ex_slave\<lparr>sl_storage := \<lparr>m_size = 4, m_mmap = Some (map Some [1, 2, 0, 4])\<rparr>\<rparr>,
      cl_slave_tasks = [], cl_replies = []\<rparr>"

definition small_events :: "cluster_event list" where
  "small_events = [Kernel_Sends, Kernel_Sends, Master_Works 1 (replicate 4200 (IO_Upto 0)), Request_Arrives 0,
     Kernel_Sends, Master_Works 0 (replicate 4200 (IO_Upto 0)), Request_Arrives 0, Slave_Works 1, Slave_Works 0, Reply_Arrives 1]"

lemma small_facts:
  "scene_ok small_scene" "cluster_starts small_scene small_cluster"
  "\<forall>e \<in> set small_events. patient (env_abi (sc_env small_scene)) e"
proof -
  show "scene_ok small_scene"
    by (auto simp: scene_ok_def small_scene_def servable_def is_handle_def HANDLE_SIZE_def request_offset_def
        request_len_def write_data_def payload_def good_disk_def ex_env_def intro!: exI [of _ "[7, 8]"])
  show "cluster_starts small_scene small_cluster"
    by (simp add: cluster_starts_def small_scene_def small_cluster_def ex_master_def mapped_def mmap_content_def)
  show "\<forall>e \<in> set small_events. patient (env_abi (sc_env small_scene)) e"
    by (auto simp: small_events_def small_scene_def ex_env_def packed_abi_def InitReaply_def le_bytes_def no_fail_def
        HANDLE_SIZE_def split: option.splits)
qed

theorem cluster_is_linearizable_witness:
  "\<exists>c1 c2 order later answered new.
    cluster_run ex_env (sc_addrs small_scene) [] small_cluster = Inr c1 \<and>
    cluster_run ex_env (sc_addrs small_scene) small_events c1 = Inr c2 \<and>
    served packed_abi (sc_reqs small_scene) (map Some [1, 2, 0, 4]) [] c1 order answered \<and>
    served packed_abi (sc_reqs small_scene) (map Some [1, 2, 0, 4]) [] c2 (order @ later) (answered @ new)"
proof -
  have "\<forall>e \<in> set ([] @ small_events). patient (env_abi (sc_env small_scene)) e" using small_facts(3) by simp
  from cluster_is_linearizable [OF small_facts(1,2) this]
  show ?thesis by (simp add: small_scene_def ex_env_def)
qed

theorem cluster_answers_all_witness:
  "effective ex_env (sc_addrs small_scene) small_events small_cluster \<le> 18"
  using cluster_answers_all [OF small_facts(1,2,3)] by (simp add: small_scene_def)

text \<open>The reply to the write is on its way after these events.\<close>

definition write_events :: "cluster_event list" where
  "write_events = [Kernel_Sends, Master_Works 0 (replicate 4200 (IO_Upto 0)), Request_Arrives 0, Slave_Works 0]"

lemma write_on_its_way:
  "\<exists>c1. cluster_run ex_env (sc_addrs small_scene) write_events small_cluster = Inr c1 \<and> 0 < length (cl_replies c1)"
proof -
  let ?d = "(write_data 0 [7, 8])\<lparr>m_handler := replicate 8 (Some 1)\<rparr>"
  let ?a = "\<lparr>sin_port = 1, sin_addr = 2\<rparr>" and ?addrs = "sc_addrs small_scene"
  let ?slave = "\<lparr>sd_m_socket = 3, m_cliaddr = ?a\<rparr>"
  have parts: "length (sc_disk small_scene) = 4" "sc_zeros small_scene = {2}" "sc_reqs small_scene ! 0 = ?d"
    "0 < length (sc_reqs small_scene)" by (simp_all add: small_scene_def)
  have sv: "servable {2} 4 ?d" using servable_request [OF small_facts(1) parts(4)] by (simp only: parts)
  have up: "\<forall>p. env_sendto ex_env p" using small_facts(1) by (simp add: scene_ok_def small_scene_def)
  have key: "m_key ?d \<in> {Some READ, Some WRITE}" "m_key ?d = Some WRITE" by (simp_all add: write_data_def)
  define c0 where "c0 = small_cluster\<lparr>cl_kernel := tl (cl_kernel small_cluster), cl_tasks := [request_task ?d]\<rparr>"
  have s0: "cluster_step ex_env ?addrs Kernel_Sends small_cluster = Inr c0"
    using key(2) by (simp add: c0_def small_cluster_def small_scene_def DriverProxyGateWay_Read_def request_task_def)
  obtain p where p: "packets_of ?slave ?d (Asked 1) = [p]" by simp
  obtain m where "master_Execute ex_env (ex_master\<lparr>ms_ios := replicate 4200 (IO_Upto 0), ms_sent := []\<rparr>) (request_task ?d) = Inr m"
    "ms_sent m = [p]"
    using master_asks [OF sv key(1) up, of "ex_master\<lparr>ms_ios := replicate 4200 (IO_Upto 0), ms_sent := []\<rparr>" "Offset 0" ?slave "[]" 1] p
    by (simp add: ex_master_def del: packets_of.simps)
  then have s1: "cluster_step ex_env ?addrs (Master_Works 0 (replicate 4200 (IO_Upto 0))) c0 =
      Inr (c0\<lparr>cl_master := m, cl_tasks := [], cl_requests := [p]\<rparr>)"
    by (simp add: c0_def small_cluster_def remove_nth_def)
  define c1 where "c1 = c0\<lparr>cl_master := m, cl_tasks := [], cl_requests := [p]\<rparr>"
  obtain task where task: "slave_tasks_of ?d (Reached 1) = [task]" by simp
  define sl where "sl = (cl_slave small_cluster)\<lparr>sl_driver := (sl_driver (cl_slave small_cluster))\<lparr>sdp_m_servaddr := master_addr ?addrs\<rparr>\<rparr>"
  have s2: "cluster_step ex_env ?addrs (Request_Arrives 0) c1 =
      Inr (c1\<lparr>cl_requests := [], cl_slave := sl, cl_slave_tasks := [task]\<rparr>)"
    using slave_receives [OF sv key(1) p, of "sl_driver (cl_slave small_cluster)" "master_addr ?addrs"]
    unfolding task by (auto simp: c1_def c0_def sl_def small_cluster_def small_scene_def remove_nth_def)
  have "mapped (sl_storage sl)" "good_disk {2} 4 (mmap_content (sl_storage sl))"
    by (auto simp: sl_def small_cluster_def mapped_def mmap_content_def good_disk_def)
  from slave_runs [OF sv key(1) task, of "sl\<lparr>sl_sent := []\<rparr>"] this obtain sl' where
    "slave_Execute (sl\<lparr>sl_sent := []\<rparr>) task = Inr sl'" "length (sl_sent sl') = 1" by auto
  then have "\<exists>c3. cluster_step ex_env ?addrs (Slave_Works 0) (c1\<lparr>cl_requests := [], cl_slave := sl, cl_slave_tasks := [task]\<rparr>) = Inr c3 \<and>
      0 < length (cl_replies c3)"
    by auto
  with s0 s1 s2 show ?thesis by (auto simp: write_events_def c1_def simp del: cluster_step.simps)
qed

theorem doubled_reply_breaks_master_witness:
  "\<exists>c1 c2. cluster_run ex_env (sc_addrs small_scene) write_events small_cluster = Inr c1 \<and>
    cluster_step ex_env (sc_addrs small_scene) (Reply_Arrives 0) c1 = Inr c2 \<and>
    cluster_step ex_env (sc_addrs small_scene) (Reply_Arrives (length (cl_replies c2)))
      (c2\<lparr>cl_replies := cl_replies c2 @ [cl_replies c1 ! 0]\<rparr>) = Inl End_Deref"
proof -
  have env: "sc_env small_scene = ex_env" by (simp add: small_scene_def)
  have "\<forall>e \<in> set write_events. patient (env_abi (sc_env small_scene)) e"
    using small_facts(3) by (auto simp: small_events_def write_events_def)
  note run = doubled_reply_breaks_master [OF small_facts(1,2) this, unfolded env]
  from write_on_its_way obtain c1 where c1: "cluster_run ex_env (sc_addrs small_scene) write_events small_cluster = Inr c1"
    "0 < length (cl_replies c1)" by blast
  from run [OF c1] c1(1) show ?thesis by blast
qed

end
