(* ===== verification/Device_Size.thy ===== *)
theory Device_Size
  imports Mmap_Storage Nbd_Driver_Proxy
begin

text \<open>
  The size that \<open>NBDDriverProxy\<close> (nbd_driver_proxy.cpp) gives the device, against the size of the storage
  behind it.  The programs make both from one number: \<open>main\<close> of release/greencloud.0.4.cpp with a \<open>MmapStorage\<close> of its own,
  release/greencloud.0.5.cpp with that of a slave that is configured with the same size.
\<close>

text \<open>The kernel multiplies the two numbers it is told, in 64 bits.\<close>

fun device_bytes :: "nbd_call list \<Rightarrow> 64 word" where
  "device_bytes (NBD_SET_BLKSIZE fd b # NBD_SET_SIZE_BLOCKS fd' n # calls) = b * n"
| "device_bytes calls = 0"

lemma ctor_blocks_calls:
  assumes "NBDDriverProxy_ctor_blocks ioctl pair fd b n = Inr (drv, calls)"
  shows "calls = [NBD_SET_BLKSIZE fd b, NBD_SET_SIZE_BLOCKS fd n, NBD_CLEAR_SOCK fd]"
  using assms
  by (auto simp: NBDDriverProxy_ctor_blocks_def InitDevice_def Ioctl_def bindE_Inr_iff split: if_splits)

lemma whole_blocks: "unat (1024 * (sz div 1024) :: 64 word) = 1024 * (unat sz div 1024)"
proof -
  have "1024 * (unat sz div 1024) \<le> unat sz" by simp
  also have "\<dots> < 2 ^ 64" using unsigned_less [of sz] by simp
  finally show ?thesis by (simp add: unat_word_ariths unat_div)
qed

lemma request_mono:
  "m \<le> n \<Longrightarrow> write_request m d \<Longrightarrow> write_request n d" "m \<le> n \<Longrightarrow> read_request m d \<Longrightarrow> read_request n d"
  by (auto simp: write_request_def read_request_def)

section \<open>Properties\<close>

text \<open>
  C8: A device made from the size of the storage never reaches behind it, and misses less than a block of it; one made
  from a number of blocks, whose product may wrap around, has exactly its size.  So any writes of the kernel to the
  device reach the mapped file, and a read delivers per address what was written there last, or what the file
  held, zeros behind its end: nothing is accessed out of bounds.
\<close>

theorem device_is_a_disk:
  assumes "NBDDriverProxy_ctor ioctl pair fd sz = Inr (drv, calls) \<or>
      (\<exists>b n. sz = b * n \<and> NBDDriverProxy_ctor_blocks ioctl pair fd b n = Inr (drv, calls))"
    and "\<forall>d \<in> set ds. write_request (unat (device_bytes calls)) d" and "read_request (unat (device_bytes calls)) e"
  shows "unat (device_bytes calls) \<le> unat sz \<and> unat sz < unat (device_bytes calls) + 1024 \<and>
    (\<exists>st' st'' e'. run_writes MmapStorage_Write (MmapStorage_ctor True file sz) ds = Inr st' \<and>
      MmapStorage_Read st' e = Inr (st'', e') \<and>
      (\<forall>i < unat (the (m_len e)). payload e' ! i =
         (let a = unat (the (m_offset e)) + i
          in last_written (map write_of ds) a (Some (if a < length file then file ! a else 0)))))"
proof -
  let ?st = "MmapStorage_ctor True file sz"
  have size: "unat (device_bytes calls) \<le> unat sz \<and> unat sz < unat (device_bytes calls) + 1024"
    using assms(1)
  proof
    assume "NBDDriverProxy_ctor ioctl pair fd sz = Inr (drv, calls)"
    then have "device_bytes calls = 1024 * (sz div 1024)"
      by (auto simp: NBDDriverProxy_ctor_def DEFAULT_NUM_BLOCKS_def dest!: ctor_blocks_calls)
    then show ?thesis using whole_blocks [of sz] div_mult_mod_eq [of "unat sz" 1024] by simp
  qed (auto dest!: ctor_blocks_calls)
  note req = request_mono [of "unat (device_bytes calls)" "length (mmap_content ?st)"]
  have "\<forall>d \<in> set ds. write_request (length (mmap_content ?st)) d" "read_request (length (mmap_content ?st)) e"
    using size assms(2,3) req by simp_all
  then obtain st' st'' e' where run: "run_writes MmapStorage_Write ?st ds = Inr st'" "MmapStorage_Read st' e = Inr (st'', e')"
    "\<forall>i < unat (the (m_len e)). payload e' ! i =
       (let a = unat (the (m_offset e)) + i in last_written (map write_of ds) a (mmap_content ?st ! a))"
    using mmap.last_write_wins [OF mapped_MmapStorage_ctor] by metis
  have "mmap_content ?st ! a = Some (if a < length file then file ! a else 0)" if "a < unat sz" for a
    using mmap_ctor_content [OF that] .
  moreover have "unat (the (m_offset e)) + i < unat sz" if "i < unat (the (m_len e))" for i
    using assms(3) size that by (auto simp: read_request_def)
  ultimately have "\<forall>i < unat (the (m_len e)). payload e' ! i =
      (let a = unat (the (m_offset e)) + i
       in last_written (map write_of ds) a (Some (if a < length file then file ! a else 0)))"
    using run(3) by (simp add: Let_def)
  with size run(1,2) show ?thesis by blast
qed

theorem device_is_a_disk_witness:
  "\<exists>drv calls. NBDDriverProxy_ctor (\<lambda>c. True) (Some (3, 4)) 5 2500 = Inr (drv, calls) \<and>
    device_bytes calls = 2048 \<and>
    (\<exists>st' st'' e'. run_writes MmapStorage_Write (MmapStorage_ctor True [9] 2500) [write_data 2046 [1, 2]] = Inr st' \<and>
      MmapStorage_Read st' (write_data 2047 [0]) = Inr (st'', e') \<and> payload e' ! 0 = Some 2)"
proof -
  let ?e = "write_data 2047 [0]" and ?d = "write_data 2046 [1, 2]"
  obtain drv calls where c: "NBDDriverProxy_ctor (\<lambda>c. True) (Some (3, 4)) 5 2500 = Inr (drv, calls)" "device_bytes calls = 2048"
    by (simp add: NBDDriverProxy_ctor_def NBDDriverProxy_ctor_blocks_def InitSockets_def InitDevice_def Ioctl_def DEFAULT_NUM_BLOCKS_def)
  have "\<forall>d \<in> set [?d]. write_request (unat (device_bytes calls)) d" "read_request (unat (device_bytes calls)) ?e"
    by (simp_all add: c(2) write_request_def read_request_def write_data_def)
  from device_is_a_disk [OF disjI1 [OF c(1)] this, of "[9]"] c show ?thesis
    by (auto simp: write_data_def write_of_def covers_def Let_def)
qed

end
