(* ===== verification/Descriptors.thy ===== *)
theory Descriptors
  imports Programs Old_Storages Plug_And_Play Logger
begin

text \<open>
  The table of open descriptors of a process, and what the constructors, the destructors and the
  functions \<open>Disconnect\<close> of the classes do to it (epoll.cpp, nbd_driver_proxy.cpp, slave_driver_proxy.cpp,
  cloud_storage.cpp, mmap_storage.cpp, disk_storage.cpp, plug_and_play.cpp, logger.cpp).  The theories of the classes say what
  becomes of an object when the system answers a call with a descriptor; here the answer is the one that
  POSIX gives, the lowest free descriptor.
\<close>

section \<open>The table\<close>

datatype open_file = Terminal | Kernel_End | Proxy_End | Device | Udp_Socket | Epoll_File | Inotify_File | Log_File "byte list" | Regular string

type_synonym fd_table = "open_file option list"

definition file_at :: "fd_table \<Rightarrow> int \<Rightarrow> open_file option" where
  "file_at t fd = (if 0 \<le> fd \<and> nat fd < length t then t ! nat fd else None)"

definition lowest :: "fd_table \<Rightarrow> nat" where
  "lowest t = length (takeWhile (\<lambda>x. x \<noteq> None) t)"

definition fd_open :: "open_file \<Rightarrow> fd_table \<Rightarrow> int \<times> fd_table" where
  "fd_open f t =
     (int (lowest t), if lowest t < length t then t[lowest t := Some f] else t @ [Some f])"

definition fd_close :: "int \<Rightarrow> fd_table \<Rightarrow> fd_table" where
  "fd_close fd t = (if 0 \<le> fd \<and> nat fd < length t then t[nat fd := None] else t)"

lemma lowest_le: "lowest t \<le> length t"
  by (simp add: lowest_def length_takeWhile_le)

lemma lowest_free: "lowest t < length t \<Longrightarrow> t ! lowest t = None"
  using nth_length_takeWhile [of "\<lambda>x. x \<noteq> None" t] by (simp add: lowest_def)

text \<open>Several files opened one after another.\<close>

fun open_many :: "('f \<Rightarrow> 't \<Rightarrow> int \<times> 't) \<Rightarrow> 'f list \<Rightarrow> 't \<Rightarrow> int list \<times> 't" where
  "open_many opn [] t = ([], t)"
| "open_many opn (f # fs) t = (let (fd, t) = opn f t; (fds, t) = open_many opn fs t in (fd # fds, t))"

text \<open>What the owners of descriptors rely on.\<close>

locale descriptors =
  fixes at :: "'t \<Rightarrow> int \<Rightarrow> 'f option"
    and opn :: "'f \<Rightarrow> 't \<Rightarrow> int \<times> 't"
    and cls :: "int \<Rightarrow> 't \<Rightarrow> 't"
  assumes opened: "opn f t = (fd, t') \<Longrightarrow> at t' = (at t)(fd \<mapsto> f)"
    and opened_free: "opn f t = (fd, t') \<Longrightarrow> at t fd = None"
    and closed: "at (cls fd t) = (at t)(fd := None)"
begin

lemma closed_all: "at (fold cls fds t) = (\<lambda>fd. if fd \<in> set fds then None else at t fd)"
  by (induction fds arbitrary: t) (auto simp: closed fun_eq_iff)

lemma opened_then_closed:
  assumes "opn f t = (fd, t1)" and "at t2 = at t1"
  shows "at (cls fd t2) = at t"
  using assms opened [OF assms(1)] opened_free [OF assms(1)] by (auto simp: closed fun_eq_iff)

lemma opened_all:
  "open_many opn (replicate n f) t = (fds, t') \<Longrightarrow>
   length fds = n \<and> distinct fds \<and> (\<forall>fd \<in> set fds. at t fd = None) \<and>
   at t' = (\<lambda>fd. if fd \<in> set fds then Some f else at t fd)"
proof (induction n arbitrary: t fds)
  case (Suc n)
  obtain fd t1 where o: "opn f t = (fd, t1)" by force
  obtain fds' where m: "open_many opn (replicate n f) t1 = (fds', t')" and fds: "fds = fd # fds'"
    using Suc.prems o by (auto split: prod.splits)
  note ih = Suc.IH [OF m] and facts = opened [OF o] opened_free [OF o]
  have new: "fd \<notin> set fds'" using ih facts by auto
  then have "\<forall>fd \<in> set fds'. at t fd = None" using ih facts(1) by (auto split: if_splits)
  with new show ?case using ih facts fds by (auto simp: fun_eq_iff)
qed auto

end

interpretation fd_table: descriptors file_at fd_open fd_close
proof unfold_locales
  fix f :: open_file and t t' :: fd_table and fd :: int
  assume o: "fd_open f t = (fd, t')"
  then show "file_at t fd = None" using lowest_free [of t] by (auto simp: fd_open_def file_at_def)
  from o lowest_le [of t] show "file_at t' = (file_at t)(fd \<mapsto> f)"
    by (auto simp: fd_open_def file_at_def fun_eq_iff nth_append nth_list_update split: if_splits)
next
  show "file_at (fd_close fd t) = (file_at t)(fd := None)" for fd :: int and t
    by (auto simp: fd_close_def file_at_def fun_eq_iff nth_list_update)
qed

lemma fd_open_nonneg: "fd_open f t = (fd, t') \<Longrightarrow> 0 \<le> fd"
  by (auto simp: fd_open_def)

section \<open>The classes\<close>

subsection \<open>Epoll\<close>

definition Epoll_new :: "int option \<Rightarrow> nat \<Rightarrow> fd_table \<Rightarrow> Epoll res \<times> fd_table" where
  "Epoll_new err max_events t =
     (case err of
        Some e \<Rightarrow> (Epoll_ctor (Inl e) max_events, t)
      | None \<Rightarrow> let (fd, t) = fd_open Epoll_File t in (Epoll_ctor (Inr fd) max_events, t))"

definition Epoll_dtor :: "Epoll \<Rightarrow> fd_table \<Rightarrow> fd_table" where
  "Epoll_dtor ep t = fd_close (m_epoll_fd ep) t"

subsection \<open>SlaveDriverProxy\<close>

definition SlaveDriverProxy_new ::
  "bool \<Rightarrow> 32 word option \<Rightarrow> 16 word \<Rightarrow> fd_table \<Rightarrow> SlaveDriverProxy \<times> fd_table" where
  "SlaveDriverProxy_new socket_ok ip port t =
     (let (fd, t) = (if socket_ok then fd_open Udp_Socket t else (-1, t))
      in (SlaveDriverProxy_ctor fd ip port, t))"

definition SlaveDriverProxy_close :: "SlaveDriverProxy \<Rightarrow> fd_table \<Rightarrow> SlaveDriverProxy \<times> fd_table" where
  "SlaveDriverProxy_close drv t = (SlaveDriverProxy_Disconnect drv, fd_close (sdp_m_socket drv) t)"

definition SlaveDriverProxy_destroy :: "SlaveDriverProxy \<Rightarrow> fd_table \<Rightarrow> fd_table" where
  "SlaveDriverProxy_destroy drv t =
     (if fst (SlaveDriverProxy_dtor drv) then snd (SlaveDriverProxy_close drv t) else t)"

subsection \<open>NBDDriverProxy\<close>

text \<open>
  The calls of the proxy on the table: an \<open>ioctl\<close> succeeds only on a descriptor of the device, as
  \<open>EBADF\<close> and \<open>ENOTTY\<close> are documented, and only if the device takes it.
\<close>

fun call_fd :: "nbd_call \<Rightarrow> int" where
  "call_fd (NBD_SET_BLKSIZE fd n) = fd" | "call_fd (NBD_SET_SIZE_BLOCKS fd n) = fd"
| "call_fd (NBD_CLEAR_SOCK fd) = fd" | "call_fd (NBD_SET_SOCK fd s) = fd" | "call_fd (NBD_SET_FLAGS fd f) = fd"
| "call_fd (NBD_DO_IT fd) = fd" | "call_fd (NBD_CLEAR_QUE fd) = fd" | "call_fd (NBD_DISCONNECT fd) = fd"
| "call_fd (Close fd) = fd" | "call_fd Join = -1"

definition dev_ioctl :: "(nbd_call \<Rightarrow> bool) \<Rightarrow> fd_table \<Rightarrow> nbd_call \<Rightarrow> bool" where
  "dev_ioctl takes t c \<longleftrightarrow> file_at t (call_fd c) = Some Device \<and> takes c"

fun fds_of_call :: "nbd_call \<Rightarrow> fd_table \<Rightarrow> fd_table" where
  "fds_of_call (Close fd) t = fd_close fd t"
| "fds_of_call _ t = t"

definition NBDDriverProxy_new ::
  "(nbd_call \<Rightarrow> bool) \<Rightarrow> bool \<Rightarrow> bool \<Rightarrow> 64 word \<Rightarrow> fd_table \<Rightarrow> NBDDriverProxy res \<times> fd_table" where
  "NBDDriverProxy_new takes socketpair_ok open_ok storage_size t =
     (if \<not> socketpair_ok
      then (map_sum id fst (NBDDriverProxy_ctor (dev_ioctl takes t) None (-1) storage_size), t)
      else
        let (req, t) = fd_open Proxy_End t;
            (nbd, t) = fd_open Kernel_End t;
            (fd, t) = (if open_ok then fd_open Device t else (-1, t))
        in (map_sum id fst (NBDDriverProxy_ctor (dev_ioctl takes t) (Some (req, nbd)) fd storage_size), t))"

definition NBDDriverProxy_close ::
  "(nbd_call \<Rightarrow> bool) \<Rightarrow> NBDDriverProxy \<Rightarrow> fd_table \<Rightarrow> (NBDDriverProxy \<times> fd_table) res" where
  "NBDDriverProxy_close takes drv t =
     bindE (NBDDriverProxy_Disconnect (dev_ioctl takes t) drv) (\<lambda>(drv, calls).
     Inr (drv, fold fds_of_call calls t))"

definition NBDDriverProxy_destroy :: "(nbd_call \<Rightarrow> bool) \<Rightarrow> NBDDriverProxy \<Rightarrow> fd_table \<Rightarrow> fd_table res" where
  "NBDDriverProxy_destroy takes drv t =
     bindE (NBDDriverProxy_dtor (dev_ioctl takes t) drv) (\<lambda>(drv, calls). Inr (fold fds_of_call calls t))"

subsection \<open>CloudStorage\<close>

text \<open>
  The sockets of the slaves are opened one after another; a constructor of \<open>SlaveData\<close> that fails ends
  the process.  \<open>SlaveData::Disconnect\<close> closes the socket, but nothing calls it: the destructor of
  \<open>CloudStorage\<close> is empty.
\<close>

definition CloudStorage_new ::
  "(nat \<Rightarrow> slave_env) \<Rightarrow> 64 word \<Rightarrow> 64 word \<Rightarrow> fd_table \<Rightarrow> (CloudStorage \<times> fd_table) res" where
  "CloudStorage_new env num_of_slaves storage_size t =
     (let (fds, t) = open_many fd_open (replicate (unat num_of_slaves) Udp_Socket) t
      in bindE (CloudStorage_ctor (\<lambda>i. (env i)\<lparr>socket_result := fds ! (i - 1)\<rparr>) num_of_slaves storage_size) (\<lambda>st.
         Inr (st, t)))"

definition SlaveData_Disconnect :: "SlaveData \<Rightarrow> fd_table \<Rightarrow> fd_table" where
  "SlaveData_Disconnect s t = fd_close (sd_m_socket s) t"

definition CloudStorage_dtor :: "CloudStorage \<Rightarrow> fd_table \<Rightarrow> fd_table" where
  "CloudStorage_dtor st t = t"

subsection \<open>The files of the storages\<close>

text \<open>
  \<open>InitMmap\<close> closes its descriptor; the mapping lives on until the destructor.  The \<open>fstream\<close> of a
  \<open>DiskStorage\<close> keeps its own descriptor, beside the object here.
\<close>

definition MmapStorage_new :: "bool \<Rightarrow> bool \<Rightarrow> string \<Rightarrow> byte list \<Rightarrow> 64 word \<Rightarrow> fd_table \<Rightarrow> MmapStorage \<times> fd_table" where
  "MmapStorage_new open_ok mmap_ok name bytes sz t =
     (let (fd, t) = (if open_ok then fd_open (Regular name) t else (-1, t))
      in (MmapStorage_ctor (open_ok \<and> mmap_ok) bytes sz, fd_close fd t))"

definition MmapStorage_dtor :: "MmapStorage \<Rightarrow> MmapStorage" where
  "MmapStorage_dtor st = st\<lparr>m_mmap := None\<rparr>"

lemma not_mapped_after_dtor: "\<not> mapped (MmapStorage_dtor st)"
  by (simp add: MmapStorage_dtor_def mapped_def)

definition DiskStorage_new :: "bool \<Rightarrow> string \<Rightarrow> 64 word \<Rightarrow> fd_table \<Rightarrow> (DiskStorage \<times> int) res \<times> fd_table" where
  "DiskStorage_new open_ok name sz t =
     (let (fd, t) = (if open_ok then fd_open (Regular name) t else (-1, t))
      in (bindE (DiskStorage_ctor open_ok sz) (\<lambda>st. Inr (st, fd)), t))"

definition DiskStorage_dtor :: "DiskStorage \<times> int \<Rightarrow> fd_table \<Rightarrow> fd_table" where
  "DiskStorage_dtor st t = fd_close (snd st) t"

subsection \<open>DirMonitor\<close>

text \<open>
  The descriptors of a \<open>DirMonitor\<close> are opened by its thread, which is taken to get so far before
  the constructor returns: those of the \<open>Epoll\<close> and of \<open>inotify\<close>.  An \<open>EpollError\<close> leaves the function
  of the thread and ends the process; also that of \<open>Add\<close> when there is no \<open>inotify\<close>, since \<open>epoll_ctl\<close> refuses
  the descriptor -1.  The thread closes both when the destructor has told it to; but
  where the directory could not be watched the destructor may wait for ever (\<open>dir_monitor_dtor\<close>).
\<close>

definition EBADF :: int where "EBADF = 9"

record dir_monitor_fds =
  dm_epoll :: Epoll
  m_dir_fd :: int
  watched :: bool

definition DirMonitor_new ::
  "int option \<Rightarrow> bool \<Rightarrow> int option \<Rightarrow> bool \<Rightarrow> fd_table \<Rightarrow> dir_monitor_fds res \<times> fd_table" where
  "DirMonitor_new epoll_err inotify_ok epoll_ctl_err watch_ok t =
     (case Epoll_new epoll_err 1 t of
        (Inl f, t) \<Rightarrow> (Inl f, t)
      | (Inr ep, t) \<Rightarrow>
          let (fd, t) = (if inotify_ok then fd_open Inotify_File t else (-1, t))
          in (bindE (Epoll_Add (if inotify_ok then epoll_ctl_err else Some EBADF) fd ep) (\<lambda>ep.
              Inr \<lparr>dm_epoll = ep, m_dir_fd = fd, watched = watch_ok\<rparr>), t))"

definition DirMonitor_dtor :: "bool \<Rightarrow> dir_monitor_fds \<Rightarrow> fd_table \<Rightarrow> fd_table res" where
  "DirMonitor_dtor error_seen dm t =
     (if \<not> watched dm \<and> error_seen then Inl Would_Block
      else Inr (Epoll_dtor (dm_epoll dm) (fd_close (m_dir_fd dm) t)))"

subsection \<open>Logger\<close>

text \<open>The \<open>ofstream\<close> of a logger, beside the object here; a file that cannot be opened takes no descriptor.\<close>

definition Logger_new ::
  "(byte list \<Rightarrow> bool) \<Rightarrow> (byte list \<Rightarrow> bool) \<Rightarrow> byte list \<Rightarrow> Loglvl \<Rightarrow> bool \<Rightarrow> fd_table \<Rightarrow> (Logger \<times> int) res \<times> fd_table" where
  "Logger_new IsFileExists is_open path lvl overwrite_file t =
     (case Logger_ctor IsFileExists is_open path lvl overwrite_file of
        None \<Rightarrow> (Inl Would_Block, t)
      | Some (Inl f) \<Rightarrow> (Inl f, t)
      | Some (Inr lg) \<Rightarrow> let (fd, t) = fd_open (Log_File (log_name lg)) t in (Inr (lg, fd), t))"

definition Logger_dtor :: "Logger \<times> int \<Rightarrow> fd_table \<Rightarrow> fd_table" where
  "Logger_dtor lg t = fd_close (snd lg) t"

section \<open>Objects and their lifetimes\<close>

text \<open>
  A lifetime: the class with the arguments of its constructor and what the system answers to it; for a
  \<open>NBDDriverProxy\<close> also which calls the device takes in the constructor, in \<open>Disconnect\<close> and in the
  destructor, for a \<open>DirMonitor\<close> also whether its destructor sees the state \<open>ERROR\<close>.
\<close>

datatype lifetime =
    Epoll_Life "int option" nat
  | Slave_Driver_Life bool "32 word option" "16 word"
  | Nbd_Life bool bool "nbd_call \<Rightarrow> bool" "nbd_call \<Rightarrow> bool" "nbd_call \<Rightarrow> bool" "64 word"
  | Cloud_Life "nat \<Rightarrow> slave_env" "64 word" "64 word"
  | Mmap_Life bool bool string "byte list" "64 word"
  | Disk_Life bool string "64 word"
  | Monitor_Life "int option" bool "int option" bool bool
  | Logger_Life "byte list \<Rightarrow> bool" "byte list \<Rightarrow> bool" "byte list" Loglvl bool

datatype object =
    Epoll_Object Epoll | Slave_Driver_Object SlaveDriverProxy
  | Nbd_Object "nbd_call \<Rightarrow> bool" "nbd_call \<Rightarrow> bool" NBDDriverProxy
  | Cloud_Object CloudStorage | Mmap_Object MmapStorage | Disk_Object "DiskStorage \<times> int"
  | Monitor_Object bool dir_monitor_fds | Logger_Object "Logger \<times> int"

text \<open>
  How a part of a program is left: normally, by an exception, or not at all, when the process ends or
  waits for ever.  \<open>exit\<close>, undefined behaviour and waiting are not exceptions.
\<close>

datatype leaving = Normally | By_Exception fault | Not_Left fault

fun is_exception :: "fault \<Rightarrow> bool" where
  "is_exception (Runtime_Error e) = True" | "is_exception (NBDBadMagic m) = True" | "is_exception Badkey = True"
| "is_exception (Logic_Error e) = True" | "is_exception (EpollError e) = True" | "is_exception (SemError e) = True"
| "is_exception (SemTimeOut e) = True" | "is_exception _ = False"

definition left_by :: "fault \<Rightarrow> leaving" where
  "left_by f = (if is_exception f then By_Exception f else Not_Left f)"

definition object_or_leave :: "('a \<Rightarrow> object) \<Rightarrow> 'a res \<times> fd_table \<Rightarrow> (leaving + object) \<times> fd_table" where
  "object_or_leave ob r = (map_sum left_by ob (fst r), snd r)"

fun construct :: "lifetime \<Rightarrow> fd_table \<Rightarrow> (leaving + object) \<times> fd_table" where
  "construct (Epoll_Life err n) t = object_or_leave Epoll_Object (Epoll_new err n t)"
| "construct (Slave_Driver_Life ok ip port) t =
     (case SlaveDriverProxy_new ok ip port t of (drv, t) \<Rightarrow> (Inr (Slave_Driver_Object drv), t))"
| "construct (Nbd_Life pair_ok open_ok takes_new takes_disc takes_end sz) t =
     object_or_leave (Nbd_Object takes_disc takes_end) (NBDDriverProxy_new takes_new pair_ok open_ok sz t)"
| "construct (Cloud_Life env n sz) t =
     (case CloudStorage_new env n sz t of
        Inl f \<Rightarrow> (Inl (left_by f), t)
      | Inr (st, t) \<Rightarrow> (Inr (Cloud_Object st), t))"
| "construct (Mmap_Life ok mmap_ok name bytes sz) t =
     (case MmapStorage_new ok mmap_ok name bytes sz t of (st, t) \<Rightarrow> (Inr (Mmap_Object st), t))"
| "construct (Disk_Life ok name sz) t = object_or_leave Disk_Object (DiskStorage_new ok name sz t)"
| "construct (Monitor_Life epoll_err inotify_ok epoll_ctl_err watch_ok error_seen) t =
     (case DirMonitor_new epoll_err inotify_ok epoll_ctl_err watch_ok t of
        (Inl f, t) \<Rightarrow> (Inl (Not_Left f), t)
      | (Inr dm, t) \<Rightarrow> (Inr (Monitor_Object error_seen dm), t))"
| "construct (Logger_Life IsFileExists is_open path lvl ow) t =
     object_or_leave Logger_Object (Logger_new IsFileExists is_open path lvl ow t)"

text \<open>\<open>Disconnect\<close>: an exception leaves the object as it was, since the first call is the one that may fail.\<close>

fun disconnect :: "object \<Rightarrow> fd_table \<Rightarrow> leaving \<times> object \<times> fd_table" where
  "disconnect (Slave_Driver_Object drv) t =
     (case SlaveDriverProxy_close drv t of (drv, t) \<Rightarrow> (Normally, Slave_Driver_Object drv, t))"
| "disconnect (Nbd_Object takes_disc takes_end drv) t =
     (case NBDDriverProxy_close takes_disc drv t of
        Inl f \<Rightarrow> (left_by f, Nbd_Object takes_disc takes_end drv, t)
      | Inr (drv, t) \<Rightarrow> (Normally, Nbd_Object takes_disc takes_end drv, t))"
| "disconnect ob t = (Normally, ob, t)"

text \<open>An exception that leaves a destructor ends the process.\<close>

definition destroyed :: "fd_table \<Rightarrow> fd_table res \<Rightarrow> leaving \<times> fd_table" where
  "destroyed t r = (case r of Inl f \<Rightarrow> (Not_Left f, t) | Inr t \<Rightarrow> (Normally, t))"

fun destroy :: "object \<Rightarrow> fd_table \<Rightarrow> leaving \<times> fd_table" where
  "destroy (Epoll_Object ep) t = (Normally, Epoll_dtor ep t)"
| "destroy (Slave_Driver_Object drv) t = (Normally, SlaveDriverProxy_destroy drv t)"
| "destroy (Nbd_Object takes_disc takes_end drv) t = destroyed t (NBDDriverProxy_destroy takes_end drv t)"
| "destroy (Cloud_Object st) t = (Normally, CloudStorage_dtor st t)"
| "destroy (Mmap_Object st) t = (Normally, t)"
| "destroy (Disk_Object st) t = (Normally, DiskStorage_dtor st t)"
| "destroy (Monitor_Object error_seen dm) t = destroyed t (DirMonitor_dtor error_seen dm t)"
| "destroy (Logger_Object lg) t = (Normally, Logger_dtor lg t)"

text \<open>
  A scope constructs an object, runs the scopes nested in it, calls \<open>Disconnect\<close> where it is told to, and
  destroys the object, also when an exception leaves it.
\<close>

datatype scope = Scope lifetime bool "scope list"

definition end_scope :: "bool \<Rightarrow> object \<Rightarrow> leaving \<Rightarrow> fd_table \<Rightarrow> leaving \<times> fd_table" where
  "end_scope d ob c t =
     (case c of
        Not_Left f \<Rightarrow> (c, t)
      | _ \<Rightarrow>
          let (c, ob, t) = (if d \<and> c = Normally then disconnect ob t else (c, ob, t))
          in (case destroy ob t of (Normally, t) \<Rightarrow> (c, t) | (dead, t) \<Rightarrow> (dead, t)))"

fun run_scope :: "scope \<Rightarrow> fd_table \<Rightarrow> leaving \<times> fd_table"
  and run_scopes :: "scope list \<Rightarrow> fd_table \<Rightarrow> leaving \<times> fd_table" where
  "run_scope (Scope l d body) t =
     (case construct l t of
        (Inl c, t) \<Rightarrow> (c, t)
      | (Inr ob, t) \<Rightarrow> (case run_scopes body t of (c, t) \<Rightarrow> end_scope d ob c t))"
| "run_scopes [] t = (Normally, t)"
| "run_scopes (s # ss) t =
     (case run_scope s t of (Normally, t) \<Rightarrow> run_scopes ss t | (c, t) \<Rightarrow> (c, t))"

text \<open>How many slaves the objects of a scope wait for.\<close>

fun slaves_of :: "lifetime \<Rightarrow> nat" where
  "slaves_of (Cloud_Life env n sz) = unat n"
| "slaves_of _ = 0"

fun scope_slaves :: "scope \<Rightarrow> nat" and scopes_slaves :: "scope list \<Rightarrow> nat" where
  "scope_slaves (Scope l d body) = slaves_of l + scopes_slaves body"
| "scopes_slaves [] = 0"
| "scopes_slaves (s # ss) = scope_slaves s + scopes_slaves ss"

text \<open>\<open>leaves_open fs t t'\<close>: beside the descriptors of \<open>t\<close>, \<open>t'\<close> has one for each of the files \<open>fs\<close>.\<close>

definition leaves_open :: "open_file list \<Rightarrow> fd_table \<Rightarrow> fd_table \<Rightarrow> bool" where
  "leaves_open fs t t' \<longleftrightarrow>
     (\<exists>fds. length fds = length fs \<and> distinct fds \<and> (\<forall>fd \<in> set fds. file_at t fd = None) \<and>
       file_at t' = file_at t ++ map_of (zip fds fs))"

lemma leaves_open_Nil [simp]: "leaves_open [] t t' \<longleftrightarrow> file_at t' = file_at t"
  by (simp add: leaves_open_def)

lemma leaves_open_cong: "file_at t = file_at u \<Longrightarrow> file_at t' = file_at u' \<Longrightarrow> leaves_open fs t t' = leaves_open fs u u'"
  unfolding leaves_open_def by (simp only:)

lemma map_of_zip_None: "length fds = length fs \<Longrightarrow> fd \<notin> set fds \<Longrightarrow> map_of (zip fds fs) fd = None"
  by (simp add: map_of_zip_is_None)

lemma map_of_zip_in: "length fds = length fs \<Longrightarrow> fd \<in> set fds \<Longrightarrow> map_of (zip fds fs) fd \<noteq> None"
  by (simp add: map_of_zip_is_None)

lemma leaves_open_trans:
  assumes "leaves_open fs t t1" and "leaves_open gs t1 t2"
  shows "leaves_open (fs @ gs) t t2"
proof -
  obtain a where a: "length a = length fs" "distinct a" "\<forall>fd \<in> set a. file_at t fd = None"
    "file_at t1 = file_at t ++ map_of (zip a fs)"
    using assms(1) by (auto simp: leaves_open_def)
  obtain b where b: "length b = length gs" "distinct b" "\<forall>fd \<in> set b. file_at t1 fd = None"
    "file_at t2 = file_at t1 ++ map_of (zip b gs)"
    using assms(2) by (auto simp: leaves_open_def)
  have free: "\<forall>fd \<in> set b. fd \<notin> set a \<and> file_at t fd = None"
  proof
    fix fd assume "fd \<in> set b"
    with b(3) have "file_at t1 fd = None" by simp
    with a(4) map_of_zip_in [OF a(1), of fd] show "fd \<notin> set a \<and> file_at t fd = None"
      by (auto simp: map_add_None)
  qed
  have "map_of (zip a fs) ++ map_of (zip b gs) = map_of (zip b gs) ++ map_of (zip a fs)"
    using free a(1) b(1) by (intro map_add_comm) auto
  then have "map_of (zip (a @ b) (fs @ gs)) = map_of (zip a fs) ++ map_of (zip b gs)" using a(1) by simp
  then have "file_at t2 = file_at t ++ map_of (zip (a @ b) (fs @ gs))" by (simp only: a(4) b(4) map_add_assoc)
  moreover have "distinct (a @ b)" "\<forall>fd \<in> set (a @ b). file_at t fd = None"
    using a(2,3) b(2) free by auto
  ultimately show ?thesis using a(1) b(1) unfolding leaves_open_def by (intro exI [of _ "a @ b"]) simp
qed

lemma leaves_open_keeps:
  assumes "leaves_open fs t t'" and "file_at t fd = Some f"
  shows "file_at t' fd = Some f"
proof -
  obtain new where new: "length new = length fs" "\<forall>fd \<in> set new. file_at t fd = None"
    "file_at t' = file_at t ++ map_of (zip new fs)"
    using assms(1) by (auto simp: leaves_open_def)
  have "fd \<notin> set new" using new(2) assms(2) by auto
  then have "map_of (zip new fs) fd = None" by (rule map_of_zip_None [OF new(1)])
  then show ?thesis using assms(2) by (simp add: new(3) map_add_def)
qed

section \<open>What an object holds\<close>

fun held_fds :: "object \<Rightarrow> int list" where
  "held_fds (Epoll_Object ep) = [m_epoll_fd ep]"
| "held_fds (Slave_Driver_Object drv) = [sdp_m_socket drv]"
| "held_fds (Nbd_Object takes_disc takes_end drv) = [m_req_fd drv, m_nbd_fd drv, m_file_fd drv]"
| "held_fds (Cloud_Object st) = []"
| "held_fds (Mmap_Object st) = []"
| "held_fds (Disk_Object st) = [snd st]"
| "held_fds (Monitor_Object error_seen dm) = [m_dir_fd dm, m_epoll_fd (dm_epoll dm)]"
| "held_fds (Logger_Object lg) = [snd lg]"

fun connected :: "object \<Rightarrow> bool" where
  "connected (Nbd_Object takes_disc takes_end drv) \<longleftrightarrow> m_connected drv = ON"
| "connected _ \<longleftrightarrow> True"

lemma file_at_neg [simp]: "fd < 0 \<Longrightarrow> file_at t fd = None"
  by (simp add: file_at_def)

lemma fd_close_neg [simp]: "fd < 0 \<Longrightarrow> fd_close fd t = t"
  by (simp add: fd_close_def)

lemma NBDDriverProxy_ctor_result:
  "NBDDriverProxy_ctor ioctl pair fd sz =
     (case pair of
        None \<Rightarrow> Inl (Runtime_Error ''InitSockets() socketpair() fail'')
      | Some (req, nbd) \<Rightarrow>
          if fd < 0 then Inl (Runtime_Error ''InitDevice() open() fail'')
          else
            let calls = [NBD_SET_BLKSIZE fd 1024, NBD_SET_SIZE_BLOCKS fd (sz div 1024), NBD_CLEAR_SOCK fd]
            in if \<forall>c \<in> set calls. ioctl c
               then Inr (\<lparr>m_req_fd = req, m_nbd_fd = nbd, m_file_fd = fd, m_connected = ON\<rparr>, calls)
               else Inl (Runtime_Error ''IoctlError''))"
  by (simp add: NBDDriverProxy_ctor_def NBDDriverProxy_ctor_blocks_def InitSockets_def InitDevice_def
      DEFAULT_NUM_BLOCKS_def Ioctl_def Let_def split: option.split)

lemmas new_simps = Epoll_new_def Epoll_ctor_def SlaveDriverProxy_new_def SlaveDriverProxy_ctor_def InitSocket_def
  MmapStorage_new_def DiskStorage_new_def CloudStorage_new_def NBDDriverProxy_new_def
  NBDDriverProxy_ctor_result object_or_leave_def

lemma one_opened:
  assumes "fd_open f t = (fd, t1)"
  shows "file_at (fd_close fd t1) = file_at t" "file_at t1 fd \<noteq> None"
  using fd_table.opened_then_closed [OF assms refl] fd_table.opened [OF assms] by auto

lemma two_opened:
  assumes "fd_open f t = (a, t1)" and "fd_open g t1 = (b, t2)"
  shows "file_at (fd_close a (fd_close b t2)) = file_at t" "file_at t2 a \<noteq> None \<and> file_at t2 b \<noteq> None"
    "leaves_open [f, g] t t2"
proof -
  note o = assms [THEN fd_table.opened] and free = assms [THEN fd_table.opened_free]
  show "file_at (fd_close a (fd_close b t2)) = file_at t" "file_at t2 a \<noteq> None \<and> file_at t2 b \<noteq> None"
    using o free by (auto simp: fd_table.closed fun_eq_iff split: if_splits)
  show "leaves_open [f, g] t t2"
    unfolding leaves_open_def using o free by (intro exI [of _ "[a, b]"]) (auto simp: fun_eq_iff split: if_splits)
qed

lemma three_opened:
  assumes "fd_open f t = (a, t1)" and "fd_open g t1 = (b, t2)" and "fd_open h t2 = (c, t3)"
  shows "file_at (fd_close c (fd_close b (fd_close a t3))) = file_at t"
    "file_at t3 a \<noteq> None \<and> file_at t3 b \<noteq> None \<and> file_at t3 c \<noteq> None"
    "leaves_open [f, g, h] t t3"
proof -
  note o = assms [THEN fd_table.opened] and free = assms [THEN fd_table.opened_free]
  show "file_at (fd_close c (fd_close b (fd_close a t3))) = file_at t"
    "file_at t3 a \<noteq> None \<and> file_at t3 b \<noteq> None \<and> file_at t3 c \<noteq> None"
    using o free by (auto simp: fd_table.closed fun_eq_iff split: if_splits)
  show "leaves_open [f, g, h] t t3"
    unfolding leaves_open_def using o free by (intro exI [of _ "[a, b, c]"]) (auto simp: fun_eq_iff split: if_splits)
qed

lemma many_opened:
  assumes "open_many fd_open (replicate n f) t = (fds, t')"
  shows "leaves_open (replicate n f) t t'"
proof -
  note o = fd_table.opened_all [OF assms]
  have "map_of (zip fds (replicate n f)) = (\<lambda>fd. if fd \<in> set fds then Some f else None)"
    using o by (auto simp: zip_replicate2 map_of_map_restrict restrict_map_def)
  then have "file_at t' = file_at t ++ map_of (zip fds (replicate n f))"
    using o by (auto simp: map_add_def fun_eq_iff)
  with o show ?thesis by (auto simp: leaves_open_def)
qed

section \<open>What a constructor leaves open\<close>

text \<open>
  After its construction an object holds descriptors that were free before; when these are closed, only the
  sockets of slaves are left.
\<close>

lemma construct_facts:
  assumes "construct l t = (Inr ob, t1)"
  shows "leaves_open (replicate (slaves_of l) Udp_Socket) t (fold fd_close (held_fds ob) t1) \<and> connected ob \<and>
    (\<forall>fd \<in> set (held_fds ob). fd < 0 \<or> file_at t1 fd \<noteq> None)"
proof (cases l)
  case (Epoll_Life err n)
  then show ?thesis using assms
    by (auto simp: new_simps one_opened split: option.splits prod.splits)
next
  case (Slave_Driver_Life ok ip port)
  then show ?thesis using assms
    by (auto simp: new_simps one_opened split: prod.splits if_splits)
next
  case (Nbd_Life pair_ok open_ok takes_new takes_disc takes_end sz)
  then show ?thesis using assms
    by (auto simp: new_simps Let_def three_opened dest: three_opened(2) split: prod.splits if_splits)
next
  case (Cloud_Life env n sz)
  then show ?thesis using assms
    by (auto simp: new_simps bindE_Inr_iff many_opened split: prod.splits sum.splits)
next
  case (Mmap_Life ok mmap_ok name bytes sz)
  then show ?thesis using assms
    by (auto simp: new_simps one_opened split: prod.splits if_splits)
next
  case (Disk_Life ok name sz)
  then show ?thesis using assms
    by (auto simp: new_simps one_opened DiskStorage_ctor_def fstream_write_def split: prod.splits if_splits)
next
  case (Monitor_Life epoll_err inotify_ok epoll_ctl_err watch_ok error_seen)
  then show ?thesis using assms
    by (auto simp: new_simps DirMonitor_new_def Epoll_Add_def one_opened two_opened dest: two_opened(2)
        split: option.splits prod.splits if_splits)
next
  case (Logger_Life IsFileExists is_open path lvl ow)
  then show ?thesis using assms
    by (auto simp: new_simps Logger_new_def one_opened split: option.splits sum.splits prod.splits)
qed

text \<open>
  A constructor that throws has opened nothing that stays open, or the sockets of its slaves, or, the one of
  \<open>NBDDriverProxy\<close>, its sockets and perhaps the device.
\<close>

definition thrown_leaks :: "open_file list set" where
  "thrown_leaks = {[], [Proxy_End, Kernel_End], [Proxy_End, Kernel_End, Device]}"

lemma construct_throws:
  assumes "construct l t = (Inl c, t1)"
  shows "c \<noteq> Normally \<and> (\<forall>f. c = By_Exception f \<longrightarrow> (\<exists>rest \<in> thrown_leaks. leaves_open rest t t1))"
proof (cases l)
  case (Epoll_Life err n)
  then show ?thesis using assms
    by (auto simp: new_simps left_by_def thrown_leaks_def split: option.splits prod.splits)
next
  case (Nbd_Life pair_ok open_ok takes_new takes_disc takes_end sz)
  then show ?thesis using assms
    by (auto simp: new_simps Let_def left_by_def thrown_leaks_def three_opened two_opened split: prod.splits if_splits)
next
  case (Cloud_Life env n sz)
  then show ?thesis using assms
    by (auto simp: left_by_def thrown_leaks_def split: sum.splits prod.splits if_splits)
next
  case (Disk_Life ok name sz)
  then show ?thesis using assms
    by (auto simp: new_simps DiskStorage_ctor_def fstream_write_def split: prod.splits if_splits)
next
  case (Monitor_Life epoll_err inotify_ok epoll_ctl_err watch_ok error_seen)
  then show ?thesis using assms by (auto split: sum.splits prod.splits)
next
  case (Logger_Life IsFileExists is_open path lvl ow)
  then show ?thesis using assms
    by (auto simp: new_simps Logger_new_def left_by_def thrown_leaks_def split: option.splits sum.splits prod.splits if_splits)
qed (use assms in \<open>auto split: prod.splits\<close>)

section \<open>What a scope leaves open\<close>

lemma end_scope_facts:
  assumes "end_scope d ob c t = (c', t')" and "connected ob" and "\<And>f. c' \<noteq> Not_Left f"
  shows "file_at t' = file_at (fold fd_close (held_fds ob) t) \<and> (\<forall>f. c \<noteq> Not_Left f) \<and> (c \<noteq> Normally \<longrightarrow> c' = c)"
proof (cases ob)
  case (Nbd_Object takes_disc takes_end drv)
  then show ?thesis using assms
    by (cases c) (auto simp: end_scope_def destroyed_def left_by_def NBDDriverProxy_close_def NBDDriverProxy_destroy_def
        NBDDriverProxy_dtor_def NBDDriverProxy_Disconnect_def Ioctl_def Let_def split: if_splits)
next
  case (Slave_Driver_Object drv)
  then show ?thesis using assms
    by (cases c) (auto simp: end_scope_def SlaveDriverProxy_close_def SlaveDriverProxy_destroy_def SlaveDriverProxy_dtor_def
        SlaveDriverProxy_Disconnect_def Let_def split: if_splits)
next
  case (Monitor_Object error_seen dm)
  then show ?thesis using assms
    by (cases c) (auto simp: end_scope_def destroyed_def DirMonitor_dtor_def Epoll_dtor_def Let_def split: if_splits)
qed (use assms in \<open>cases c; auto simp: end_scope_def Epoll_dtor_def CloudStorage_dtor_def DiskStorage_dtor_def
    Logger_dtor_def Let_def split: if_splits\<close>)+

lemma leaves_open_closed:
  assumes "leaves_open fs t1 t2" and "\<forall>fd \<in> set fds. fd < 0 \<or> file_at t1 fd \<noteq> None"
  shows "leaves_open fs (fold fd_close fds t1) (fold fd_close fds t2)"
proof -
  obtain new where new: "length new = length fs" "distinct new" "\<forall>fd \<in> set new. file_at t1 fd = None"
    "file_at t2 = file_at t1 ++ map_of (zip new fs)"
    using assms(1) by (auto simp: leaves_open_def)
  have out: "fd \<notin> set new" if "fd \<in> set fds" for fd
  proof (cases "fd < 0")
    case True
    then have "file_at t2 fd = None" by simp
    with new(4) map_of_zip_in [OF new(1), of fd] show ?thesis by (auto simp: map_add_None)
  qed (use assms(2) new(3) that in auto)
  have "(if fd \<in> set fds then None else file_at t2 fd) =
      ((\<lambda>fd. if fd \<in> set fds then None else file_at t1 fd) ++ map_of (zip new fs)) fd" for fd
    using out [of fd] map_of_zip_None [OF new(1), of fd] by (simp add: new(4) map_add_def)
  with new(1-3) show ?thesis
    unfolding leaves_open_def fd_table.closed_all by (intro exI [of _ new]) auto
qed

text \<open>What a scope that is left may have left open: the sockets of slaves, and what the exception leaks.\<close>

definition left_open :: "nat \<Rightarrow> leaving \<Rightarrow> fd_table \<Rightarrow> fd_table \<Rightarrow> bool" where
  "left_open n c t t' \<longleftrightarrow>
     (case c of
        Normally \<Rightarrow> leaves_open (replicate n Udp_Socket) t t'
      | By_Exception f \<Rightarrow> \<exists>k \<le> n. \<exists>rest \<in> thrown_leaks. leaves_open (replicate k Udp_Socket @ rest) t t'
      | Not_Left f \<Rightarrow> True)"

lemma left_open_after:
  assumes "leaves_open (replicate m Udp_Socket) t t1" and "left_open n c t1 t2"
  shows "left_open (m + n) c t t2"
proof (cases c)
  case Normally
  with assms leaves_open_trans [OF assms(1)] show ?thesis by (simp add: left_open_def replicate_add)
next
  case (By_Exception f)
  with assms(2) obtain k rest where k: "k \<le> n" "rest \<in> thrown_leaks" "leaves_open (replicate k Udp_Socket @ rest) t1 t2"
    by (auto simp: left_open_def)
  from leaves_open_trans [OF assms(1) k(3)] have "leaves_open (replicate (m + k) Udp_Socket @ rest) t t2"
    by (simp add: replicate_add)
  with k(1,2) By_Exception show ?thesis by (auto simp: left_open_def intro!: exI [of _ "m + k"])
qed (simp add: left_open_def)

lemma left_open_closed:
  assumes "left_open n c t1 t2" and "\<forall>fd \<in> set fds. fd < 0 \<or> file_at t1 fd \<noteq> None"
  shows "left_open n c (fold fd_close fds t1) (fold fd_close fds t2)"
  using assms leaves_open_closed by (cases c) (auto simp: left_open_def, blast)

lemma left_open_by_exception: "left_open n Normally t t' \<Longrightarrow> left_open n (By_Exception f) t t'"
  by (auto simp: left_open_def thrown_leaks_def)

lemma left_open_more: "left_open n c t t' \<Longrightarrow> c \<noteq> Normally \<Longrightarrow> n \<le> m \<Longrightarrow> left_open m c t t'"
  unfolding left_open_def by (cases c) (simp_all, meson order_trans)

lemma left_open_thrown:
  assumes "c \<noteq> Normally" and "\<And>f. c = By_Exception f \<Longrightarrow> \<exists>rest \<in> thrown_leaks. leaves_open rest t t'"
  shows "left_open n c t t'"
proof (cases c)
  case (By_Exception f)
  with assms(2) obtain rest where "rest \<in> thrown_leaks" "leaves_open (replicate 0 Udp_Socket @ rest) t t'" by auto
  with By_Exception show ?thesis unfolding left_open_def by (simp only: leaving.case) blast
qed (use assms(1) in \<open>simp_all add: left_open_def\<close>)

lemma left_open_cong: "file_at t' = file_at u' \<Longrightarrow> left_open n c t t' = left_open n c t u'"
  using leaves_open_cong [OF refl, of t' u' _ t] by (simp add: left_open_def split: leaving.split)

lemma run_left_open:
  "run_scope s t = (c, t') \<Longrightarrow> left_open (scope_slaves s) c t t'"
  "run_scopes ss t = (c, t') \<Longrightarrow> left_open (scopes_slaves ss) c t t'"
proof (induction s t and ss t arbitrary: c t' and c t' rule: run_scope_run_scopes.induct)
  case (1 l d body t)
  obtain r t1 where r: "construct l t = (r, t1)" by force
  show ?case
  proof (cases r)
    case (Inl c1)
    with r "1.prems" have "c = c1" "t' = t1" by (simp_all del: construct.simps)
    moreover have "c1 \<noteq> Normally \<and> (\<forall>f. c1 = By_Exception f \<longrightarrow> (\<exists>rest \<in> thrown_leaks. leaves_open rest t t1))"
      using construct_throws r Inl by blast
    ultimately show ?thesis by (auto simp: left_open_thrown split: leaving.split)
  next
    case (Inr ob)
    with r have ob: "construct l t = (Inr ob, t1)" by simp
    note con = construct_facts [OF ob]
    obtain c2 t2 where body: "run_scopes body t1 = (c2, t2)" by force
    have tail: "end_scope d ob c2 t2 = (c, t')" using "1.prems" ob body by (simp del: construct.simps)
    show ?thesis
    proof (cases "\<exists>f. c = Not_Left f")
      case False
      with end_scope_facts [OF tail] con have e: "file_at t' = file_at (fold fd_close (held_fds ob) t2)"
        "\<forall>f. c2 \<noteq> Not_Left f" "c2 \<noteq> Normally \<longrightarrow> c = c2" by auto
      have "left_open (scopes_slaves body) c2 t1 t2" using "1.IH" [OF ob [symmetric] refl body] by simp
      then have "left_open (scopes_slaves body) c t1 t2"
        using e(2,3) False left_open_by_exception by (cases c2; cases c) auto
      from left_open_closed [OF this, of "held_fds ob"] con left_open_after
      have "left_open (scope_slaves (Scope l d body)) c t (fold fd_close (held_fds ob) t2)" by auto
      with left_open_cong [OF e(1)] show ?thesis by blast
    qed (auto simp: left_open_def)
  qed
next
  case (2 t)
  then show ?case by (simp add: left_open_def)
next
  case (3 s ss t)
  obtain c1 t1 where one: "run_scope s t = (c1, t1)" by force
  note ih = "3.IH"(1) [OF one]
  show ?case
  proof (cases "c1 = Normally")
    case True
    with one "3.prems" have rest: "run_scopes ss t1 = (c, t')" by (simp del: run_scope.simps)
    from ih True have "leaves_open (replicate (scope_slaves s) Udp_Socket) t t1" by (simp add: left_open_def)
    from left_open_after [OF this "3.IH"(2) [OF one [symmetric] True rest]] show ?thesis by simp
  next
    case False
    with one "3.prems" have "c = c1" "t' = t1" by (cases c1; simp del: run_scope.simps)+
    with left_open_more [OF ih False] show ?thesis by simp
  qed
qed

section \<open>Scopes that come to their end\<close>

text \<open>The system and the slaves answer as the constructors want it.\<close>

definition slave_greets :: "slave_env \<Rightarrow> 64 word \<Rightarrow> bool" where
  "slave_greets env port \<longleftrightarrow>
     0 \<le> bind_result env \<lparr>sin_port = htons_size port, sin_addr = 0\<rparr> \<and>
     \<not> isl (handshake (replicate BUFF_SIZE (Some 0)) 0 (datagrams env))"

fun works :: "lifetime \<Rightarrow> bool" where
  "works (Epoll_Life err n) \<longleftrightarrow> err = None"
| "works (Slave_Driver_Life ok ip port) \<longleftrightarrow> True"
| "works (Nbd_Life pair_ok open_ok takes_new takes_disc takes_end sz) \<longleftrightarrow>
     pair_ok \<and> open_ok \<and> (\<forall>c. takes_new c \<and> takes_disc c \<and> takes_end c)"
| "works (Cloud_Life env n sz) \<longleftrightarrow> 
     list_all (\<lambda>k. slave_greets (env (Suc k)) (6666 * word_of_nat (Suc k))) [0..<unat n]"
| "works (Mmap_Life ok mmap_ok name bytes sz) \<longleftrightarrow> True"
| "works (Disk_Life ok name sz) \<longleftrightarrow> True"
| "works (Monitor_Life epoll_err inotify_ok epoll_ctl_err watch_ok error_seen) \<longleftrightarrow>
     epoll_err = None \<and> inotify_ok \<and> epoll_ctl_err = None \<and> watch_ok"
| "works (Logger_Life IsFileExists is_open path lvl ow) \<longleftrightarrow>
     (\<exists>lg. Logger_ctor IsFileExists is_open path lvl ow = Some (Inr lg))"

fun scope_ok :: "scope \<Rightarrow> bool" and scopes_ok :: "scope list \<Rightarrow> bool" where
  "scope_ok (Scope l d body) \<longleftrightarrow> works l \<and> scopes_ok body"
| "scopes_ok [] \<longleftrightarrow> True"
| "scopes_ok (s # ss) \<longleftrightarrow> scope_ok s \<and> scopes_ok ss"

text \<open>The object may be disconnected and destroyed: its device is open and takes the calls.\<close>

fun ends_well :: "object \<Rightarrow> fd_table \<Rightarrow> bool" where
  "ends_well (Nbd_Object takes_disc takes_end drv) t \<longleftrightarrow>
     file_at t (m_file_fd drv) = Some Device \<and> (\<forall>c. takes_disc c \<and> takes_end c)"
| "ends_well (Monitor_Object error_seen dm) t \<longleftrightarrow> watched dm"
| "ends_well _ t \<longleftrightarrow> True"

lemma AddSlave_greeted:
  assumes "slave_greets env port" and "socket_result env \<noteq> -1"
  shows "\<exists>st'. AddSlave env st offset port = Inr st'"
proof -
  obtain a where "handshake (replicate BUFF_SIZE (Some 0)) 0 (datagrams env) = Inr a"
    using assms(1) by (cases "handshake (replicate BUFF_SIZE (Some 0)) 0 (datagrams env)") (auto simp: slave_greets_def)
  with assms show ?thesis
    by (simp add: AddSlave_def SlaveData_ctor_def slave_greets_def del: handshake.simps replicate.simps)
qed

lemma add_slaves_greeted:
  "\<forall>k < n. slave_greets (env (i + k)) (6666 * word_of_nat (i + k)) \<and> socket_result (env (i + k)) \<noteq> -1 \<Longrightarrow>
   \<exists>st'. add_slaves env i n st = Inr st'"
proof (induction n arbitrary: i st)
  case (Suc n)
  have "slave_greets (env i) (6666 * word_of_nat i)" "socket_result (env i) \<noteq> -1"
    using Suc.prems by (metis add_0_right zero_less_Suc)+
  then obtain st1 where "AddSlave (env i) st (Offset 0) (6666 * word_of_nat i) = Inr st1"
    using AddSlave_greeted by blast
  moreover have "\<exists>st'. add_slaves env (Suc i) n st1 = Inr st'"
  proof (rule Suc.IH)
    show "\<forall>k < n. slave_greets (env (Suc i + k)) (6666 * word_of_nat (Suc i + k)) \<and> socket_result (env (Suc i + k)) \<noteq> -1"
      using Suc.prems by (metis Suc_less_eq add_Suc_shift)
  qed
  ultimately show ?case by simp
qed simp

lemma construct_works:
  assumes "works l"
  shows "\<exists>ob t1. construct l t = (Inr ob, t1) \<and> ends_well ob t1"
proof (cases l)
  case (Nbd_Life pair_ok open_ok takes_new takes_disc takes_end sz)
  obtain a t1 b t2 c t3 where o: "fd_open Proxy_End t = (a, t1)" "fd_open Kernel_End t1 = (b, t2)"
    "fd_open Device t2 = (c, t3)" by (meson surj_pair)
  have "file_at t3 c = Some Device" "0 \<le> c" using fd_table.opened [OF o(3)] fd_open_nonneg [OF o(3)] by auto
  with o assms Nbd_Life show ?thesis by (simp add: new_simps dev_ioctl_def)
next
  case (Cloud_Life env n sz)
  obtain fds t1 where m: "open_many fd_open (replicate (unat n) Udp_Socket) t = (fds, t1)" by force
  note facts = fd_table.opened_all [OF m]
  have "fds ! k \<noteq> -1" if "k < unat n" for k
  proof
    assume "fds ! k = -1"
    moreover have "fds ! k \<in> set fds" using facts that by simp
    ultimately show False using facts file_at_neg [of "-1" t1] by (auto simp: fun_eq_iff)
  qed
  then obtain st' where "CloudStorage_ctor (\<lambda>i. (env i)\<lparr>socket_result := fds ! (i - 1)\<rparr>) n sz = Inr st'"
    unfolding CloudStorage_ctor_def
    using assms Cloud_Life
    by (atomize_elim, intro add_slaves_greeted) (auto simp: list_all_iff slave_greets_def simp del: of_nat_Suc handshake.simps)
  with m Cloud_Life show ?thesis by (simp add: CloudStorage_new_def)
next
  case (Logger_Life IsFileExists is_open path lvl ow)
  with assms show ?thesis by (auto simp: new_simps Logger_new_def split: prod.splits)
qed (use assms in \<open>auto simp: new_simps DirMonitor_new_def Epoll_Add_def DiskStorage_ctor_def fstream_write_def
    split: prod.splits\<close>)

lemma end_scope_works:
  assumes "connected ob" and "ends_well ob t"
  shows "\<exists>t'. end_scope d ob Normally t = (Normally, t')"
  using assms
  by (cases ob) (auto simp: end_scope_def destroyed_def NBDDriverProxy_close_def NBDDriverProxy_destroy_def
      NBDDriverProxy_dtor_def NBDDriverProxy_Disconnect_def Ioctl_def dev_ioctl_def SlaveDriverProxy_close_def
      DirMonitor_dtor_def)

lemma ends_well_later:
  assumes "leaves_open fs t1 t2" and "ends_well ob t1"
  shows "ends_well ob t2"
  using assms leaves_open_keeps [OF assms(1)] by (cases ob) auto

lemma run_scope_ends:
  "scope_ok s \<Longrightarrow> \<exists>t'. run_scope s t = (Normally, t')"
  "scopes_ok ss \<Longrightarrow> \<exists>t'. run_scopes ss t = (Normally, t')"
proof (induction s t and ss t rule: run_scope_run_scopes.induct)
  case (1 l d body t)
  obtain ob t1 where c: "construct l t = (Inr ob, t1)" "ends_well ob t1"
    using construct_works "1.prems" by (metis scope_ok.simps)
  obtain t2 where b: "run_scopes body t1 = (Normally, t2)" using "1.IH" [OF c(1) [symmetric] refl] "1.prems" by auto
  have "connected ob" "ends_well ob t2"
    using construct_facts [OF c(1)] run_left_open(2) [OF b] ends_well_later [OF _ c(2)] by (auto simp: left_open_def)
  from end_scope_works [OF this] c(1) b show ?case by (simp del: construct.simps)
next
  case (3 s ss t)
  then have ok: "scope_ok s" "scopes_ok ss" by simp_all
  obtain t1 where t1: "run_scope s t = (Normally, t1)" using "3.IH"(1) [OF ok(1)] ..
  from "3.IH"(2) [OF t1 [symmetric] refl ok(2)] t1 show ?case by (simp del: run_scope.simps)
qed simp

text \<open>An exception goes on through the scopes around it, whose objects are destroyed.\<close>

lemma scope_rethrows:
  assumes "works l" and "scopes_ok ss" and throws: "\<And>t. \<exists>t'. run_scope s t = (By_Exception f, t')"
  shows "\<exists>t'. run_scope (Scope l d (ss @ [s])) t = (By_Exception f, t')"
proof -
  obtain ob t1 where c: "construct l t = (Inr ob, t1)" "ends_well ob t1" using construct_works [OF assms(1)] by blast
  obtain t2 where b: "run_scopes (ss @ [s]) t1 = (By_Exception f, t2)"
    using assms(2)
  proof (atomize_elim, induction ss arbitrary: t1)
    case Nil
    then show ?case using throws [of t1] by auto
  next
    case (Cons s1 ss)
    then obtain t' where "run_scope s1 t1 = (Normally, t')" using run_scope_ends(1) [of s1 t1] by auto
    with Cons show ?case by (simp del: run_scope.simps)
  qed
  obtain fs where "leaves_open fs t1 t2" using run_left_open(2) [OF b] by (auto simp: left_open_def)
  from ends_well_later [OF this c(2)] construct_facts [OF c(1)]
  have "\<exists>t'. end_scope d ob (By_Exception f) t2 = (By_Exception f, t')"
    by (cases ob) (auto simp: end_scope_def destroyed_def NBDDriverProxy_destroy_def NBDDriverProxy_dtor_def
        NBDDriverProxy_Disconnect_def Ioctl_def dev_ioctl_def DirMonitor_dtor_def)
  with c(1) b show ?thesis by (simp del: construct.simps run_scopes.simps)
qed

section \<open>Properties\<close>

text \<open>
  C35: The descriptors of a process, for objects of the eight classes that own any, in any nesting, with or
  without a call of \<open>Disconnect\<close>, and whatever the system, the device and the slaves answer.  A scope that
  is left normally leaves every descriptor as it was before, but for one socket per slave of each \<open>CloudStorage\<close>, which nobody
  closes.  A scope that is left by an exception leaves besides such sockets at most what a constructor of
  \<open>NBDDriverProxy\<close> had opened before it threw: its two sockets, and perhaps the device.  Where
  everybody answers as the constructors want it, the scope is left normally.
\<close>

theorem scopes_leak_slave_sockets:
  assumes "run_scope s t = (c, t')"
  shows "(c = Normally \<longrightarrow> leaves_open (replicate (scope_slaves s) Udp_Socket) t t') \<and>
    (\<forall>f. c = By_Exception f \<longrightarrow> (\<exists>k \<le> scope_slaves s.
       \<exists>rest \<in> {[], [Proxy_End, Kernel_End], [Proxy_End, Kernel_End, Device]}.
         leaves_open (replicate k Udp_Socket @ rest) t t')) \<and>
    (scope_ok s \<longrightarrow> c = Normally)"
  using run_left_open(1) [OF assms] run_scope_ends(1) [of s t] assms
  by (auto simp: left_open_def thrown_leaks_def)

text \<open>
  A master with two slaves, an engine inside of it, a disk that is used for a while, a directory monitor and a logger;
  and the same with a device inside that refuses an \<open>ioctl\<close>.
\<close>

definition small_scope :: "(nbd_call \<Rightarrow> bool) \<Rightarrow> scope" where
  "small_scope takes = Scope (Nbd_Life True True (\<lambda>c. True) (\<lambda>c. True) (\<lambda>c. True) 2048) True
     [Scope (Disk_Life True ''disk'' 10) False [],
      Scope (Cloud_Life (\<lambda>i. greeted_by \<lparr>sin_port = 1, sin_addr = 2\<rparr> 0) 2 2048) False
        [Scope (Epoll_Life None 1) False [Scope (Monitor_Life None True None True False) False []],
         Scope (Logger_Life (\<lambda>f. False) (\<lambda>f. True) [108] LOG_ERROR True) False [],
         Scope (Nbd_Life True True takes (\<lambda>c. True) (\<lambda>c. True) 2048) False []]]"

lemma slave_greets_hello: "slave_greets (greeted_by a sock) port"
  using handshake_hello [of a "[]"]
  by (simp add: slave_greets_def greeted_by_def del: handshake.simps replicate.simps)

lemma small_scope_works: "works (Cloud_Life (\<lambda>i. greeted_by \<lparr>sin_port = 1, sin_addr = 2\<rparr> 0) 2 2048)"
  by (simp add: slave_greets_hello list_all_iff)

theorem scopes_leak_slave_sockets_witness:
  "(\<exists>t'. run_scope (small_scope (\<lambda>c. True)) [Some Terminal] = (Normally, t') \<and>
     leaves_open [Udp_Socket, Udp_Socket] [Some Terminal] t') \<and>
   (\<exists>f t'. run_scope (small_scope (\<lambda>c. False)) [Some Terminal] = (By_Exception f, t') \<and>
     (\<exists>k \<le> 2. \<exists>rest \<in> {[], [Proxy_End, Kernel_End], [Proxy_End, Kernel_End, Device]}.
        leaves_open (replicate k Udp_Socket @ rest) [Some Terminal] t'))"
proof
  let ?t = "[Some Terminal]"
  have slaves: "scope_slaves (small_scope takes) = 2" for takes by (simp add: small_scope_def)
  have "scope_ok (small_scope (\<lambda>c. True))"
    using small_scope_works by (simp add: small_scope_def Logger_ctor_def del: list_all_iff)
  moreover obtain c t' where run: "run_scope (small_scope (\<lambda>c. True)) ?t = (c, t')" by force
  ultimately show "\<exists>t'. run_scope (small_scope (\<lambda>c. True)) ?t = (Normally, t') \<and> leaves_open [Udp_Socket, Udp_Socket] ?t t'"
    using scopes_leak_slave_sockets [OF run] by (simp add: slaves numeral_2_eq_2)
  have refused: "\<exists>t'. run_scope (Scope (Nbd_Life True True (\<lambda>c. False) (\<lambda>c. True) (\<lambda>c. True) 2048) False []) t =
      (By_Exception (Runtime_Error ''IoctlError''), t')" for t
    by (simp add: new_simps dev_ioctl_def left_by_def fd_open_def)
  have "\<exists>t'. run_scope (small_scope (\<lambda>c. False)) ?t = (By_Exception (Runtime_Error ''IoctlError''), t')"
    unfolding small_scope_def
    by (rule scope_rethrows [of _ "[a]" for a, unfolded append.simps], simp, simp,
        rule scope_rethrows [of _ "[a, b]" for a b, unfolded append.simps, OF small_scope_works], simp add: Logger_ctor_def,
        rule refused)
  then obtain t' where run: "run_scope (small_scope (\<lambda>c. False)) ?t = (By_Exception (Runtime_Error ''IoctlError''), t')" ..
  with scopes_leak_slave_sockets [OF run]
  show "\<exists>f t'. run_scope (small_scope (\<lambda>c. False)) ?t = (By_Exception f, t') \<and>
     (\<exists>k \<le> 2. \<exists>rest \<in> {[], [Proxy_End, Kernel_End], [Proxy_End, Kernel_End, Device]}.
        leaves_open (replicate k Udp_Socket @ rest) ?t t')"
    unfolding slaves by blast
qed

text \<open>
  A constructor of \<open>NBDDriverProxy\<close> that throws leaves open what it has opened: nothing when there is no
  pair of sockets, the pair when the device cannot be opened, and the device as well when it refuses an
  \<open>ioctl\<close>; the destructor never runs.
\<close>

theorem failed_driver_leaks:
  assumes "NBDDriverProxy_new takes pair_ok open_ok sz t = (Inl f, t')"
  shows "(\<not> pair_ok \<longrightarrow> t' = t) \<and>
    (pair_ok \<longrightarrow> (\<exists>req nbd. req \<noteq> nbd \<and> file_at t req = None \<and> file_at t nbd = None \<and>
      (if open_ok
       then \<exists>fd. fd \<notin> {req, nbd} \<and> file_at t fd = None \<and>
         file_at t' = (file_at t)(req \<mapsto> Proxy_End, nbd \<mapsto> Kernel_End, fd \<mapsto> Device)
       else file_at t' = (file_at t)(req \<mapsto> Proxy_End, nbd \<mapsto> Kernel_End))))"
proof -
  obtain a t1 b t2 c t3 where o: "fd_open Proxy_End t = (a, t1)" "fd_open Kernel_End t1 = (b, t2)"
    "fd_open Device t2 = (c, t3)" by (meson surj_pair)
  note f = o [THEN fd_table.opened] and free = o [THEN fd_table.opened_free]
  have new: "a \<noteq> b \<and> c \<notin> {a, b} \<and> file_at t a = None \<and> file_at t b = None \<and> file_at t c = None"
    using free f by (auto split: if_splits)
  have at: "file_at t2 = (file_at t)(a \<mapsto> Proxy_End, b \<mapsto> Kernel_End)"
    "file_at t3 = (file_at t)(a \<mapsto> Proxy_End, b \<mapsto> Kernel_End, c \<mapsto> Device)" using f by simp_all
  have "t' = (if \<not> pair_ok then t else if open_ok then t3 else t2)"
    using assms o by (auto simp: NBDDriverProxy_new_def split: if_splits)
  with new at show ?thesis by (cases pair_ok; cases open_ok) (simp_all, blast+)
qed

theorem failed_driver_leaks_witness:
  "\<exists>f t'. NBDDriverProxy_new (\<lambda>c. False) True True 2048 [Some Terminal] = (Inl f, t') \<and>
    (\<exists>req nbd. req \<noteq> nbd \<and> file_at [Some Terminal] req = None \<and> file_at [Some Terminal] nbd = None \<and>
      (\<exists>fd. fd \<notin> {req, nbd} \<and> file_at [Some Terminal] fd = None \<and>
         file_at t' = (file_at [Some Terminal])(req \<mapsto> Proxy_End, nbd \<mapsto> Kernel_End, fd \<mapsto> Device)))"
proof -
  have "NBDDriverProxy_new (\<lambda>c. False) True True 2048 [Some Terminal] =
      (Inl (Runtime_Error ''IoctlError''), [Some Terminal, Some Proxy_End, Some Kernel_End, Some Device])"
    by (simp add: new_simps fd_open_def lowest_def dev_ioctl_def)
  with failed_driver_leaks [OF this] show ?thesis by simp
qed

end
