(* ===== verification/Concurrent_Disconnects.thy ===== *)
theory Concurrent_Disconnects
  imports Descriptors
begin

text \<open>
  \<open>NBDDriverProxy::Disconnect\<close> (nbd_driver_proxy.cpp) called by several threads, call by call.  In the master it is
  called by the task \<open>NBDDisconnect\<close> of a request of the kernel, by the task \<open>STDINExit\<close> of a \<open>q\<close>, and by
  the handler of \<open>main\<close> for a signal, without a lock and without a look at \<open>m_connected\<close>.
\<close>

section \<open>The calls\<close>

text \<open>
  \<open>m_nbd_thread\<close>: a second \<open>join\<close> while a first one waits is undefined, and afterwards it throws
  \<open>std::system_error\<close>.
\<close>

datatype nbd_thread = Joinable | Joining | Joined

datatype disc_pc =
    At_Ioctl | At_Close_Req | At_Close_Nbd | At_Join | In_Join | At_Close_File | At_Set_Off | Returned | Died fault

record disc_state =
  ds_driver :: NBDDriverProxy
  ds_fds :: fd_table
  ds_thread :: nbd_thread
  ds_serving :: bool    \<comment> \<open>the thread of the device has not ended\<close>
  ds_callers :: "disc_pc list"

definition caller_to :: "nat \<Rightarrow> disc_pc \<Rightarrow> disc_state \<Rightarrow> disc_state" where
  "caller_to i pc s = s\<lparr>ds_callers := (ds_callers s)[i := pc]\<rparr>"

text \<open>One statement of the caller \<open>i\<close>; \<open>None\<close> when it has to wait or is done.\<close>

definition disc_step :: "(nbd_call \<Rightarrow> bool) \<Rightarrow> nat \<Rightarrow> disc_state \<Rightarrow> disc_state option" where
  "disc_step takes i s =
     (let drv = ds_driver s; close = (\<lambda>fd. s\<lparr>ds_fds := fd_close fd (ds_fds s)\<rparr>)
      in case ds_callers s ! i of
           At_Ioctl \<Rightarrow>
             Some (case Ioctl (dev_ioctl takes (ds_fds s)) (NBD_DISCONNECT (m_file_fd drv)) of
                 Inl f \<Rightarrow> caller_to i (Died f) s
               | Inr _ \<Rightarrow> caller_to i At_Close_Req s)
         | At_Close_Req \<Rightarrow> Some (caller_to i At_Close_Nbd (close (m_req_fd drv)))
         | At_Close_Nbd \<Rightarrow> Some (caller_to i At_Join (close (m_nbd_fd drv)))
         | At_Join \<Rightarrow>
             Some (case ds_thread s of
                 Joinable \<Rightarrow> caller_to i In_Join (s\<lparr>ds_thread := Joining\<rparr>)
               | Joining \<Rightarrow> caller_to i (Died Indeterminate) s
               | Joined \<Rightarrow> caller_to i (Died (Runtime_Error ''std::system_error'')) s)
         | In_Join \<Rightarrow> if ds_serving s then None else Some (caller_to i At_Close_File (s\<lparr>ds_thread := Joined\<rparr>))
         | At_Close_File \<Rightarrow> Some (caller_to i At_Set_Off (close (m_file_fd drv)))
         | At_Set_Off \<Rightarrow> Some (caller_to i Returned (s\<lparr>ds_driver := drv\<lparr>m_connected := OFF\<rparr>\<rparr>))
         | Returned \<Rightarrow> None
         | Died f \<Rightarrow> None)"

text \<open>Beside the callers, the thread of the device ends, and other threads open files.\<close>

inductive disc_next :: "(nbd_call \<Rightarrow> bool) \<Rightarrow> disc_state \<Rightarrow> disc_state \<Rightarrow> bool" for takes where
  caller: "i < length (ds_callers s) \<Longrightarrow> disc_step takes i s = Some s' \<Longrightarrow> disc_next takes s s'"
| thread_ends: "disc_next takes s (s\<lparr>ds_serving := False\<rparr>)"
| other_opens: "fd_open f (ds_fds s) = (fd, t) \<Longrightarrow> disc_next takes s (s\<lparr>ds_fds := t\<rparr>)"

inductive disc_run :: "(nbd_call \<Rightarrow> bool) \<Rightarrow> disc_state \<Rightarrow> disc_state \<Rightarrow> bool" for takes s0 where
  start: "disc_run takes s0 s0"
| step: "disc_run takes s0 s \<Longrightarrow> disc_next takes s s' \<Longrightarrow> disc_run takes s0 s'"

definition disc_start :: "NBDDriverProxy \<Rightarrow> fd_table \<Rightarrow> nat \<Rightarrow> disc_state" where
  "disc_start drv t n =
     \<lparr>ds_driver = drv, ds_fds = t, ds_thread = Joinable, ds_serving = True, ds_callers = replicate n At_Ioctl\<rparr>"

section \<open>One caller\<close>

text \<open>A caller that nobody disturbs does what \<open>NBDDriverProxy_close\<close> says, here before \<open>n\<close> others start.\<close>

lemma one_caller_closes:
  assumes "NBDDriverProxy_close takes drv t = Inr (drv', t')"
  shows "disc_run takes (disc_start drv t (Suc n))
    \<lparr>ds_driver = drv', ds_fds = t', ds_thread = Joined, ds_serving = False, ds_callers = Returned # replicate n At_Ioctl\<rparr>"
proof -
  define st where "st = (\<lambda>u th sv pc. \<lparr>ds_driver = drv, ds_fds = u, ds_thread = th, ds_serving = sv, ds_callers = pc # replicate n At_Ioctl\<rparr>)"
  let ?a = "fd_close (m_req_fd drv) t" let ?b = "fd_close (m_nbd_fd drv) ?a"
  have facts: "dev_ioctl takes t (NBD_DISCONNECT (m_file_fd drv))" "drv' = drv\<lparr>m_connected := OFF\<rparr>"
    "t' = fd_close (m_file_fd drv) ?b"
    using assms by (auto simp: NBDDriverProxy_close_def NBDDriverProxy_Disconnect_def Ioctl_def split: if_splits)
  have go: "disc_run takes s0 s \<Longrightarrow> disc_step takes 0 s = Some s' \<Longrightarrow> ds_callers s \<noteq> [] \<Longrightarrow> disc_run takes s0 s'"
    for s0 s s' by (rule disc_run.step [OF _ disc_next.caller [of 0]]) auto
  note step = st_def disc_step_def caller_to_def Ioctl_def facts(1)
  have "disc_run takes (st t Joinable True At_Ioctl) (st t Joinable True At_Close_Req)"
    by (rule go [OF disc_run.start]) (simp_all add: step)
  then have "disc_run takes (st t Joinable True At_Ioctl) (st ?a Joinable True At_Close_Nbd)"
    by (rule go) (simp_all add: step)
  then have "disc_run takes (st t Joinable True At_Ioctl) (st ?b Joinable True At_Join)"
    by (rule go) (simp_all add: step)
  then have "disc_run takes (st t Joinable True At_Ioctl) (st ?b Joining True In_Join)"
    by (rule go) (simp_all add: step)
  then have "disc_run takes (st t Joinable True At_Ioctl) ((st ?b Joining True In_Join)\<lparr>ds_serving := False\<rparr>)"
    by (rule disc_run.step [OF _ disc_next.thread_ends])
  then have "disc_run takes (st t Joinable True At_Ioctl) (st ?b Joined False At_Close_File)"
    by (rule go) (simp_all add: step)
  then have "disc_run takes (st t Joinable True At_Ioctl) (st t' Joined False At_Set_Off)"
    by (rule go) (simp_all add: step facts(3))
  then have "disc_run takes (st t Joinable True At_Ioctl) ((st t' Joined False Returned)\<lparr>ds_driver := drv'\<rparr>)"
    by (rule go) (simp_all add: step facts(2))
  then show ?thesis by (simp add: st_def disc_start_def)
qed

section \<open>Several callers\<close>

text \<open>The callers that have won the \<open>join\<close>, and those that have failed.\<close>

fun past_join :: "disc_pc \<Rightarrow> bool" where
  "past_join In_Join = True" | "past_join At_Close_File = True" | "past_join At_Set_Off = True"
| "past_join Returned = True" | "past_join _ = False"

fun died :: "disc_pc \<Rightarrow> bool" where
  "died (Died f) = True" | "died _ = False"

lemma past_join_not_died: "past_join pc \<Longrightarrow> \<not> died pc"
  by (cases pc) auto

definition joiners :: "disc_state \<Rightarrow> nat" where
  "joiners s = length (filter past_join (ds_callers s))"

text \<open>
  One caller wins the \<open>join\<close>; before it does, the device is open and no caller has failed, and when it
  has returned the driver is disconnected.
\<close>

definition disc_inv :: "int \<Rightarrow> disc_state \<Rightarrow> bool" where
  "disc_inv fd s \<longleftrightarrow>
     joiners s = (if ds_thread s = Joinable then 0 else 1) \<and>
     m_file_fd (ds_driver s) = fd \<and> fd \<notin> {m_req_fd (ds_driver s), m_nbd_fd (ds_driver s)} \<and>
     (ds_thread s = Joinable \<longrightarrow> file_at (ds_fds s) fd = Some Device \<and> \<not> list_ex died (ds_callers s)) \<and>
     (In_Join \<in> set (ds_callers s) \<longrightarrow> ds_thread s = Joining) \<and>
     (Returned \<in> set (ds_callers s) \<longrightarrow> m_connected (ds_driver s) = OFF)"

lemma callers_update:
  "i < length xs \<Longrightarrow>
   length (filter P (xs[i := y])) + (if P (xs ! i) then 1 else 0) = length (filter P xs) + (if P y then 1 else 0)"
proof (induction xs arbitrary: i)
  case (Cons x xs)
  then show ?case by (cases i) auto
qed simp

lemma length_filter_mono: "(\<And>x. P x \<Longrightarrow> Q x) \<Longrightarrow> length (filter P xs) \<le> length (filter Q xs)"
  by (induction xs) (auto intro: le_SucI)

lemma no_joiners: "joiners s = 0 \<longleftrightarrow> (\<forall>pc \<in> set (ds_callers s). \<not> past_join pc)"
  by (auto simp: joiners_def filter_empty_conv)

lemma list_ex_update: "i < length xs \<Longrightarrow> list_ex P (xs[i := y]) \<Longrightarrow> P y \<or> list_ex P xs"
  by (auto simp: list_ex_iff dest: set_update_subset_insert [THEN subsetD])

lemma only_joiner:
  assumes "joiners s = 1" and "past_join (ds_callers s ! i)" and "i < length (ds_callers s)"
    and "past_join (ds_callers s ! j)" and "j < length (ds_callers s)"
  shows "j = i"
proof (rule ccontr)
  assume "j \<noteq> i"
  have "length (filter past_join ((ds_callers s)[i := At_Ioctl])) = 0"
    using callers_update [OF assms(3), of past_join At_Ioctl] assms(1,2) by (simp add: joiners_def)
  moreover have "(ds_callers s)[i := At_Ioctl] ! j \<in> set ((ds_callers s)[i := At_Ioctl])"
    using assms(5) by (intro nth_mem) simp
  ultimately show False using \<open>j \<noteq> i\<close> assms(4) by (auto simp: filter_empty_conv)
qed

text \<open>A caller that has won the \<open>join\<close> moves on: the others stay where they are.\<close>

lemma winner_moves:
  assumes inv: "disc_inv fd s" and i: "i < length (ds_callers s)" "past_join (ds_callers s ! i)" "past_join pc"
    and callers: "ds_callers s' = (ds_callers s)[i := pc]" and th: "ds_thread s' \<noteq> Joinable"
    and drv: "m_file_fd (ds_driver s') = m_file_fd (ds_driver s)" "m_req_fd (ds_driver s') = m_req_fd (ds_driver s)"
      "m_nbd_fd (ds_driver s') = m_nbd_fd (ds_driver s)"
    and pc: "pc \<noteq> In_Join" "pc = Returned \<Longrightarrow> m_connected (ds_driver s') = OFF"
      "m_connected (ds_driver s) = OFF \<Longrightarrow> m_connected (ds_driver s') = OFF"
  shows "disc_inv fd s'"
proof -
  have one: "joiners s = 1" using inv i no_joiners [of s] by (auto simp: disc_inv_def split: if_splits)
  have "joiners s' = 1"
    using callers_update [OF i(1), of past_join pc] i one callers by (simp add: joiners_def)
  moreover have "In_Join \<notin> set (ds_callers s')"
  proof
    assume "In_Join \<in> set (ds_callers s')"
    then obtain j where j: "j < length (ds_callers s)" "(ds_callers s)[i := pc] ! j = In_Join"
      using callers by (auto simp: in_set_conv_nth)
    then have "j \<noteq> i" using pc(1) by auto
    moreover from this have "ds_callers s ! j = In_Join" using j(2) by simp
    ultimately
    show False using only_joiner [OF one i(2,1), of j] j(1) by simp
  qed
  moreover have "Returned \<in> set (ds_callers s') \<Longrightarrow> m_connected (ds_driver s') = OFF"
    using inv callers pc set_update_subset_insert [of "ds_callers s" i pc] by (auto simp: disc_inv_def)
  ultimately show ?thesis using inv th drv by (simp add: disc_inv_def)
qed

text \<open>A caller that has not won it: it does not become a winner unless the \<open>join\<close> is free.\<close>

lemma other_moves:
  assumes inv: "disc_inv fd s" and i: "i < length (ds_callers s)" "\<not> past_join (ds_callers s ! i)" "\<not> past_join pc"
    and s': "ds_callers s' = (ds_callers s)[i := pc]" "ds_driver s' = ds_driver s" "ds_thread s' = ds_thread s"
    and open_dev: "file_at (ds_fds s) fd = Some Device \<Longrightarrow> file_at (ds_fds s') fd = Some Device"
    and dead: "died pc \<Longrightarrow> ds_thread s \<noteq> Joinable"
  shows "disc_inv fd s'"
proof -
  have "joiners s' = joiners s"
    using callers_update [OF i(1), of past_join pc] i s'(1) by (simp add: joiners_def)
  moreover have "x \<in> set (ds_callers s') \<Longrightarrow> past_join x \<Longrightarrow> x \<in> set (ds_callers s)" for x
    using set_update_subset_insert [of "ds_callers s" i pc] s'(1) i(3) by auto
  moreover have "list_ex died (ds_callers s') \<Longrightarrow> died pc \<or> list_ex died (ds_callers s)"
    using list_ex_update [OF i(1)] s'(1) by metis
  ultimately show ?thesis using inv s' open_dev dead by (auto simp: disc_inv_def)
qed

text \<open>The \<open>join\<close> is won while the thread is joinable, and fatal afterwards.\<close>

lemma at_join:
  assumes inv: "disc_inv fd s" and i: "i < length (ds_callers s)" and pc: "ds_callers s ! i = At_Join"
    and step: "disc_step takes i s = Some s'"
  shows "disc_inv fd s'"
proof (cases "ds_thread s")
  case Joinable
  with step pc have s': "s' = caller_to i In_Join (s\<lparr>ds_thread := Joining\<rparr>)" by (simp add: disc_step_def)
  have "joiners s' = 1" using callers_update [OF i, of past_join In_Join] pc inv Joinable s'
    by (simp add: joiners_def caller_to_def disc_inv_def)
  moreover have "Returned \<in> set (ds_callers s') \<Longrightarrow> Returned \<in> set (ds_callers s)"
    using set_update_subset_insert [of "ds_callers s" i In_Join] s' by (auto simp: caller_to_def)
  ultimately show ?thesis using inv s' by (auto simp: disc_inv_def caller_to_def)
qed (use step pc inv in \<open>auto simp: disc_step_def caller_to_def intro!: other_moves [OF inv i]\<close>)

lemma disc_inv_caller:
  assumes inv: "disc_inv fd s" and takes: "\<forall>c. takes c" and i: "i < length (ds_callers s)"
    and step: "disc_step takes i s = Some s'"
  shows "disc_inv fd s'"
proof (cases "ds_callers s ! i")
  case At_Ioctl
  with step inv takes show ?thesis
    by (intro other_moves [OF inv i, where pc = "if dev_ioctl takes (ds_fds s) (NBD_DISCONNECT (m_file_fd (ds_driver s)))
          then At_Close_Req else Died (Runtime_Error ''IoctlError'')"])
       (auto simp: disc_step_def Ioctl_def caller_to_def dev_ioctl_def disc_inv_def)
next
  case At_Close_Req
  with step inv show ?thesis
    by (intro other_moves [OF inv i, where pc = At_Close_Nbd])
       (auto simp: disc_step_def caller_to_def fd_table.closed disc_inv_def)
next
  case At_Close_Nbd
  with step inv show ?thesis
    by (intro other_moves [OF inv i, where pc = At_Join])
       (auto simp: disc_step_def caller_to_def fd_table.closed disc_inv_def)
next
  case At_Join
  from at_join [OF inv i this step] show ?thesis .
next
  case In_Join
  with step inv show ?thesis
    by (intro winner_moves [OF inv i, where pc = At_Close_File])
       (auto simp: disc_step_def caller_to_def split: if_splits)
next
  case At_Close_File
  then have "past_join (ds_callers s ! i)" by simp
  then have "ds_thread s \<noteq> Joinable" using inv i no_joiners [of s] by (auto simp: disc_inv_def split: if_splits)
  with At_Close_File step inv show ?thesis
    by (intro winner_moves [OF inv i, where pc = At_Set_Off]) (auto simp: disc_step_def caller_to_def)
next
  case At_Set_Off
  then have "past_join (ds_callers s ! i)" by simp
  then have "ds_thread s \<noteq> Joinable" using inv i no_joiners [of s] by (auto simp: disc_inv_def split: if_splits)
  with At_Set_Off step inv show ?thesis
    by (intro winner_moves [OF inv i, where pc = Returned]) (auto simp: disc_step_def caller_to_def)
qed (use step in \<open>auto simp: disc_step_def\<close>)

lemma disc_inv_run:
  assumes "disc_run takes (disc_start drv t n) s" and "\<forall>c. takes c"
    and "file_at t (m_file_fd drv) = Some Device" and "m_file_fd drv \<notin> {m_req_fd drv, m_nbd_fd drv}"
  shows "disc_inv (m_file_fd drv) s \<and> length (ds_callers s) = n"
  using assms(1)
proof induction
  case start
  then show ?case using assms(3,4) by (auto simp: disc_inv_def disc_start_def joiners_def list_ex_iff)
next
  case (step s s')
  from step(2) show ?case
  proof cases
    case (caller i)
    from caller(2) have "length (ds_callers s') = length (ds_callers s)"
      by (auto simp: disc_step_def caller_to_def Let_def split: disc_pc.splits sum.splits nbd_thread.splits if_splits)
    moreover have "disc_inv (m_file_fd drv) s'"
      using disc_inv_caller [OF _ assms(2) caller] step.IH by blast
    ultimately show ?thesis using step.IH by simp
  next
    case (other_opens f fd u)
    then show ?thesis using step.IH fd_table.opened [OF other_opens(2)] fd_table.opened_free [OF other_opens(2)]
      by (auto simp: disc_inv_def joiners_def)
  qed (use step.IH in \<open>auto simp: disc_inv_def joiners_def\<close>)
qed

section \<open>Properties\<close>

text \<open>
  C32: Any number of threads call \<open>Disconnect\<close>, in any interleaving of their calls to the system with those of the
  rest of the process: at most one returns.  When all have come to their end, exactly one has returned and
  the driver is disconnected; each other one has died, of a refused \<open>ioctl\<close> or of the \<open>join\<close>, which ends the
  process.
\<close>

theorem one_disconnect_returns:
  assumes "disc_run takes (disc_start drv t n) s" and "\<forall>c. takes c" and "0 < n"
    and "file_at t (m_file_fd drv) = Some Device" and "m_file_fd drv \<notin> {m_req_fd drv, m_nbd_fd drv}"
  shows "length (filter (\<lambda>pc. pc = Returned) (ds_callers s)) \<le> 1 \<and>
    ((\<forall>pc \<in> set (ds_callers s). pc = Returned \<or> died pc) \<longrightarrow>
      length (filter (\<lambda>pc. pc = Returned) (ds_callers s)) = 1 \<and> length (filter died (ds_callers s)) = n - 1 \<and>
      m_connected (ds_driver s) = OFF)"
proof -
  let ?ret = "filter (\<lambda>pc. pc = Returned) (ds_callers s)"
  have inv: "disc_inv (m_file_fd drv) s" and n: "length (ds_callers s) = n"
    using disc_inv_run assms by blast+
  have "length ?ret \<le> joiners s" unfolding joiners_def by (rule length_filter_mono) auto
  moreover have "joiners s \<le> 1" using inv by (simp add: disc_inv_def)
  moreover have "length ?ret = 1 \<and> length (filter died (ds_callers s)) = n - 1 \<and> m_connected (ds_driver s) = OFF"
    if over: "\<forall>pc \<in> set (ds_callers s). pc = Returned \<or> died pc"
  proof -
    have "filter past_join (ds_callers s) = ?ret"
      using over past_join_not_died by (intro filter_cong) auto
    then have winners: "joiners s = length ?ret" by (simp add: joiners_def)
    have "ds_thread s \<noteq> Joinable"
    proof
      assume free: "ds_thread s = Joinable"
      then have "list_all (\<lambda>pc. \<not> past_join pc \<and> \<not> died pc) (ds_callers s)"
        using inv no_joiners [of s] by (auto simp: disc_inv_def list_ex_iff list_all_iff)
      with over have "ds_callers s = []" by (cases "ds_callers s") auto
      with n assms(3) show False by simp
    qed
    with inv winners have one: "length ?ret = 1" by (simp add: disc_inv_def)
    have "filter died (ds_callers s) = filter (\<lambda>pc. pc \<noteq> Returned) (ds_callers s)"
      using over by (intro filter_cong) auto
    with one n have "length (filter died (ds_callers s)) = n - 1"
      using sum_length_filter_compl [of "\<lambda>pc. pc = Returned" "ds_callers s"] by simp
    moreover have "Returned \<in> set (ds_callers s)" using one by (auto simp: length_Suc_conv filter_eq_Cons_iff)
    ultimately show ?thesis using inv one by (simp add: disc_inv_def)
  qed
  ultimately show ?thesis by auto
qed

text \<open>A \<open>q\<close> and a request to disconnect of the kernel, both being executed: the second caller comes late.\<close>

theorem one_disconnect_returns_witness:
  "\<exists>s. disc_run (\<lambda>c. True) (disc_start \<lparr>m_req_fd = 0, m_nbd_fd = 1, m_file_fd = 2, m_connected = ON\<rparr>
      [Some Proxy_End, Some Kernel_End, Some Device] 2) s \<and>
    length (filter (\<lambda>pc. pc = Returned) (ds_callers s)) = 1 \<and> length (filter died (ds_callers s)) = 2 - 1 \<and>
    m_connected (ds_driver s) = OFF"
proof -
  let ?drv = "\<lparr>m_req_fd = 0, m_nbd_fd = 1, m_file_fd = 2, m_connected = ON\<rparr>"
  let ?t = "[Some Proxy_End, Some Kernel_End, Some Device]"
  let ?final = "\<lambda>cs. \<lparr>ds_driver = ?drv\<lparr>m_connected := OFF\<rparr>, ds_fds = [None, None, None], ds_thread = Joined,
    ds_serving = False, ds_callers = cs\<rparr>"
  have "NBDDriverProxy_close (\<lambda>c. True) ?drv ?t = Inr (?drv\<lparr>m_connected := OFF\<rparr>, [None, None, None])"
    by (simp add: NBDDriverProxy_close_def NBDDriverProxy_Disconnect_def Ioctl_def dev_ioctl_def file_at_def fd_close_def)
  from one_caller_closes [OF this, of 1]
  have first: "disc_run (\<lambda>c. True) (disc_start ?drv ?t 2) (?final [Returned, At_Ioctl])"
    by (simp add: numeral_2_eq_2)
  have "disc_step (\<lambda>c. True) 1 (?final [Returned, At_Ioctl]) = Some (?final [Returned, Died (Runtime_Error ''IoctlError'')])"
    by (simp add: disc_step_def Ioctl_def dev_ioctl_def file_at_def caller_to_def)
  then have run: "disc_run (\<lambda>c. True) (disc_start ?drv ?t 2) (?final [Returned, Died (Runtime_Error ''IoctlError'')])"
    by (intro disc_run.step [OF first] disc_next.caller [of 1]) simp_all
  have "file_at ?t 2 = Some Device" by (simp add: file_at_def)
  with one_disconnect_returns [OF run] run show ?thesis by (intro exI [of _ "?final [Returned, Died (Runtime_Error ''IoctlError'')]"]) simp
qed

end
