(* ===== verification/Shutdown.thy ===== *)
theory Shutdown
  imports Descriptors
begin

text \<open>
  The end of the master (\<open>main\<close> and \<open>RunGreenCloude\<close> of release/greencloud.0.5.cpp, the destructor of \<open>RequestEngine\<close>
  in request_engine.hpp): who still shares the driver, when it is destroyed, and what the workers do to
  it until they are joined.  The tasks are single steps here; \<open>Concurrent_Disconnects\<close> has two of them at
  the same time.
\<close>

section \<open>The driver and its owners\<close>

text \<open>
  The \<open>shared_ptr\<close>s of the driver: the variable of \<open>main\<close>, the parameter of \<open>RunGreenCloude\<close>, those of the
  gateways, and those of the tasks, in the queue or in the hands of the workers.
\<close>

datatype owner = Main_Driver | Run_Driver | Gateways | Pool_Tasks

record ending =
  en_master :: master
  en_fds :: fd_table
  en_owners :: "owner set"

text \<open>
  An operation on the master while the table of descriptors is as it is: \<open>ioctl\<close> depends on it, and every
  \<open>write\<close> to a closed socket fails with \<open>EBADF\<close>.
\<close>

definition io_answers :: "fd_table \<Rightarrow> master \<Rightarrow> io list" where
  "io_answers t st =
     (if file_at t (m_req_fd (ms_driver st)) = None then map (\<lambda>_. IO_Fail) (ms_ios st) else ms_ios st)"

definition on_master :: "master_env \<Rightarrow> (master_env \<Rightarrow> master \<Rightarrow> master res) \<Rightarrow> ending \<Rightarrow> ending res" where
  "on_master env f s =
     (let st = (en_master s)\<lparr>ms_ios := io_answers (en_fds s) (en_master s)\<rparr>
      in bindE (f (env\<lparr>env_ioctl := dev_ioctl (env_ioctl env) (en_fds s)\<rparr>) st) (\<lambda>st'.
         Inr (s\<lparr>en_master := st',
                en_fds := fold fds_of_call (drop (length (ms_calls st)) (ms_calls st')) (en_fds s)\<rparr>)))"

text \<open>A worker: what \<open>Execute\<close> throws is no \<open>ThreadMsg\<close>, so that no handler of \<open>ThreadFunc\<close> catches it.\<close>

definition run_task :: "master_env \<Rightarrow> master_task \<Rightarrow> ending \<Rightarrow> ending res" where
  "run_task env task = on_master env (\<lambda>e st. master_Execute e st task)"

fun work :: "master_env \<Rightarrow> master_task list \<Rightarrow> ending \<Rightarrow> ending res" where
  "work env [] s = Inr s"
| "work env (t # ts) s = bindE (run_task env t s) (work env ts)"

definition destroy_driver :: "master_env \<Rightarrow> ending \<Rightarrow> ending res" where
  "destroy_driver env = on_master env (\<lambda>e st.
     bindE (NBDDriverProxy_dtor (env_ioctl e) (ms_driver st)) (\<lambda>(drv, calls).
     Inr (st\<lparr>ms_driver := drv, ms_calls := ms_calls st @ calls\<rparr>)))"

definition release :: "master_env \<Rightarrow> owner \<Rightarrow> ending \<Rightarrow> ending res" where
  "release env ow s =
     (if en_owners s = {ow} then destroy_driver env (s\<lparr>en_owners := {}\<rparr>)
      else Inr (s\<lparr>en_owners := en_owners s - {ow}\<rparr>))"

section \<open>The end of main\<close>

text \<open>
  The members of a \<open>RequestEngine\<close> are destroyed from the last to the first: the gateways, then the pool,
  whose destructor joins the workers and drops the tasks left in the queue.  The monitor and the loader of the plugins,
  which go between them, do not touch the driver.  \<open>ts\<close> are the tasks that the
  workers execute before they are joined.
\<close>

definition engine_destroyed :: "master_env \<Rightarrow> master_task list \<Rightarrow> ending \<Rightarrow> ending res" where
  "engine_destroyed env ts s =
     bindE (release env Gateways s) (\<lambda>s. bindE (work env ts s) (release env Pool_Tasks))"

text \<open>
  \<open>r\<close> is how \<open>Run\<close> ends.  After a normal end \<open>ReleaseResources\<close> destroys the engine inside \<open>RunGreenCloude\<close>;
  after an exception it lives on in the \<open>Handleton\<close> until the static objects are destroyed, behind the end of
  \<open>main\<close> or in \<open>exit\<close>, which does not destroy the variables of \<open>main\<close>.  What no handler catches ends the
  process at once.  \<open>ts0\<close> are the tasks executed before the loop has ended or \<open>main\<close> handles the exception.
\<close>

definition main_ends ::
  "master_env \<Rightarrow> unit res \<Rightarrow> master_task list \<Rightarrow> master_task list \<Rightarrow> ending \<Rightarrow> (int \<times> ending) res" where
  "main_ends env r ts0 ts1 s =
     bindE (work env ts0 s) (\<lambda>s.
     case r of
       Inr _ \<Rightarrow>
         bindE (engine_destroyed env ts1 s) (\<lambda>s. bindE (release env Run_Driver s) (\<lambda>s.
         bindE (release env Main_Driver s) (\<lambda>s. Inr (SUCCESS, s))))
     | Inl f \<Rightarrow>
         if is_runtime_error f
         then bindE (release env Run_Driver s) (\<lambda>s.
           case f of
             EpollError e \<Rightarrow>
               bindE (if EINTR = e then on_master env disconnect_driver s else Inr s) (\<lambda>s.
               bindE (release env Main_Driver s) (\<lambda>s.
               bindE (engine_destroyed env ts1 s) (\<lambda>s. Inr (SUCCESS, s))))
           | _ \<Rightarrow> bindE (engine_destroyed env ts1 s) (\<lambda>s. Inr (EXCEPTION, s)))
         else Inl f)"

lemma main_ends_status:
  assumes "main_ends env r ts0 ts1 s = Inr (status, s')"
  shows "main_handlers (Inr ()) r \<in> {Inr status, Inl (Exit status)}"
proof (cases r)
  case (Inl f)
  with assms show ?thesis
    by (cases f) (auto simp: main_ends_def main_handlers_def bindE_Inr_iff)
qed (use assms in \<open>auto simp: main_ends_def main_handlers_def bindE_Inr_iff\<close>)

section \<open>What one step does to the device\<close>

definition disconnects :: "ending \<Rightarrow> nat" where
  "disconnects s = length (filter (\<lambda>c. \<exists>fd. c = NBD_DISCONNECT fd) (ms_calls (en_master s)))"

text \<open>
  The driver is connected and was never disconnected, or it was disconnected once and its descriptors are closed.
\<close>

definition driver_ok :: "ending \<Rightarrow> bool" where
  "driver_ok s \<longleftrightarrow>
     (let drv = ms_driver (en_master s) in
      if m_connected drv = ON then file_at (en_fds s) (m_file_fd drv) = Some Device \<and> disconnects s = 0
      else file_at (en_fds s) (m_file_fd drv) = None \<and> file_at (en_fds s) (m_req_fd drv) = None \<and> disconnects s = 1)"

lemma driver_ok_cong:
  assumes "ms_driver (en_master s') = ms_driver (en_master s)" and "ms_calls (en_master s') = ms_calls (en_master s)"
    and "en_fds s' = en_fds s"
  shows "driver_ok s' \<longleftrightarrow> driver_ok s"
  using assms by (simp add: driver_ok_def disconnects_def)

abbreviation state_of :: "ending \<Rightarrow> OffOn" where
  "state_of s \<equiv> m_connected (ms_driver (en_master s))"

fun disconnects_task :: "master_task \<Rightarrow> bool" where
  "disconnects_task (NBDDisconnect info) = True" | "disconnects_task (STDINExit info) = True"
| "disconnects_task _ = False"

fun replies_task :: "master_task \<Rightarrow> bool" where
  "replies_task (NBDFlush info) = True" | "replies_task (NBDTrim info) = True"
| "replies_task (NBDReplay info) = True" | "replies_task (NBDBadRequest info) = True"
| "replies_task _ = False"

text \<open>Tasks that end normally one after another, for a driver that is connected or not.\<close>

fun orderly :: "OffOn \<Rightarrow> master_task list \<Rightarrow> bool" where
  "orderly c [] \<longleftrightarrow> True"
| "orderly c (t # ts) \<longleftrightarrow>
     (if disconnects_task t then c = ON \<and> orderly OFF ts
      else (replies_task t \<longrightarrow> c = ON) \<and> orderly c ts)"

lemma execute_driver:
  assumes "master_Execute e st task = Inr st'"
  shows "if disconnects_task task
    then \<exists>drv calls. NBDDriverProxy_Disconnect (env_ioctl e) (ms_driver st) = Inr (drv, calls) \<and>
      ms_driver st' = drv \<and> ms_calls st' = ms_calls st @ calls
    else ms_driver st' = ms_driver st \<and> ms_calls st' = ms_calls st"
  using assms
  by (cases task)
     (auto simp: NBDRead_Execute_def NBDWrite_Execute_def reply_to_kernel_def NBDDisconnect_Execute_def
       disconnect_driver_def with_info_def bindE_Inr_iff split: if_splits)

text \<open>A disconnection, by a task, a handler or the destructor.\<close>

lemma disconnected_step:
  assumes "driver_ok s" and "NBDDriverProxy_Disconnect (dev_ioctl takes (en_fds s)) (ms_driver (en_master s)) = Inr (drv, calls)"
    and "ms_driver st' = drv" and "ms_calls st' = ms_calls (en_master s) @ calls"
  shows "state_of s = ON"
    and "driver_ok (s\<lparr>en_master := st', en_fds := fold fds_of_call calls (en_fds s)\<rparr>)" and "m_connected drv = OFF"
proof -
  let ?old = "ms_driver (en_master s)"
  have drv: "drv = ?old\<lparr>m_connected := OFF\<rparr>" and calls: "calls =
      [NBD_DISCONNECT (m_file_fd ?old), Close (m_req_fd ?old), Close (m_nbd_fd ?old), Join, Close (m_file_fd ?old)]"
    and dev: "file_at (en_fds s) (m_file_fd ?old) = Some Device"
    using assms(2) by (auto simp: NBDDriverProxy_Disconnect_def Ioctl_def dev_ioctl_def split: if_splits)
  show on: "state_of s = ON" using assms(1) dev by (auto simp: driver_ok_def Let_def split: if_splits)
  show "m_connected drv = OFF" by (simp add: drv)
  show "driver_ok (s\<lparr>en_master := st', en_fds := fold fds_of_call calls (en_fds s)\<rparr>)"
    using assms(1,3,4) on
    by (simp add: driver_ok_def Let_def disconnects_def drv calls fd_table.closed)
qed

lemma reply_needs_socket:
  assumes "master_Execute e (st\<lparr>ms_ios := map (\<lambda>_. IO_Fail) ios\<rparr>) task = Inr st'"
    and "\<And>r. reply_cells (env_abi e) r \<noteq> []"
  shows "\<not> replies_task task"
proof
  assume "replies_task task"
  then obtain info where "reply_to_kernel e (st\<lparr>ms_ios := map (\<lambda>_. IO_Fail) ios\<rparr>) info = Inr st'"
    using assms(1) by (cases task) auto
  then show False using assms(2)
    by (cases ios) (auto simp: reply_to_kernel_def NBDDriverProxy_SendReply_def bindE_Inr_iff)
qed

lemma run_task_step:
  assumes "run_task env task s = Inr s'" and "driver_ok s" and abi: "\<And>r. reply_cells (env_abi env) r \<noteq> []"
  shows "driver_ok s' \<and> en_owners s' = en_owners s \<and>
    (if disconnects_task task then state_of s = ON \<and> state_of s' = OFF
     else state_of s' = state_of s \<and> (replies_task task \<longrightarrow> state_of s = ON))"
proof -
  let ?e = "env\<lparr>env_ioctl := dev_ioctl (env_ioctl env) (en_fds s)\<rparr>"
  let ?st = "(en_master s)\<lparr>ms_ios := io_answers (en_fds s) (en_master s)\<rparr>"
  obtain st' where run: "master_Execute ?e ?st task = Inr st'" and s': "s' = s\<lparr>en_master := st',
      en_fds := fold fds_of_call (drop (length (ms_calls (en_master s))) (ms_calls st')) (en_fds s)\<rparr>"
    using assms(1) by (auto simp: run_task_def on_master_def Let_def bindE_Inr_iff)
  note step = execute_driver [OF run]
  show ?thesis
  proof (cases "disconnects_task task")
    case True
    with step obtain drv calls where d: "NBDDriverProxy_Disconnect (dev_ioctl (env_ioctl env) (en_fds s)) (ms_driver (en_master s)) =
        Inr (drv, calls)" "ms_driver st' = drv" "ms_calls st' = ms_calls (en_master s) @ calls" by auto
    from disconnected_step [OF assms(2) d] True show ?thesis by (simp add: s' d)
  next
    case False
    with step have same: "ms_driver st' = ms_driver (en_master s)" "ms_calls st' = ms_calls (en_master s)" by simp_all
    have "state_of s = ON" if "replies_task task"
    proof (rule ccontr)
      assume "state_of s \<noteq> ON"
      then have "file_at (en_fds s) (m_req_fd (ms_driver (en_master s))) = None"
        using assms(2) by (simp add: driver_ok_def Let_def)
      then have "?st = (en_master s)\<lparr>ms_ios := map (\<lambda>_. IO_Fail) (ms_ios (en_master s))\<rparr>" by (simp add: io_answers_def)
      with reply_needs_socket [where e = ?e and st = "en_master s"] run abi that show False by auto
    qed
    moreover have "driver_ok s'" using assms(2) same by (subst driver_ok_cong [of _ s]) (simp_all add: s')
    ultimately show ?thesis using False same by (simp add: s')
  qed
qed

lemma work_steps:
  assumes "\<And>r. reply_cells (env_abi env) r \<noteq> []"
  shows "work env ts s = Inr s' \<Longrightarrow> driver_ok s \<Longrightarrow>
    driver_ok s' \<and> en_owners s' = en_owners s \<and> orderly (state_of s) ts \<and>
    state_of s' = (if list_ex disconnects_task ts then OFF else state_of s)"
proof (induction ts arbitrary: s)
  case (Cons t ts)
  then obtain s1 where s1: "run_task env t s = Inr s1" "work env ts s1 = Inr s'" by (auto simp: bindE_Inr_iff)
  note one = run_task_step [OF s1(1) Cons.prems(2) assms]
  have "driver_ok s1" using one by blast
  from one Cons.IH [OF s1(2) this] show ?case by (auto split: if_splits)
qed simp

lemma orderly_append:
  "orderly c (ts @ us) \<longleftrightarrow> orderly c ts \<and> orderly (if list_ex disconnects_task ts then OFF else c) us"
  by (induction c ts rule: orderly.induct) auto

lemma orderly_once: "orderly OFF ts \<Longrightarrow> \<not> list_ex disconnects_task ts"
  by (induction ts) (auto split: if_splits)

lemma on_master_disconnect:
  assumes "on_master env disconnect_driver s = Inr s'" and "driver_ok s"
  shows "driver_ok s' \<and> en_owners s' = en_owners s \<and> state_of s = ON \<and> state_of s' = OFF"
proof -
  let ?st = "(en_master s)\<lparr>ms_ios := io_answers (en_fds s) (en_master s)\<rparr>"
  obtain drv calls where d: "NBDDriverProxy_Disconnect (dev_ioctl (env_ioctl env) (en_fds s)) (ms_driver (en_master s)) =
      Inr (drv, calls)" and s': "s' = s\<lparr>en_master := ?st\<lparr>ms_driver := drv, ms_calls := ms_calls (en_master s) @ calls\<rparr>,
      en_fds := fold fds_of_call calls (en_fds s)\<rparr>"
    using assms(1) by (auto simp: on_master_def Let_def bindE_Inr_iff disconnect_driver_def)
  show ?thesis
    using disconnected_step [OF assms(2) d, of "?st\<lparr>ms_driver := drv, ms_calls := ms_calls (en_master s) @ calls\<rparr>"]
    by (simp add: s')
qed

text \<open>The last owner disconnects the driver unless that has been done.\<close>

lemma destroy_driver_step:
  assumes "destroy_driver env s = Inr s'" and "driver_ok s"
  shows "driver_ok s' \<and> en_owners s' = en_owners s \<and> state_of s' = OFF"
proof (cases "state_of s")
  case ON
  then have "on_master env disconnect_driver s = Inr s'"
    using assms(1) by (simp add: destroy_driver_def on_master_def disconnect_driver_def NBDDriverProxy_dtor_def Let_def)
  from on_master_disconnect [OF this assms(2)] show ?thesis by blast
next
  case OFF
  then have s': "ms_driver (en_master s') = ms_driver (en_master s)" "ms_calls (en_master s') = ms_calls (en_master s)"
    "en_fds s' = en_fds s" "en_owners s' = en_owners s"
    using assms(1) by (auto simp: destroy_driver_def on_master_def NBDDriverProxy_dtor_def Let_def)
  with OFF assms(2) driver_ok_cong [OF s'(1-3)] show ?thesis by simp
qed

lemma release_step:
  assumes "release env ow s = Inr s'" and "driver_ok s"
  shows "driver_ok s' \<and> en_owners s' = en_owners s - {ow} \<and>
    state_of s' = (if en_owners s = {ow} then OFF else state_of s)"
proof (cases "en_owners s = {ow}")
  case True
  with assms(1) have d: "destroy_driver env (s\<lparr>en_owners := {}\<rparr>) = Inr s'" by (simp add: release_def)
  have "driver_ok (s\<lparr>en_owners := {}\<rparr>)" using assms(2) by (subst driver_ok_cong [of _ s]) simp_all
  from destroy_driver_step [OF d this] True show ?thesis by simp
next
  case False
  then have s': "s' = s\<lparr>en_owners := en_owners s - {ow}\<rparr>" using assms(1) by (simp add: release_def)
  then have "driver_ok s'" using assms(2) by (subst driver_ok_cong [of _ s]) simp_all
  with False s' show ?thesis by simp
qed

lemma engine_destroyed_step:
  assumes "engine_destroyed env ts s = Inr s'" and "driver_ok s" and abi: "\<And>r. reply_cells (env_abi env) r \<noteq> []"
    and "Gateways \<in> en_owners s" and "ts \<noteq> [] \<Longrightarrow> Pool_Tasks \<in> en_owners s"
  shows "driver_ok s' \<and> en_owners s' = en_owners s - {Gateways, Pool_Tasks} \<and> orderly (state_of s) ts \<and>
    state_of s' = (if en_owners s' = {} \<or> list_ex disconnects_task ts then OFF else state_of s)"
proof -
  obtain s1 s2 where run: "release env Gateways s = Inr s1" "work env ts s1 = Inr s2" "release env Pool_Tasks s2 = Inr s'"
    using assms(1) by (auto simp: engine_destroyed_def bindE_Inr_iff)
  note s1 = release_step [OF run(1) assms(2)]
  then have "driver_ok s1" by blast
  note s2 = work_steps [OF abi run(2) this]
  then have "driver_ok s2" by blast
  note s' = release_step [OF run(3) this]
  show ?thesis
  proof (cases "Pool_Tasks \<in> en_owners s")
    case True
    then have "en_owners s \<noteq> {Gateways}" by auto
    with s1 have "state_of s1 = state_of s" by simp
    with s2 have st: "orderly (state_of s) ts" "state_of s2 = (if list_ex disconnects_task ts then OFF else state_of s)"
      by simp_all
    have own: "en_owners s2 = en_owners s - {Gateways}" using s1 s2 by simp
    then have last: "en_owners s' = en_owners s - {Gateways, Pool_Tasks}" "en_owners s2 = {Pool_Tasks} \<longleftrightarrow> en_owners s' = {}"
      using s' True by auto
    have "state_of s' = (if en_owners s' = {} then OFF else state_of s2)" using s' last(2) by metis
    then have "state_of s' = (if en_owners s' = {} \<or> list_ex disconnects_task ts then OFF else state_of s)"
      using st(2) by simp
    with last(1) st(1) s' show ?thesis by blast
  next
    case False
    with assms(5) have ts: "ts = []" by blast
    with run(2) have "s2 = s1" by simp
    with s1 False have "en_owners s2 \<noteq> {Pool_Tasks}" "en_owners s2 - {Pool_Tasks} = en_owners s - {Gateways, Pool_Tasks}"
      "en_owners s = {Gateways} \<longleftrightarrow> en_owners s - {Gateways, Pool_Tasks} = {}" using assms(4) by auto
    with s1 s' ts \<open>s2 = s1\<close> show ?thesis by simp
  qed
qed

section \<open>Properties\<close>

text \<open>
  The tasks that have run, with the call of \<open>Disconnect\<close> in the handler of \<open>EINTR\<close> at its place, where it does what a
  \<open>STDINExit\<close> does.
\<close>

definition all_tasks :: "unit res \<Rightarrow> master_task list \<Rightarrow> master_task list \<Rightarrow> master_task list" where
  "all_tasks r ts0 ts1 = ts0 @ (if r = Inl (EpollError EINTR) then [STDINExit (TaskInfo None)] else []) @ ts1"

definition leaves_main :: "unit res \<Rightarrow> bool" where
  "leaves_main r \<longleftrightarrow> (case r of Inr _ \<Rightarrow> True | Inl (EpollError e) \<Rightarrow> True | _ \<Rightarrow> False)"

lemma orderly_count: "orderly c ts \<Longrightarrow> length (filter disconnects_task ts) = (if list_ex disconnects_task ts then 1 else 0)"
  by (induction c ts rule: orderly.induct) (auto dest!: orderly_once simp: filter_empty_conv list_ex_iff split: if_splits)

lemma owners_left:
  assumes "{Main_Driver, Run_Driver, Gateways} \<subseteq> X"
  shows "X - {Gateways, Pool_Tasks} = {Main_Driver, Run_Driver}" "X - {Run_Driver} - {Gateways, Pool_Tasks} = {Main_Driver}"
    "X - {Run_Driver} - {Main_Driver} - {Gateways, Pool_Tasks} = {}"
  using assms owner.exhaust by blast+

text \<open>The three ways out, from a state in which \<open>ts0\<close> have run.\<close>

lemma return_from_loop:
  assumes run: "bindE (engine_destroyed env ts s) (\<lambda>s. bindE (release env Run_Driver s) (\<lambda>s.
      bindE (release env Main_Driver s) (\<lambda>s. Inr (SUCCESS, s)))) = Inr (status, s')"
    and ok: "driver_ok s" and abi: "\<And>r. reply_cells (env_abi env) r \<noteq> []"
    and own: "{Main_Driver, Run_Driver, Gateways} \<subseteq> en_owners s" and pool: "ts \<noteq> [] \<Longrightarrow> Pool_Tasks \<in> en_owners s"
  shows "driver_ok s' \<and> orderly (state_of s) ts \<and> state_of s' = OFF \<and> status = SUCCESS"
proof -
  obtain s1 s2 where s1: "engine_destroyed env ts s = Inr s1" and s2: "release env Run_Driver s1 = Inr s2"
    and s3: "release env Main_Driver s2 = Inr s'" and st: "status = SUCCESS" using run by (auto simp: bindE_Inr_iff)
  have e: "driver_ok s1 \<and> en_owners s1 = {Main_Driver, Run_Driver} \<and> orderly (state_of s) ts"
    using engine_destroyed_step [OF s1 ok abi] own pool owners_left(1) [OF own] by auto
  then have "driver_ok s2 \<and> en_owners s2 = {Main_Driver}" using release_step [OF s2] by auto
  then have "driver_ok s' \<and> state_of s' = OFF" using release_step [OF s3] by auto
  with e st show ?thesis by simp
qed

lemma return_from_handler:
  assumes run: "bindE (if EINTR = e then on_master env disconnect_driver s else Inr s) (\<lambda>s.
      bindE (release env Main_Driver s) (\<lambda>s.
      bindE (engine_destroyed env ts s) (\<lambda>s. Inr (SUCCESS, s)))) = Inr (status, s')"
    and ok: "driver_ok s" and abi: "\<And>r. reply_cells (env_abi env) r \<noteq> []"
    and own: "en_owners s = X - {Run_Driver}" "{Main_Driver, Run_Driver, Gateways} \<subseteq> X" and pool: "ts \<noteq> [] \<Longrightarrow> Pool_Tasks \<in> X"
  shows "driver_ok s' \<and> state_of s' = OFF \<and> status = SUCCESS \<and>
    (if EINTR = e then state_of s = ON \<and> orderly OFF ts else orderly (state_of s) ts)"
proof -
  obtain s1 s2 where s1: "(if EINTR = e then on_master env disconnect_driver s else Inr s) = Inr s1"
    and s2: "release env Main_Driver s1 = Inr s2" and s3: "engine_destroyed env ts s2 = Inr s'" and st: "status = SUCCESS"
    using run by (auto simp: bindE_Inr_iff)
  have d: "driver_ok s1 \<and> en_owners s1 = en_owners s \<and> (if EINTR = e then state_of s = ON \<and> state_of s1 = OFF else s1 = s)"
    using s1 ok on_master_disconnect by (cases "EINTR = e") auto
  have m: "driver_ok s2 \<and> en_owners s2 = X - {Run_Driver} - {Main_Driver} \<and> state_of s2 = state_of s1"
    using release_step [OF s2] d own by auto
  have "driver_ok s' \<and> orderly (state_of s2) ts \<and> state_of s' = OFF"
    using engine_destroyed_step [OF s3 _ abi] m own(2) pool owners_left(3) [OF own(2)] by auto
  with d m st show ?thesis by (auto split: if_splits)
qed

lemma main_ends_step:
  assumes "main_ends env r ts0 ts1 s = Inr (status, s')"
    and "driver_ok s" and "state_of s = ON" and abi: "\<And>r. reply_cells (env_abi env) r \<noteq> []"
    and own: "{Main_Driver, Run_Driver, Gateways} \<subseteq> en_owners s" and pool: "ts1 \<noteq> [] \<Longrightarrow> Pool_Tasks \<in> en_owners s"
  shows "driver_ok s' \<and> orderly ON (all_tasks r ts0 ts1) \<and> status = (if leaves_main r then SUCCESS else EXCEPTION) \<and>
    state_of s' = (if leaves_main r \<or> list_ex disconnects_task (all_tasks r ts0 ts1) then OFF else ON)"
proof -
  obtain s0 where s0: "work env ts0 s = Inr s0" using assms(1) by (auto simp: main_ends_def bindE_Inr_iff)
  note w = work_steps [OF abi s0 assms(2)] and main = assms(1) [unfolded main_ends_def s0 bindE_simps]
  note join = all_tasks_def orderly_append leaves_main_def
  show ?thesis
  proof (cases r)
    case (Inr u)
    with return_from_loop [of env ts1 s0] main abi w own pool assms(3) show ?thesis by (auto simp: join split: if_splits)
  next
    case (Inl f)
    with main have rt: "is_runtime_error f" by (auto split: if_splits)
    with Inl main obtain s1 where s1: "release env Run_Driver s0 = Inr s1" by (auto simp: bindE_Inr_iff)
    have r1: "driver_ok s1 \<and> en_owners s1 = en_owners s - {Run_Driver} \<and> state_of s1 = state_of s0"
      using release_step [OF s1] w own by auto
    note main1 = main [unfolded Inl sum.case if_P [OF rt] s1 bindE_simps]
    show ?thesis
    proof (cases "\<exists>e. f = EpollError e")
      case True
      then obtain e where e: "f = EpollError e" ..
      note h = return_from_handler [OF main1 [unfolded e fault.case] _ abi, of "en_owners s"]
      with Inl e r1 w own pool assms(3) show ?thesis by (cases "EINTR = e") (auto simp: join split: if_splits)
    next
      case False
      then have run: "engine_destroyed env ts1 s1 = Inr s'" and st: "status = EXCEPTION"
        using main1 by (cases f; auto simp: bindE_Inr_iff)+
      have "driver_ok s' \<and> orderly (state_of s0) ts1 \<and> state_of s' = (if list_ex disconnects_task ts1 then OFF else state_of s0)"
        using engine_destroyed_step [OF run _ abi] r1 own pool owners_left(2) [OF own] by auto
      moreover have "\<not> leaves_main r" "all_tasks r ts0 ts1 = ts0 @ ts1"
        using False Inl by (auto simp: leaves_main_def all_tasks_def split: fault.splits)
      ultimately show ?thesis using w st assms(3) by (auto simp: orderly_append split: if_splits)
    qed
  qed
qed

text \<open>
  C30: How the master ends, from the end of the loop, normal or by an exception, to the end of the process,
  for all tasks that the workers execute meanwhile.  If the process ends normally, the device has been disconnected
  exactly once where \<open>main\<close> is left by its \<open>return\<close>: by a task, by the handler of the signal or by the destructor of the
  driver, whose last owner goes with \<open>main\<close> or with the engine.  Where \<open>main\<close> calls \<open>exit\<close>, only a task may have disconnected it.
  No second disconnection and no reply has come behind a disconnection: each ends the process with an exception that nobody catches.
\<close>

theorem driver_disconnected_once:
  assumes "main_ends env r ts0 ts1 s = Inr (status, s')"
    and "driver_ok s" and "state_of s = ON" and "\<And>r. reply_cells (env_abi env) r \<noteq> []"
    and "{Main_Driver, Run_Driver, Gateways} \<subseteq> en_owners s" and "ts1 \<noteq> [] \<Longrightarrow> Pool_Tasks \<in> en_owners s"
  shows "disconnects s' = (if leaves_main r then 1 else length (filter disconnects_task (all_tasks r ts0 ts1))) \<and>
    file_at (en_fds s') (m_file_fd (ms_driver (en_master s'))) = (if disconnects s' = 1 then None else Some Device) \<and>
    length (filter disconnects_task (all_tasks r ts0 ts1)) \<le> 1 \<and>
    orderly ON (all_tasks r ts0 ts1) \<and> status = (if leaves_main r then SUCCESS else EXCEPTION)"
proof -
  let ?all = "all_tasks r ts0 ts1" and ?drv = "ms_driver (en_master s')"
  note m = main_ends_step [OF assms]
  have "length (filter disconnects_task ?all) = (if list_ex disconnects_task ?all then 1 else 0)"
    using m orderly_count by blast
  moreover have "disconnects s' = (if state_of s' = ON then 0 else 1)"
    "file_at (en_fds s') (m_file_fd ?drv) = (if state_of s' = ON then Some Device else None)"
    using m by (auto simp: driver_ok_def Let_def split: if_splits)
  ultimately show ?thesis using m by (auto split: if_splits)
qed

text \<open>A flush is answered, then the task of a \<open>q\<close> runs while the pool is being stopped.\<close>

definition ending_env :: master_env where
  "ending_env = \<lparr>env_abi = packed_abi, env_sendto = (\<lambda>p. True), env_ioctl = (\<lambda>c. True)\<rparr>"

definition ending_start :: ending where
  "ending_start =
     \<lparr>en_master = \<lparr>ms_storage = \<lparr>m_slaves = [], m_list = [], m_num_of_slaves = 0, m_storage_size = 2048, cs_m_req_id = 0\<rparr>,
        ms_driver = \<lparr>m_req_fd = 3, m_nbd_fd = 4, m_file_fd = 5, m_connected = ON\<rparr>,
        ms_ios = [IO_Upto 20, IO_Upto 20], ms_out = [], ms_sent = [], ms_calls = []\<rparr>,
      en_fds = [Some Terminal, Some Terminal, Some Terminal, Some Proxy_End, Some Kernel_End, Some Device],
      en_owners = UNIV\<rparr>"

definition flush_data :: DriverData where
  "flush_data = new_DriverData\<lparr>m_key := Some FLUSH, m_status := Some 0\<rparr>"

lemma universe_of_owners: "(UNIV :: owner set) = {Main_Driver, Run_Driver, Gateways, Pool_Tasks}"
  using owner.exhaust by auto

theorem driver_disconnected_once_witness:
  "\<exists>status s'. main_ends ending_env (Inr ()) [NBDFlush (TaskInfo (Some flush_data))] [STDINExit (TaskInfo None)] ending_start =
      Inr (status, s') \<and> disconnects s' = 1 \<and> file_at (en_fds s') (m_file_fd (ms_driver (en_master s'))) = None \<and>
    status = SUCCESS"
proof -
  note defs = ending_env_def ending_start_def flush_data_def main_ends_def run_task_def on_master_def io_answers_def
    reply_to_kernel_def NBDDriverProxy_SendReply_def packed_abi_def InitReaply_def le_bytes_def engine_destroyed_def
    release_def with_info_def disconnect_driver_def NBDDriverProxy_Disconnect_def Ioctl_def dev_ioctl_def file_at_def
    fd_close_def destroy_driver_def NBDDriverProxy_dtor_def new_DriverData_def HANDLE_SIZE_def
  have "\<exists>status s'. main_ends ending_env (Inr ()) [NBDFlush (TaskInfo (Some flush_data))] [STDINExit (TaskInfo None)] ending_start =
      Inr (status, s')"
    by (simp add: defs universe_of_owners)
  then obtain status s' where run: "main_ends ending_env (Inr ()) [NBDFlush (TaskInfo (Some flush_data))]
      [STDINExit (TaskInfo None)] ending_start = Inr (status, s')" by blast
  have "driver_ok ending_start" "state_of ending_start = ON" "en_owners ending_start = UNIV"
    by (simp_all add: driver_ok_def ending_start_def file_at_def disconnects_def)
  note start = this
  have abi: "reply_cells (env_abi ending_env) r \<noteq> []" for r
    by (simp add: ending_env_def packed_abi_def le_bytes_def upt_rec)
  from driver_disconnected_once [OF run start(1,2) abi] start(3)
  have "disconnects s' = 1 \<and> file_at (en_fds s') (m_file_fd (ms_driver (en_master s'))) = None \<and> status = SUCCESS"
    by (simp add: leaves_main_def)
  with run show ?thesis by blast
qed

end
