(* ===== verification/Clean_Quit.thy ===== *)
theory Clean_Quit
  imports Shutdown
begin

text \<open>
  A \<open>q\<close> on the standard input of the master while the kernel waits for no request: the pool of \<open>Thread_Pool\<close> with
  the tasks that are in its queue when the destructor stops it, and the rest of \<open>main\<close> as in \<open>Shutdown\<close>.
\<close>

text \<open>The tasks that the gateway of the standard input makes.\<close>

fun console_task :: "master_task \<Rightarrow> bool" where
  "console_task (STDINIgnore info) = True"
| "console_task (STDINExit info) \<longleftrightarrow> info \<noteq> Null_TaskInfo"
| "console_task _ = False"

lemma console_orderly:
  "\<forall>t \<in> set ts. console_task t \<Longrightarrow> length (filter disconnects_task ts) \<le> (if c = ON then 1 else 0) \<Longrightarrow> orderly c ts"
proof (induction ts arbitrary: c)
  case (Cons t ts)
  have "\<not> replies_task t" using Cons.prems(1) by (cases t) auto
  with Cons show ?case by (auto split: if_splits)
qed simp

lemma console_task_runs:
  assumes "console_task t" and "driver_ok s" and "disconnects_task t \<Longrightarrow> state_of s = ON" and "\<forall>c. env_ioctl env c"
  shows "\<exists>s'. run_task env t s = Inr s'"
  using assms
  by (cases t)
     (auto simp: run_task_def on_master_def Let_def with_info_def disconnect_driver_def NBDDriverProxy_Disconnect_def
       Ioctl_def dev_ioctl_def driver_ok_def)

lemma console_work_ends:
  assumes "\<forall>c. env_ioctl env c" and abi: "\<And>r. reply_cells (env_abi env) r \<noteq> []"
  shows "\<forall>t \<in> set ts. console_task t \<Longrightarrow> driver_ok s \<Longrightarrow> orderly (state_of s) ts \<Longrightarrow> \<exists>s'. work env ts s = Inr s'"
proof (induction ts arbitrary: s)
  case (Cons t ts)
  obtain s1 where s1: "run_task env t s = Inr s1"
    using console_task_runs [of t s env] Cons.prems assms(1) by auto
  have "driver_ok s1" "orderly (state_of s1) ts"
    using run_task_step [OF s1 Cons.prems(2) abi] Cons.prems(3) by (auto split: if_splits)
  with Cons.IH [of s1] Cons.prems(1) s1 show ?case by simp
qed simp

lemma release_ends:
  assumes "driver_ok s" and "\<forall>c. env_ioctl env c"
  shows "\<exists>s'. release env ow s = Inr s'"
  using assms
  by (auto simp: release_def destroy_driver_def on_master_def Let_def NBDDriverProxy_dtor_def
      NBDDriverProxy_Disconnect_def Ioctl_def dev_ioctl_def driver_ok_def)

lemma normal_end_ends:
  assumes env: "\<forall>c. env_ioctl env c" "\<And>r. reply_cells (env_abi env) r \<noteq> []"
    and s: "driver_ok s" "state_of s = ON" "Main_Driver \<in> en_owners s"
    and ts: "\<forall>t \<in> set ts. console_task t" "length (filter disconnects_task ts) \<le> 1"
  shows "\<exists>status s'. main_ends env (Inr ()) [] ts s = Inr (status, s')"
proof -
  obtain s1 where s1: "release env Gateways s = Inr s1" using release_ends s(1) env(1) by blast
  have "en_owners s \<noteq> {Gateways}" using s(3) by auto
  with release_step [OF s1 s(1)] s(2) have k1: "driver_ok s1" "state_of s1 = ON" by simp_all
  have "orderly (state_of s1) ts" using console_orderly [OF ts(1), of ON] ts(2) k1(2) by simp
  then obtain s2 where s2: "work env ts s1 = Inr s2" using console_work_ends [OF env ts(1) k1(1)] by blast
  have k2: "driver_ok s2" using work_steps [OF env(2) s2 k1(1)] by blast
  obtain s3 where s3: "release env Pool_Tasks s2 = Inr s3" using release_ends k2 env(1) by blast
  have k3: "driver_ok s3" using release_step [OF s3 k2] by blast
  obtain s4 where s4: "release env Run_Driver s3 = Inr s4" using release_ends k3 env(1) by blast
  have k4: "driver_ok s4" using release_step [OF s4 k3] by blast
  obtain s5 where s5: "release env Main_Driver s4 = Inr s5" using release_ends k4 env(1) by blast
  show ?thesis by (simp add: main_ends_def engine_destroyed_def s1 s2 s3 s4 s5)
qed

text \<open>Every pool comes to rest, since each step makes it smaller.\<close>

lemma pool_comes_to_rest: "\<exists>ps'. pool_reaches ps ps' \<and> (\<forall>ps''. \<not> pool_step ps' ps'')"
proof (induction "pool_size ps" arbitrary: ps rule: less_induct)
  case less
  show ?case
  proof (cases "\<exists>ps1. pool_step ps ps1")
    case True
    then obtain ps1 where ps1: "pool_step ps ps1" ..
    from less [OF pool_size_step [OF ps1]] obtain ps' where rest: "pool_reaches ps1 ps'" "\<forall>ps''. \<not> pool_step ps' ps''"
      by blast
    from rest(1) have "pool_reaches ps ps'"
      by induction (use ps1 in \<open>blast intro: pool_reaches.intros\<close>)+
    with rest(2) show ?thesis by blast
  qed (blast intro: pool_reaches.start)
qed

lemma executed_of_pushed:
  assumes "pool_reaches (stopping_pool n (map (UserTask p) ts)) ps" and "\<And>ps'. \<not> pool_step ps ps'"
  shows "mset (executed ps) \<subseteq># mset ts"
proof -
  have u: "user_tasks (map (UserTask p) ts)" by (auto simp: user_tasks_def)
  have all: "total_of user (map (UserTask p) ts) = mset ts" by (induction ts) (simp_all add: total_of_def)
  have "content ps = mset ts" using stopping_pool_invs(6) [OF assms(1) u] all by simp
  then show ?thesis by (metis content_def add.commute mset_subset_eq_add_left)
qed

section \<open>Properties\<close>

text \<open>
  C31: Quitting while no request is waiting: the queue holds what was typed, with at most one \<open>q\<close> of it.  In every
  interleaving of the workers with the destructor of the pool, whatever of the queue they still execute, the master ends with the
  status of success, and the device has been disconnected exactly once and is closed.
\<close>

theorem quit_is_clean:
  assumes "pool_reaches (stopping_pool n (map (UserTask p) ts)) ps" and "\<And>ps'. \<not> pool_step ps ps'"
    and "\<forall>t \<in> set ts. console_task t" and "length (filter disconnects_task ts) \<le> 1"
    and "driver_ok s" and "state_of s = ON" and "en_owners s = UNIV"
    and "\<forall>c. env_ioctl env c" and "\<And>r. reply_cells (env_abi env) r \<noteq> []"
  shows "\<exists>s'. main_ends env (Inr ()) [] (executed ps) s = Inr (SUCCESS, s') \<and> disconnects s' = 1 \<and>
    file_at (en_fds s') (m_file_fd (ms_driver (en_master s'))) = None \<and> mset (executed ps) \<subseteq># mset ts"
proof -
  have sub: "mset (executed ps) \<subseteq># mset ts" using executed_of_pushed [OF assms(1,2)] .
  have quiet: "\<forall>t \<in> set (executed ps). console_task t" using set_mset_mono [OF sub] assms(3) by auto
  have few: "length (filter disconnects_task (executed ps)) \<le> 1"
    using size_mset_mono [OF multiset_filter_mono [OF sub, of disconnects_task]] assms(4)
    by (simp flip: mset_filter)
  obtain status s' where run: "main_ends env (Inr ()) [] (executed ps) s = Inr (status, s')"
    using normal_end_ends [OF assms(8,9,5,6) _ quiet few] assms(7) by auto
  note e = main_ends_step [OF run assms(5,6,9)]
  have "driver_ok s' \<and> state_of s' = OFF \<and> status = SUCCESS" using e assms(7) by (simp add: leaves_main_def)
  with run sub show ?thesis by (auto simp: driver_ok_def Let_def)
qed

text \<open>Two workers, with a line that is ignored and a \<open>q\<close> in the queue.\<close>

theorem quit_is_clean_witness:
  "\<exists>ps s'. pool_reaches (stopping_pool 2 (map (UserTask MEDIUM) [STDINIgnore Null_TaskInfo, STDINExit (TaskInfo None)])) ps \<and>
    main_ends ending_env (Inr ()) [] (executed ps) ending_start = Inr (SUCCESS, s') \<and> disconnects s' = 1"
proof -
  let ?ts = "[STDINIgnore Null_TaskInfo, STDINExit (TaskInfo None)]"
  obtain ps where ps: "pool_reaches (stopping_pool 2 (map (UserTask MEDIUM) ?ts)) ps" "\<And>ps'. \<not> pool_step ps ps'"
    using pool_comes_to_rest by blast
  have s: "driver_ok ending_start" "state_of ending_start = ON" "en_owners ending_start = UNIV"
    by (simp_all add: driver_ok_def ending_start_def file_at_def disconnects_def)
  have env: "\<forall>c. env_ioctl ending_env c" "reply_cells (env_abi ending_env) r \<noteq> []" for r
    by (simp_all add: ending_env_def packed_abi_def le_bytes_def upt_rec)
  have "\<forall>t \<in> set ?ts. console_task t" "length (filter disconnects_task ?ts) \<le> 1" by simp_all
  from quit_is_clean [OF ps this s env] ps(1) show ?thesis by blast
qed

end
