(* ===== verification/Release_Console.thy ===== *)
theory Release_Console
  imports Signal_Setup Old_Programs
begin

text \<open>
  What the releases of the master say to the user: the usage text of a call with the wrong number of
  arguments, and the line in the log when the standard input cannot be read (\<open>PrintUsege\<close> and
  \<open>HundelInputFD\<close> of release/greencloud.0.1.cpp to release/greencloud.0.5.cpp and of release/slave.cpp).
\<close>

section \<open>The standard input\<close>

text \<open>
  \<open>HundelInputFD\<close> of \<open>Old_Programs\<close> with the line it logs, whose number in the source is \<open>line\<close>; the versions from
  0.3 on have a gateway instead.
\<close>

definition HundelInputFD_log :: "int \<Rightarrow> byte list option \<Rightarrow> bool logged" where
  "HundelInputFD_log line stt =
     (case stt of
        None \<Rightarrow>
          bindL ([(LOG_ERROR, ''HundelInputFD() fail to read from stdin'', line)], Inr ()) (\<lambda>_.
          ([], Inl (Runtime_Error ''HundelInputFD() fail to read from stdin'')))
      | Some bytes \<Rightarrow>
          let input = overwrite (replicate 100 None) 0 (map Some (take 100 bytes))
          in ([], bindE (byte_at input 0) (\<lambda>c. Inr (c = of_char (CHR ''q'')))))"

definition v01_HundelInputFD :: "byte list option \<Rightarrow> bool logged" where
  "v01_HundelInputFD = HundelInputFD_log 207"

definition v015_HundelInputFD :: "byte list option \<Rightarrow> bool logged" where
  "v015_HundelInputFD = HundelInputFD_log 217"

definition v02_HundelInputFD :: "byte list option \<Rightarrow> bool logged" where
  "v02_HundelInputFD = HundelInputFD_log 202"

definition v025_HundelInputFD :: "byte list option \<Rightarrow> bool logged" where
  "v025_HundelInputFD = HundelInputFD_log 208"

lemma HundelInputFD_erase: "snd (HundelInputFD_log line stt) = HundelInputFD stt"
  by (simp add: HundelInputFD_log_def HundelInputFD_def Let_def split: option.split)

text \<open>
  Any input decides alike in all versions: a \<open>q\<close> in front ends the loop; the end of the input is the read of an
  indeterminate byte.
\<close>

lemma input_decides:
  "HundelInputFD_log line (Some bytes) =
     ([], if bytes = [] then Inl Indeterminate else Inr (hd bytes = of_char (CHR ''q'')))"
  by (cases bytes) (simp_all add: HundelInputFD_log_def Let_def byte_at_def overwrite_def numeral_eq_Suc)

section \<open>The usage texts\<close>

text \<open>What goes to the standard error; \<open>std::endl\<close> is a newline.\<close>

definition tab :: char where "tab = char_of (9 :: nat)"
definition newline :: char where "newline = char_of (10 :: nat)"

definition two_usages :: string where
  "two_usages =
     ''-- usage green_cloud.0.1.out:'' @ [tab] @ ''size_of_storage, path_to_fd'' @ [newline] @
     ''-- usage green_cloud.0.1.out:'' @ [tab] @ ''size_of_block num_of_blocks path_to_fd'' @ [newline]"

definition one_usage :: string where
  "one_usage = ''-- usage green_cloud.0.1.out:'' @ [tab] @ ''path to nbd'' @ [newline]"

definition v01_PrintUsege :: string where "v01_PrintUsege = two_usages"
definition v015_PrintUsege :: string where "v015_PrintUsege = two_usages"
definition v02_PrintUsege :: string where "v02_PrintUsege = two_usages"
definition v025_PrintUsege :: string where "v025_PrintUsege = two_usages"
definition v03_PrintUsege :: string where "v03_PrintUsege = two_usages"
definition v04_PrintUsege :: string where "v04_PrintUsege = one_usage"
definition v05_PrintUsege :: string where "v05_PrintUsege = one_usage"

definition slave_PrintUsege :: string where
  "slave_PrintUsege =
     ''-- slave.out ERROR'' @ [tab] @ ''size_of_storage it set the 0'' @ [newline] @
     ''see slave_condig.json'' @ [newline]"

end
