(* ===== verification/Spec2Isabelle.thy ===== *)
theory Spec2Isabelle
  imports GC_Prelude C_Memory Driver_Data Storage Mmap_Storage Wire_Format Slave_Driver_Proxy Handle_Table
    Cloud_Storage Slave_Gateway Nbd_Driver_Proxy Factory Tasks Pipeline End_To_End Handshake
    Semaphores Thread_Pool Pool_Runs Request_Engine Programs Old_Storages
    Logger Dispatcher Plug_And_Play Handleton Tools Old_Programs
    Critical_Section Concurrent_Replies Concurrent_Storages Concurrent_Requests
    Signal_Setup Reentrant_Notify Plugins Cluster Cluster_Runs Cluster_Steps Cluster_Results
    Device_Size Descriptors Concurrent_Disconnects Shutdown Clean_Quit Release_Console
begin

text \<open>
  greencloud is a network block device.  The master (release/greencloud.0.5.cpp) takes the requests of
  the Linux kernel from a socket, sends them as datagrams to slaves (release/slave.cpp), which keep the
  blocks in a mapped file, and answers the kernel when the slaves have replied.  Both programs are a
  main loop that waits for descriptors, reads a request with the gateway of the descriptor, makes a
  task of it and hands the task to a pool of threads.

  \<^bold>\<open>Conventions.\<close>  A C++ operation is a function on the explicit state of its object and returns
  \<open>fault + 'a\<close> (\<open>GC_Prelude\<close>): exceptions, \<open>exit\<close> and undefined behaviour are values on the left.
  Memory is a list of cells, \<open>None\<close> being a cell that was never written; a pointer that only moves
  forward is the suffix it points at (\<open>C_Memory\<close>, with the functions of the C library).  \<open>size_t\<close> is
  \<open>64 word\<close>, \<open>unsigned\<close> and \<open>int\<close> are \<open>32 word\<close>, a byte is \<open>8 word\<close>, where their overflow matters.  What
  the system answers (\<open>read\<close>, \<open>recvfrom\<close>, \<open>ioctl\<close>, \<open>epoll\<close>, \<open>dlopen\<close>, the file system, the clock, the
  configuration file) is an argument; a list of answers that is used up is the fault \<open>Would_Block\<close>.

  \<^bold>\<open>Data and storages.\<close>  \<open>Driver_Data\<close>: \<open>DriverData\<close> and \<open>FactoryKey\<close> (driver_data.hpp, globals.hpp).
  \<open>Storage\<close>: the interface of storage.hpp as the locale \<open>storage\<close>, whose contract is that reads deliver
  what the last write to each address stored; \<open>Mmap_Storage\<close> (mmap_storage.cpp) and the \<open>DiskStorage\<close> of
  \<open>Old_Storages\<close> (disk_storage.cpp) are interpretations of it; \<open>MemoryStorage\<close> (memory_storage.cpp) is not
  one, and \<open>Old_Storages\<close> shows what it and a failed \<open>DiskStorage\<close> do instead.

  \<^bold>\<open>The protocol.\<close>  \<open>Wire_Format\<close> specifies the datagrams.  \<open>Slave_Driver_Proxy\<close> (slave_driver_proxy.cpp),
  \<open>Cloud_Storage\<close> with its request ids in \<open>Handle_Table\<close> (cloud_storage.cpp) and \<open>Slave_Gateway\<close>
  (slave_gateway.cpp) are the writers and parsers, which \<open>Pipeline\<close> shows to be inverse to each other;
  \<open>Handshake\<close> is the greeting of a slave.  \<open>Nbd_Driver_Proxy\<close> (nbd_driver_proxy.cpp, ioctl_wrapper.cpp) is
  the protocol with the kernel; the layout of linux/nbd.h is a record of parameters with its laws as a
  locale.  \<open>End_To_End\<close> follows a write and a read of the kernel to the disk of a slave and back.

  \<^bold>\<open>Engine and pool.\<close>  \<open>Factory\<close> (factory.hpp); \<open>Semaphores\<close> (semaphore.cpp); \<open>Thread_Pool\<close>
  (thread_pool.cpp, wpriorityqueue.hpp, tptask.cpp) is a step relation between the owner of the pool and its
  workers, and \<open>Pool_Runs\<close> has its invariants, the termination of \<open>Stop\<close> and the tasks \<open>Stop\<close> may
  discard; \<open>Request_Engine\<close> (epoll.cpp, request_engine.hpp) is the main loop.  \<open>Tasks\<close> (nbd_tasks.hpp,
  stdin_tasks.hpp, slave_tasks.hpp, the gateways) are what the workers run, and \<open>Programs\<close> puts both
  programs together, up to the exit status.

  \<^bold>\<open>Several workers at once.\<close>  In \<open>Pool_Runs\<close> a task is one step; what two tasks do to one object at the same
  time is in theories of their own.  \<open>Critical_Section\<close> has clients of a section under a \<open>std::lock_guard\<close>, in any
  interleaving, and shows that each run has the effect of a serial one.  \<open>Concurrent_Replies\<close>
  (\<open>NBDDriverProxy::SendReply\<close>, write by write) and \<open>Concurrent_Storages\<close> (\<open>DiskStorage\<close>, seek and transfer) are
  instances; the latter also has \<open>MmapStorage\<close>, whose locks are comments, with a \<open>memcpy\<close> that copies
  its bytes one at a time in any order.  \<open>Concurrent_Requests\<close> interleaves the calls of
  \<open>CloudStorage::Write\<close> and \<open>CloudStorage::Read\<close>, whose lock is inside \<open>HandlerToId\<close> only, with the replies.

  \<^bold>\<open>The whole system.\<close>  \<open>Cluster\<close> puts the main loops and the workers of the master and of a slave and the
  datagrams between them together, with any number of requests on their way; \<open>Cluster_Runs\<close> says where each
  request is and what holds of the table of requests, the disk and the replies, \<open>Cluster_Steps\<close> that every event keeps
  it, and \<open>Cluster_Results\<close> that the kernel sees a device that serves one request after another and answers
  each once.  There a task is one step, a datagram may be late or lost but is not doubled (a doubled reply
  reads the end of the table, \<open>IdToHandler_branches\<close>), and the requests are such that the C strings of the protocol do
  not cut them.

  \<^bold>\<open>Lifetimes and the end of the master.\<close>  \<open>Descriptors\<close> has the table of open descriptors, with the locale \<open>descriptors\<close> of
  what \<open>open\<close> and \<open>close\<close> promise, and the constructors and destructors of the eight classes that own descriptors on it, in any
  nesting, with whatever the system answers and with scopes left by exceptions.
  \<open>Concurrent_Disconnects\<close> interleaves calls of \<open>NBDDriverProxy::Disconnect\<close>, system call by system call, with the thread of
  the device and with other threads that open files.  \<open>Shutdown\<close> follows the master from the end of its loop to
  the end of the process: the owners of the \<open>shared_ptr\<close> of the driver, the order in which they go on each path
  through \<open>main\<close>, and the tasks that the workers execute meanwhile, one after another.  \<open>Clean_Quit\<close> joins it to the pool: a \<open>q\<close> while no request waits
  ends the master well in every interleaving.  \<open>Device_Size\<close> compares the size of the device with that of the
  storage behind it.

  \<^bold>\<open>Services.\<close>  \<open>Logger\<close> (logger.cpp), \<open>Dispatcher\<close> (dispatcher_callback.hpp, with the locale
  \<open>subscriptions\<close>; the methods of the observers are arguments that may change the subscriptions), \<open>Plug_And_Play\<close> (plug_and_play.cpp), \<open>Handleton\<close> (handleton.hpp, singleton.hpp), \<open>Tools\<close>
  (the text of \<open>IoctlError\<close>, create_h_file.cpp, the class of base.hpp).  \<open>Old_Programs\<close> has the versions 0.1 to 0.4 of the master
  over the abstract classes they use, with the serial version 0.1 on its \<open>MemoryStorage\<close> as a schedule of the threaded 0.1.5 on its \<open>DiskStorage\<close>,
  by a simulation between the services of the two.
  \<open>Signal_Setup\<close> has the signal functions of all versions with the lines they log, and which thread takes
  a signal by the rules of POSIX, of the main thread, the workers, and the threads of the device and of the
  \<open>DirMonitor\<close>.  \<open>Reentrant_Notify\<close> specifies the loop of \<open>NotifyAll\<close> for observers that
  change the subscriptions on one vector, and shows that the loop of \<open>Dispatcher\<close> on the store of objects implements it, \<open>Plugins\<close> the plugin of libtest.cpp, and \<open>Release_Console\<close> the usage texts of the programs and
  what the old versions log about the standard input.

  \<^bold>\<open>Bounds and fuel.\<close>  No model uses fuel.  The loops over the answers of the system are recursive in
  the list of answers; the loops over memory are recursive in the buffer or have a measure; the search
  for a log file is a \<open>partial_function (option)\<close> with a theorem that it ends, and \<open>ReadAll\<close> at the end of a
  stream is shown not to end.

  \<^bold>\<open>Not modelled.\<close>  The weak memory order of \<open>Handleton\<close> and of the races at \<open>MmapStorage\<close>, where the
  accesses to one byte are taken to happen one after another; the race between \<open>AddTask\<close> of a plugin and
  the main loop; the tasks and the gateway of the versions 0.2 to 0.4 that the sources do not have any
  more (arguments); reading the configuration file; the texts of the exceptions but those of \<open>IoctlError\<close> and of
  \<open>std::runtime_error\<close>; what the programs print for debugging; the interface classes without code
  (driver_proxy.hpp, monitor.hpp), and the programs under test/.
\<close>

end
